(* ===== verification/Prelude.thy ===== *)
theory Prelude
  imports Main "HOL-Library.Word"
begin

text \<open>
  Shared vocabulary of the development: the machine integers of the C code, the outcomes
  of a C call, the state-passing commands in which the stateful functions are written,
  the C strings of \<open>string.h\<close> and linked lists on a heap of nodes.
  Nothing here is specific to one source file.
\<close>

section \<open>Machine integers\<close>

text \<open>
  On the x86-64 Linux target \<open>size_t\<close> and \<open>unsigned long\<close> are 64 bits wide,
  \<open>int\<close> and \<open>unsigned int\<close> 32 bits. A signed value has the same bits as its
  unsigned reading: \<open>sint\<close> reads it as two's complement, and widening it to 64 bits is
  the sign-extending conversion \<open>scast\<close>.
\<close>

type_synonym u64 = "64 word"
type_synonym u32 = "32 word"
type_synonym i32 = "32 word"
type_synonym addr = nat

abbreviation widen :: "i32 \<Rightarrow> u64" where
  "widen w \<equiv> scast w"

abbreviation narrow :: "u64 \<Rightarrow> i32" where
  "narrow w \<equiv> ucast w"

text \<open>Conversions and differences of small numbers.\<close>

lemma sint_of_nat_small: "n < 2 ^ 31 \<Longrightarrow> sint (of_nat n :: i32) = int n"
  by (simp add: signed_of_nat signed_take_bit_int_eq_self)

lemma sint64_of_nat_small: "n < 2 ^ 63 \<Longrightarrow> sint (of_nat n :: u64) = int n"
  by (simp add: signed_of_nat signed_take_bit_int_eq_self)

lemma narrow_of_nat [simp]: "narrow (of_nat n) = of_nat n"
  by (simp add: unsigned_of_nat word_of_nat_eq_iff)

lemma widen_of_nat: "n < 2 ^ 31 \<Longrightarrow> widen (of_nat n) = of_nat n"
  by (simp add: scast_eq sint_of_nat_small del: of_nat_numeral)

lemma sint_diff32: "m < 2 ^ 31 \<Longrightarrow> n < 2 ^ 31 \<Longrightarrow> sint (of_nat m - of_nat n :: i32) = int m - int n"
proof -
  assume m: "m < 2 ^ 31" and n: "n < 2 ^ 31"
  have "(of_nat m - of_nat n :: i32) = of_int (int m - int n)" by simp
  then have "sint (of_nat m - of_nat n :: i32) = signed_take_bit 31 (int m - int n)"
    by (simp only: signed_of_int) simp
  also have "\<dots> = int m - int n" by (rule signed_take_bit_int_eq_self) (use m n in auto)
  finally show ?thesis .
qed

lemma sint_diff64: "m < 2 ^ 63 \<Longrightarrow> n < 2 ^ 63 \<Longrightarrow> sint (of_nat m - of_nat n :: u64) = int m - int n"
proof -
  assume m: "m < 2 ^ 63" and n: "n < 2 ^ 63"
  have "(of_nat m - of_nat n :: u64) = of_int (int m - int n)" by simp
  then have "sint (of_nat m - of_nat n :: u64) = signed_take_bit 63 (int m - int n)"
    by (simp only: signed_of_int) simp
  also have "\<dots> = int m - int n" by (rule signed_take_bit_int_eq_self) (use m n in auto)
  finally show ?thesis .
qed

lemma narrow_of_int [simp]: "narrow (of_int n) = of_int n"
  by (simp add: unsigned_of_int word_of_int_eq_iff take_bit_nat_eq)
lemma unat_of_nat_small: "n < 2 ^ 64 \<Longrightarrow> unat (of_nat n :: u64) = n"
  by (simp add: unat_of_nat)

lemma unat32_of_nat_small: "n < 2 ^ 32 \<Longrightarrow> unat (of_nat n :: u32) = n"
  by (simp add: unat_of_nat)

lemma of_nat_less64: "m < 2 ^ 64 \<Longrightarrow> n < 2 ^ 64 \<Longrightarrow> (of_nat m :: u64) < of_nat n \<longleftrightarrow> m < n"
  by (simp add: word_less_nat_alt unat_of_nat_small)

lemma of_nat_less32: "m < 2 ^ 32 \<Longrightarrow> n < 2 ^ 32 \<Longrightarrow> (of_nat m :: u32) < of_nat n \<longleftrightarrow> m < n"
  by (simp add: word_less_nat_alt unat32_of_nat_small)

lemma widen_of_int: "- (2 ^ 31) \<le> i \<Longrightarrow> i < 2 ^ 31 \<Longrightarrow> widen (of_int i) = of_int i"
  by (simp add: scast_eq signed_of_int signed_take_bit_int_eq_self)

section \<open>Commands\<close>

text \<open>
  A C function that reads and writes shared state is a function from the state before to
  an outcome and the state after. The outcome is the returned value or a fault: the process
  ended by \<open>exit(EXIT_FAILURE)\<close>, undefined behaviour of C (a null dereference, an
  access to freed memory, an access past an object, a number that does not fit its type), a call
  that waits for something that is not there (\<open>Blocked\<close>), or a loop that never ends.
  The state is kept beside a fault, so what a blocked call has already sent is visible.
\<close>

datatype fault =
    Exit_failure
  | Null_deref
  | Use_after_free
  | Out_of_bounds
  | Int_overflow
  | Blocked
  | Diverges

type_synonym ('s, 'a) cmd = "'s \<Rightarrow> (fault + 'a) \<times> 's"

definition ret :: "'a \<Rightarrow> ('s, 'a) cmd" where
  "ret x = (\<lambda>s. (Inr x, s))"

definition stop :: "fault \<Rightarrow> ('s, 'a) cmd" where
  "stop e = (\<lambda>s. (Inl e, s))"

definition bnd :: "('s, 'a) cmd \<Rightarrow> ('a \<Rightarrow> ('s, 'b) cmd) \<Rightarrow> ('s, 'b) cmd" where
  "bnd m f = (\<lambda>s. case m s of (r, t) \<Rightarrow> (case r of Inl e \<Rightarrow> (Inl e, t) | Inr x \<Rightarrow> f x t))"

definition sq :: "('s, 'a) cmd \<Rightarrow> ('s, 'b) cmd \<Rightarrow> ('s, 'b) cmd" where
  "sq m k = bnd m (\<lambda>_. k)"

definition gets :: "('s \<Rightarrow> 'a) \<Rightarrow> ('s, 'a) cmd" where
  "gets f = (\<lambda>s. (Inr (f s), s))"

definition modify :: "('s \<Rightarrow> 's) \<Rightarrow> ('s, unit) cmd" where
  "modify f = (\<lambda>s. (Inr (), f s))"

text \<open>
  A command on one component of the state, given the component's selector and its update
  function, is a command on the whole state.
\<close>

definition zoom :: "('s \<Rightarrow> 't) \<Rightarrow> (('t \<Rightarrow> 't) \<Rightarrow> 's \<Rightarrow> 's) \<Rightarrow> ('t, 'a) cmd \<Rightarrow> ('s, 'a) cmd" where
  "zoom g u m = (\<lambda>s. case m (g s) of (r, t) \<Rightarrow> (r, u (\<lambda>_. t) s))"

lemma ret_run [simp]: "ret x s = (Inr x, s)"
  by (simp add: ret_def)

lemma stop_run [simp]: "stop e s = (Inl e, s)"
  by (simp add: stop_def)

lemma gets_run [simp]: "gets f s = (Inr (f s), s)"
  by (simp add: gets_def)

lemma modify_run [simp]: "modify f s = (Inr (), f s)"
  by (simp add: modify_def)

lemma bnd_run: "bnd m f s = (case m s of (r, t) \<Rightarrow> (case r of Inl e \<Rightarrow> (Inl e, t) | Inr x \<Rightarrow> f x t))"
  by (simp add: bnd_def)

lemma zoom_run: "zoom g u m s = (case m (g s) of (r, t) \<Rightarrow> (r, u (\<lambda>_. t) s))"
  by (simp add: zoom_def)

text \<open>
  The equations the component proofs step with: a command whose first part is known to
  return, or to fault, goes on with, or stops at, that outcome.
\<close>

lemma bnd_Inr: "m s = (Inr x, t) \<Longrightarrow> bnd m f s = f x t"
  by (simp add: bnd_def)

lemma bnd_Inl: "m s = (Inl e, t) \<Longrightarrow> bnd m f s = (Inl e, t)"
  by (simp add: bnd_def)

lemma sq_Inr: "m s = (Inr x, t) \<Longrightarrow> sq m k s = k t"
  by (simp add: sq_def bnd_def)

lemma sq_Inl: "m s = (Inl e, t) \<Longrightarrow> sq m k s = (Inl e, t)"
  by (simp add: sq_def bnd_def)

lemma zoom_Inr: "m (g s) = (r, t) \<Longrightarrow> zoom g u m s = (r, u (\<lambda>_. t) s)"
  by (simp add: zoom_def)

lemmas run_simps = bnd_Inr bnd_Inl sq_Inr sq_Inl zoom_Inr

lemma bnd_ret [simp]: "bnd (ret x) f = f x"
  by (simp add: bnd_def ret_def)

lemma bnd_stop [simp]: "bnd (stop e) f = stop e"
  by (simp add: bnd_def stop_def)

lemma sq_ret [simp]: "sq (ret x) k = k"
  by (simp add: sq_def)

lemma bnd_InrE:
  assumes "bnd m f s = (Inr y, u)"
  obtains x t where "m s = (Inr x, t)" and "f x t = (Inr y, u)"
  using assms by (auto simp: bnd_def split: prod.splits sum.splits)

section \<open>The C library the code calls\<close>

text \<open>
  Library calls can fail for reasons outside the program. Whether they do in a run is a
  parameter of the model: which allocation sizes \<open>malloc\<close> grants, and whether the
  thread, stream and formatting calls succeed. \<open>libc_ok\<close> is the run in which none
  fails.
\<close>

record libc =
  malloc_ok :: "u64 \<Rightarrow> bool"
  memstream_ok :: bool
  mutex_ok :: bool
  cond_ok :: bool
  thread_ok :: bool
  fprintf_ok :: bool
  fwrite_ok :: bool
  fclose_ok :: bool

definition libc_ok :: "libc \<Rightarrow> bool" where
  "libc_ok c \<longleftrightarrow> memstream_ok c \<and> mutex_ok c \<and> cond_ok c \<and> thread_ok c \<and> fprintf_ok c \<and> fwrite_ok c \<and>
    fclose_ok c"

lemma libc_okD [simp]:
  assumes "libc_ok c"
  shows "memstream_ok c" and "mutex_ok c" and "cond_ok c" and "thread_ok c"
    and "fprintf_ok c" and "fwrite_ok c" and "fclose_ok c"
  using assms by (simp_all add: libc_ok_def)

text \<open>Small allocations, such as those of the program's own records, are granted.\<close>

definition small_ok :: "libc \<Rightarrow> bool" where
  "small_ok c \<longleftrightarrow> (\<forall>n < 65536. malloc_ok c n)"

lemma small_okD: "small_ok c \<Longrightarrow> n < 65536 \<Longrightarrow> malloc_ok c n"
  by (simp add: small_ok_def)

text \<open>The values of \<open>errno\<close> the program uses (\<^verbatim>\<open>errno.h\<close> on Linux).\<close>

abbreviation ENOENT :: i32 where "ENOENT \<equiv> 2"
abbreviation E2BIG :: i32 where "E2BIG \<equiv> 7"
abbreviation EACCES :: i32 where "EACCES \<equiv> 13"
abbreviation EFAULT :: i32 where "EFAULT \<equiv> 14"
abbreviation EEXIST :: i32 where "EEXIST \<equiv> 17"
abbreviation EINVAL :: i32 where "EINVAL \<equiv> 22"
abbreviation ENODATA :: i32 where "ENODATA \<equiv> 61"
abbreviation ENONET :: i32 where "ENONET \<equiv> 64"
abbreviation ECANCELED :: i32 where "ECANCELED \<equiv> 125"

section \<open>C strings\<close>

text \<open>
  A C string is the list of its characters before the terminating NUL; \<open>char\<close> is the
  8-bit type of HOL. \<open>cstr\<close> reads the string that starts at the front of a buffer.
\<close>

abbreviation NUL :: char where
  "NUL \<equiv> CHR 0x00"

definition cstr :: "char list \<Rightarrow> string" where
  "cstr bs = takeWhile (\<lambda>c. c \<noteq> NUL) bs"

definition nul_free :: "string \<Rightarrow> bool" where
  "nul_free s \<longleftrightarrow> NUL \<notin> set s"

lemma nul_free_cstr [simp]: "nul_free (cstr bs)"
  by (auto simp: nul_free_def cstr_def dest: set_takeWhileD)

lemma cstr_id: "nul_free s \<Longrightarrow> cstr (s @ NUL # r) = s"
  unfolding nul_free_def cstr_def by (induction s) auto

lemma cstr_nul_free [simp]: "nul_free s \<Longrightarrow> cstr s = s"
  unfolding nul_free_def cstr_def by (induction s) auto

lemma nul_free_simps [simp]:
  "nul_free []"
  "nul_free (c # s) \<longleftrightarrow> c \<noteq> NUL \<and> nul_free s"
  "nul_free (s @ t) \<longleftrightarrow> nul_free s \<and> nul_free t"
  by (auto simp: nul_free_def)

text \<open>A line: the text and the newline that ends it.\<close>

abbreviation newline :: char where
  "newline \<equiv> CHR 0x0A"

definition line :: "string \<Rightarrow> string" where
  "line s = s @ [newline]"

text \<open>\<open>strncmp\<close>: the difference of the first characters that differ, the NUL counting as 0.\<close>

fun strncmp :: "string \<Rightarrow> string \<Rightarrow> nat \<Rightarrow> int" where
  "strncmp xs ys 0 = 0"
| "strncmp [] [] (Suc n) = 0"
| "strncmp [] (y # ys) (Suc n) = - of_char y"
| "strncmp (x # xs) [] (Suc n) = of_char x"
| "strncmp (x # xs) (y # ys) (Suc n) = (if x = y then strncmp xs ys n else of_char x - of_char y)"

lemma of_char_int_inj: "(of_char a :: int) = of_char b \<longleftrightarrow> a = b"
  by simp

lemma of_char_int_0: "(of_char a :: int) = 0 \<longleftrightarrow> a = NUL"
proof -
  have "(of_char NUL :: int) = 0" by simp
  then show ?thesis by (metis of_char_int_inj)
qed

lemma strncmp_length:
  "nul_free xs \<Longrightarrow> strncmp xs ys (length xs) = 0 \<longleftrightarrow> take (length xs) ys = xs"
proof (induction xs arbitrary: ys)
  case Nil
  then show ?case by simp
next
  case (Cons x xs)
  then show ?case by (cases ys) (auto simp: of_char_int_0 of_char_int_inj)
qed

section \<open>Linked lists on a heap\<close>

text \<open>
  A heap maps the addresses of live objects to their contents; an address that is not (or
  no longer) allocated has no entry. \<open>seg nx h p as q\<close>: following the link \<open>nx\<close>
  from \<open>p\<close> visits exactly the live nodes \<open>as\<close> and arrives at \<open>q\<close>; a whole list
  (\<open>chain\<close>) is a segment that arrives at the null pointer.
\<close>

fun seg :: "('n \<Rightarrow> addr option) \<Rightarrow> (addr \<rightharpoonup> 'n) \<Rightarrow> addr option \<Rightarrow> addr list \<Rightarrow> addr option \<Rightarrow> bool" where
  "seg nx h p [] q \<longleftrightarrow> p = q"
| "seg nx h p (a # as) q \<longleftrightarrow> p = Some a \<and> (\<exists>n. h a = Some n \<and> seg nx h (nx n) as q)"

abbreviation chain :: "('n \<Rightarrow> addr option) \<Rightarrow> (addr \<rightharpoonup> 'n) \<Rightarrow> addr option \<Rightarrow> addr list \<Rightarrow> bool" where
  "chain nx h p as \<equiv> seg nx h p as None"

lemma seg_append: "seg nx h p (as @ bs) q \<longleftrightarrow> (\<exists>r. seg nx h p as r \<and> seg nx h r bs q)"
  by (induction as arbitrary: p) auto

lemma chain_None [simp]: "chain nx h None as \<longleftrightarrow> as = []"
  by (cases as) auto

lemma chain_Some: "chain nx h (Some a) as \<longleftrightarrow>
    (\<exists>n bs. as = a # bs \<and> h a = Some n \<and> chain nx h (nx n) bs)"
  by (cases as) auto

lemma chain_Some_Cons: "chain nx h p (a # as) \<Longrightarrow> p = Some a"
  by simp

lemma seg_alloc: "seg nx h p as q \<Longrightarrow> a \<in> set as \<Longrightarrow> \<exists>n. h a = Some n"
  by (induction as arbitrary: p) auto

text \<open>
  Only the links of the nodes of a segment matter: writes elsewhere, and writes that keep
  the link, leave it alone.
\<close>

lemma seg_upd_other [simp]: "a \<notin> set as \<Longrightarrow> seg nx (h(a := v)) p as q \<longleftrightarrow> seg nx h p as q"
  by (induction as arbitrary: p) auto

lemma seg_cong:
  "(\<And>a. a \<in> set as \<Longrightarrow> map_option nx (h a) = map_option nx (h' a)) \<Longrightarrow>
    seg nx h p as q \<longleftrightarrow> seg nx h' p as q"
proof (induction as arbitrary: p)
  case Nil
  then show ?case by simp
next
  case (Cons a as)
  have "map_option nx (h a) = map_option nx (h' a)" using Cons.prems by simp
  moreover have "\<And>p. seg nx h p as q \<longleftrightarrow> seg nx h' p as q" using Cons by simp
  ultimately show ?case by (cases "h a"; cases "h' a") auto
qed

lemma seg_upd_same_link:
  "h a = Some n \<Longrightarrow> nx n' = nx n \<Longrightarrow> seg nx (h(a \<mapsto> n')) p as q \<longleftrightarrow> seg nx h p as q"
  by (rule seg_cong) simp

lemma chain_unique: "chain nx h p as \<Longrightarrow> chain nx h p bs \<Longrightarrow> as = bs"
proof (induction as arbitrary: p bs)
  case Nil
  then show ?case by simp
next
  case (Cons a as)
  then show ?case by (cases bs) auto
qed

lemma chain_suffix: "chain nx h p (as @ b # bs) \<Longrightarrow> chain nx h (Some b) (b # bs)"
  by (auto simp: seg_append)

lemma chain_distinct: "chain nx h p as \<Longrightarrow> distinct as"
proof (induction as arbitrary: p)
  case Nil
  then show ?case by simp
next
  case (Cons a as)
  from Cons.prems obtain n where n: "h a = Some n" "chain nx h (nx n) as" by auto
  have "a \<notin> set as"
  proof
    assume "a \<in> set as"
    then obtain us vs where as: "as = us @ a # vs" by (meson split_list)
    with n have "chain nx h (Some a) (a # vs)" by (auto dest: chain_suffix)
    moreover have "chain nx h (Some a) (a # as)" using Cons.prems by simp
    ultimately have "a # vs = a # as" using chain_unique by metis
    with as show False by simp
  qed
  with n Cons.IH show ?case by auto
qed

end
