(* ===== verification/Utils.thy ===== *)
theory Utils
  imports Prelude
begin

text \<open>
  \<^verbatim>\<open>src/utils.c\<close>: the wrappers around the thread and allocation calls, which end the process
  when the call fails, and \<open>readn\<close>/\<open>writen\<close>, which repeat \<open>read\<close> and
  \<open>write\<close> until a whole message has passed.
\<close>

section \<open>Mutexes and allocation\<close>

text \<open>
  A mutex is a field of the state that says whether it is held. Locking one that is held
  waits; in a run of one thread nobody ever releases it, so the call is \<open>Blocked\<close>. The
  wrappers take the selector of the mutex field and its update function.
\<close>

definition safe_pthread_mutex_lock ::
  "('s \<Rightarrow> libc) \<Rightarrow> ('s \<Rightarrow> bool) \<Rightarrow> ((bool \<Rightarrow> bool) \<Rightarrow> 's \<Rightarrow> 's) \<Rightarrow> ('s, unit) cmd" where
  "safe_pthread_mutex_lock lc mtx upd =
     bnd (gets (\<lambda>s. (mutex_ok (lc s), mtx s))) (\<lambda>(ok, held).
       if \<not> ok then stop Exit_failure
       else if held then stop Blocked
       else modify (upd (\<lambda>_. True)))"

definition safe_pthread_mutex_unlock ::
  "('s \<Rightarrow> libc) \<Rightarrow> ((bool \<Rightarrow> bool) \<Rightarrow> 's \<Rightarrow> 's) \<Rightarrow> ('s, unit) cmd" where
  "safe_pthread_mutex_unlock lc upd =
     bnd (gets (\<lambda>s. mutex_ok (lc s))) (\<lambda>ok.
       if \<not> ok then stop Exit_failure else modify (upd (\<lambda>_. False)))"

text \<open>
  \<open>pthread_cond_wait\<close> releases the mutex and waits for a signal. With no other thread to
  send one the call does not return: the mutex is free and the caller \<open>Blocked\<close>.
\<close>

definition safe_pthread_cond_wait ::
  "('s \<Rightarrow> libc) \<Rightarrow> ((bool \<Rightarrow> bool) \<Rightarrow> 's \<Rightarrow> 's) \<Rightarrow> ('s, unit) cmd" where
  "safe_pthread_cond_wait lc upd =
     bnd (gets (\<lambda>s. cond_ok (lc s))) (\<lambda>ok.
       if \<not> ok then stop Exit_failure
       else sq (modify (upd (\<lambda>_. False))) (stop Blocked))"

definition safe_pthread_cond_signal ::
  "('s \<Rightarrow> libc) \<Rightarrow> ((nat \<Rightarrow> nat) \<Rightarrow> 's \<Rightarrow> 's) \<Rightarrow> ('s, unit) cmd" where
  "safe_pthread_cond_signal lc upd =
     bnd (gets (\<lambda>s. cond_ok (lc s))) (\<lambda>ok.
       if \<not> ok then stop Exit_failure else modify (upd Suc))"

definition safe_pthread_cond_broadcast ::
  "('s \<Rightarrow> libc) \<Rightarrow> ((nat \<Rightarrow> nat) \<Rightarrow> 's \<Rightarrow> 's) \<Rightarrow> ('s, unit) cmd" where
  "safe_pthread_cond_broadcast lc upd =
     bnd (gets (\<lambda>s. cond_ok (lc s))) (\<lambda>ok.
       if \<not> ok then stop Exit_failure else modify (upd Suc))"

text \<open>
  \<open>safe_malloc\<close> ends the process when \<open>malloc\<close> refuses the size; otherwise it returns
  zeroed memory of that size.
\<close>

definition safe_malloc :: "('s \<Rightarrow> libc) \<Rightarrow> u64 \<Rightarrow> ('s, unit) cmd" where
  "safe_malloc lc size' =
     bnd (gets (\<lambda>s. malloc_ok (lc s) size')) (\<lambda>ok. if ok then ret () else stop Exit_failure)"

text \<open>\<open>calloc\<close> refuses a product that does not fit; \<open>realloc\<close> is asked for the new size.\<close>

definition safe_calloc :: "('s \<Rightarrow> libc) \<Rightarrow> u64 \<Rightarrow> u64 \<Rightarrow> ('s, unit) cmd" where
  "safe_calloc lc nmemb size' =
     bnd (gets (\<lambda>s. unat nmemb * unat size' < 2 ^ 64 \<and> malloc_ok (lc s) (nmemb * size')))
       (\<lambda>ok. if ok then ret () else stop Exit_failure)"

definition safe_realloc :: "('s \<Rightarrow> libc) \<Rightarrow> u64 \<Rightarrow> ('s, unit) cmd" where
  "safe_realloc lc size' =
     bnd (gets (\<lambda>s. malloc_ok (lc s) size')) (\<lambda>ok. if ok then ret () else stop Exit_failure)"

text \<open>
  \<open>safe_pthread_create\<close>: \<open>start\<close> records the new thread in the state. The thread id is a
  parameter passed by value, so the caller's variable keeps its old value; \<open>pthread_detach\<close>
  is the second call that can fail.
\<close>

definition safe_pthread_create :: "('s \<Rightarrow> libc) \<Rightarrow> ('s \<Rightarrow> 's) \<Rightarrow> bool \<Rightarrow> ('s, unit) cmd" where
  "safe_pthread_create lc start doDetach =
     bnd (gets (\<lambda>s. thread_ok (lc s))) (\<lambda>ok.
       if \<not> ok then stop Exit_failure
       else sq (modify start)
         (if doDetach
          then bnd (gets (\<lambda>s. thread_ok (lc s))) (\<lambda>ok. if \<not> ok then stop Exit_failure else ret ())
          else ret ()))"

lemma pthread_create_run:
  "thread_ok (lc s) \<Longrightarrow> thread_ok (lc (start s)) \<Longrightarrow> safe_pthread_create lc start d s = (Inr (), start s)"
  by (simp add: safe_pthread_create_def bnd_run sq_def)

lemma mutex_lock_run [simp]:
  "mutex_ok (lc s) \<Longrightarrow> \<not> mtx s \<Longrightarrow> safe_pthread_mutex_lock lc mtx upd s = (Inr (), upd (\<lambda>_. True) s)"
  by (simp add: safe_pthread_mutex_lock_def bnd_run)

lemma mutex_lock_held [simp]:
  "mutex_ok (lc s) \<Longrightarrow> mtx s \<Longrightarrow> safe_pthread_mutex_lock lc mtx upd s = (Inl Blocked, s)"
  by (simp add: safe_pthread_mutex_lock_def bnd_run)

lemma mutex_unlock_run [simp]:
  "mutex_ok (lc s) \<Longrightarrow> safe_pthread_mutex_unlock lc upd s = (Inr (), upd (\<lambda>_. False) s)"
  by (simp add: safe_pthread_mutex_unlock_def bnd_run)

lemma cond_wait_run [simp]:
  "cond_ok (lc s) \<Longrightarrow> safe_pthread_cond_wait lc upd s = (Inl Blocked, upd (\<lambda>_. False) s)"
  by (simp add: safe_pthread_cond_wait_def bnd_run sq_def)

lemma cond_signal_run [simp]:
  "cond_ok (lc s) \<Longrightarrow> safe_pthread_cond_signal lc upd s = (Inr (), upd Suc s)"
  by (simp add: safe_pthread_cond_signal_def bnd_run)

lemma cond_broadcast_run [simp]:
  "cond_ok (lc s) \<Longrightarrow> safe_pthread_cond_broadcast lc upd s = (Inr (), upd Suc s)"
  by (simp add: safe_pthread_cond_broadcast_def bnd_run)

lemma safe_malloc_run [simp]:
  "malloc_ok (lc s) n \<Longrightarrow> safe_malloc lc n s = (Inr (), s)"
  by (simp add: safe_malloc_def bnd_run)

lemma safe_malloc_fails [simp]:
  "\<not> malloc_ok (lc s) n \<Longrightarrow> safe_malloc lc n s = (Inl Exit_failure, s)"
  by (simp add: safe_malloc_def bnd_run)

section \<open>Sockets\<close>

text \<open>
  One end of a stream socket. \<open>inp\<close> is what will arrive, in the segments in which it
  becomes available (a \<open>read\<close> or \<open>recv\<close> returns at most what the first segment still
  holds), with the read errors in between; after the last one the peer has either closed
  (\<open>peer_closed\<close>, an end of file) or sends nothing more. \<open>wrs\<close> says how the next
  writes fare: \<open>None\<close> fails, \<open>Some k\<close> takes at most \<open>k\<close> bytes, and the writes
  after the last entry take everything. \<open>outp\<close> is what has been sent, one list per
  write. \<open>junk\<close> is the indeterminate content of a variable that was not written.
\<close>

datatype rd_event = Data "char list" | Read_error

record sock =
  inp :: "rd_event list"
  peer_closed :: bool
  wrs :: "nat option list"
  outp :: "char list list"
  junk :: "char list"
  slibc :: libc

definition sys_read :: "nat \<Rightarrow> (sock, char list option) cmd" where
  "sys_read n = (\<lambda>s.
     case inp s of
       [] \<Rightarrow> if peer_closed s then (Inr (Some []), s) else (Inl Blocked, s)
     | Read_error # es \<Rightarrow> (Inr None, s\<lparr>inp := es\<rparr>)
     | Data bs # es \<Rightarrow>
         (Inr (Some (take n bs)),
          s\<lparr>inp := (if drop n bs = [] then es else Data (drop n bs) # es)\<rparr>))"

definition sys_write :: "char list \<Rightarrow> (sock, nat option) cmd" where
  "sys_write bs = (\<lambda>s.
     case wrs s of
       [] \<Rightarrow> (Inr (Some (length bs)), s\<lparr>outp := outp s @ [bs]\<rparr>)
     | None # ws \<Rightarrow> (Inr None, s\<lparr>wrs := ws\<rparr>)
     | Some k # ws \<Rightarrow>
         (Inr (Some (min k (length bs))), s\<lparr>wrs := ws, outp := outp s @ [take k bs]\<rparr>))"

text \<open>
  \<open>readn\<close>: the value returned (\<open>-1\<close> for an error before anything was read) and the
  bytes stored at \<open>ptr\<close>. Every round that goes on has read at least one byte.
\<close>

function readn_loop :: "nat \<Rightarrow> nat \<Rightarrow> char list \<Rightarrow> (sock, int \<times> char list) cmd" where
  "readn_loop n nleft got s =
     (if nleft = 0 then (Inr (int n, got), s)
      else case sys_read nleft s of
             (Inl e, t) \<Rightarrow> (Inl e, t)
           | (Inr None, t) \<Rightarrow> (Inr (if nleft = n then -1 else int (n - nleft), got), t)
           | (Inr (Some bs), t) \<Rightarrow>
               (if bs = [] then (Inr (int (n - nleft), got), t)
                else readn_loop n (nleft - length bs) (got @ bs) t))"
  by pat_completeness auto
termination
  by (relation "measure (\<lambda>(n, nleft, got, s). nleft)") auto

declare readn_loop.simps [simp del]

definition readn :: "nat \<Rightarrow> (sock, int \<times> char list) cmd" where
  "readn n = readn_loop n n []"

function writen_loop :: "nat \<Rightarrow> char list \<Rightarrow> (sock, int) cmd" where
  "writen_loop n rest s =
     (if rest = [] then (Inr (int n), s)
      else case sys_write rest s of
             (Inl e, t) \<Rightarrow> (Inl e, t)
           | (Inr None, t) \<Rightarrow> (Inr (if length rest = n then -1 else int (n - length rest)), t)
           | (Inr (Some k), t) \<Rightarrow>
               (if k = 0 then (Inr (int (n - length rest)), t)
                else writen_loop n (drop k rest) t))"
  by pat_completeness auto
termination
  by (relation "measure (\<lambda>(n, rest, s). length rest)") auto

declare writen_loop.simps [simp del]

definition writen :: "char list \<Rightarrow> (sock, int) cmd" where
  "writen bs = writen_loop (length bs) bs"

text \<open>The bytes of a list of segments with no error among them.\<close>

fun arriving :: "rd_event list \<Rightarrow> char list" where
  "arriving [] = []"
| "arriving (Data bs # es) = bs @ arriving es"
| "arriving (Read_error # es) = []"

definition clean_input :: "rd_event list \<Rightarrow> bool" where
  "clean_input es \<longleftrightarrow> Read_error \<notin> set es \<and> Data [] \<notin> set es"

lemma clean_input_simps [simp]:
  "clean_input []"
  "clean_input (Data bs # es) \<longleftrightarrow> bs \<noteq> [] \<and> clean_input es"
  "\<not> clean_input (Read_error # es)"
  by (auto simp: clean_input_def)

text \<open>
  However the stream is cut into segments, \<open>readn\<close> returns the first \<open>n\<close> bytes that
  arrive and leaves the rest.
\<close>

lemma readn_loop_segments:
  assumes "clean_input (inp s)" and "nleft \<le> length (arriving (inp s))" and "nleft \<le> n"
  shows "\<exists>es. readn_loop n nleft got s = (Inr (int n, got @ take nleft (arriving (inp s))), s\<lparr>inp := es\<rparr>)
    \<and> clean_input es \<and> arriving es = drop nleft (arriving (inp s))"
  using assms
proof (induction n nleft got s rule: readn_loop.induct)
  case (1 n nleft got s)
  show ?case
  proof (cases "nleft = 0")
    case True
    then show ?thesis
      using "1.prems" by (intro exI [of _ "inp s"]) (simp add: readn_loop.simps)
  next
    case False
    with "1.prems" obtain bs es where inp: "inp s = Data bs # es" and bs: "bs \<noteq> []"
      by (cases "inp s" rule: arriving.cases) auto
    define es' where "es' = (if drop nleft bs = [] then es else Data (drop nleft bs) # es)"
    let ?t = "s\<lparr>inp := es'\<rparr>"
    have read: "sys_read nleft s = (Inr (Some (take nleft bs)), ?t)"
      by (simp add: sys_read_def inp es'_def)
    have arr: "arriving (inp ?t) = drop (length (take nleft bs)) (arriving (inp s))"
      by (auto simp: es'_def inp min_def)
    have "\<exists>fs. readn_loop n (nleft - length (take nleft bs)) (got @ take nleft bs) ?t =
        (Inr (int n, (got @ take nleft bs) @ take (nleft - length (take nleft bs)) (arriving (inp ?t))), ?t\<lparr>inp := fs\<rparr>)
      \<and> clean_input fs \<and> arriving fs = drop (nleft - length (take nleft bs)) (arriving (inp ?t))"
    proof (rule "1.IH" [OF False read [symmetric]])
      show "Inr (Some (take nleft bs)) = Inr (Some (take nleft bs))" "Some (take nleft bs) = Some (take nleft bs)"
        by (rule refl)+
      show "take nleft bs \<noteq> []" using False bs by simp
      show "clean_input (inp ?t)" using "1.prems"(1) by (auto simp: inp es'_def)
      show "nleft - length (take nleft bs) \<le> length (arriving (inp ?t))"
        using "1.prems"(2) arr by simp
      show "nleft - length (take nleft bs) \<le> n" using "1.prems"(3) by simp
    qed
    then obtain fs where fs: "readn_loop n (nleft - length (take nleft bs)) (got @ take nleft bs) ?t =
        (Inr (int n, (got @ take nleft bs) @ take (nleft - length (take nleft bs)) (arriving (inp ?t))), ?t\<lparr>inp := fs\<rparr>)"
      "clean_input fs" "arriving fs = drop (nleft - length (take nleft bs)) (arriving (inp ?t))"
      by blast
    have bytes: "take nleft bs @ take (nleft - length (take nleft bs)) (arriving (inp ?t)) = take nleft (arriving (inp s))"
      using arr by (simp add: inp min_def)
    have rest: "drop (nleft - length (take nleft bs)) (arriving (inp ?t)) = drop nleft (arriving (inp s))"
      using arr by (simp add: min_def)
    have "take nleft bs \<noteq> []" using False bs by simp
    with False read fs(1) bytes have
      "readn_loop n nleft got s = (Inr (int n, got @ take nleft (arriving (inp s))), ?t\<lparr>inp := fs\<rparr>)"
      by (subst readn_loop.simps) simp
    then show ?thesis using fs(2,3) rest by (intro exI [of _ fs]) simp
  qed
qed

lemma readn_segments:
  assumes "clean_input (inp s)" and "n \<le> length (arriving (inp s))"
  shows "\<exists>es. readn n s = (Inr (int n, take n (arriving (inp s))), s\<lparr>inp := es\<rparr>)
    \<and> clean_input es \<and> arriving es = drop n (arriving (inp s))"
  using readn_loop_segments [of s n n "[]"] assms by (simp add: readn_def)

lemma readn_whole:
  assumes "inp s = Data bs # es" and "length bs = n" and "bs \<noteq> []"
  shows "readn n s = (Inr (int n, bs), s\<lparr>inp := es\<rparr>)"
  using assms by (cases bs) (auto simp: readn_def readn_loop.simps sys_read_def)

lemma readn_0 [simp]: "readn 0 s = (Inr (0, []), s)"
  by (simp add: readn_def readn_loop.simps)

text \<open>When writes fail at no point, \<open>writen\<close> sends all it was given.\<close>

lemma writen_all:
  assumes "wrs s = []"
  shows "writen bs s = (Inr (int (length bs)), if bs = [] then s else s\<lparr>outp := outp s @ [bs]\<rparr>)"
  using assms by (simp add: writen_def writen_loop.simps [of _ bs] writen_loop.simps [of _ "[]"] sys_write_def)

lemma writen_loop_partial:
  assumes "\<forall>w \<in> set (wrs s). \<exists>k. w = Some (Suc k)" and "length rest \<le> n"
  shows "\<exists>cs ws. writen_loop n rest s = (Inr (int n), s\<lparr>wrs := ws, outp := outp s @ cs\<rparr>) \<and> concat cs = rest \<and> [] \<notin> set cs"
  using assms
proof (induction n rest s rule: writen_loop.induct)
  case (1 n rest s)
  show ?case
  proof (cases "rest = []")
    case True
    then show ?thesis
      by (intro exI [of _ "[]"] exI [of _ "wrs s"]) (simp add: writen_loop.simps)
  next
    case rest: False
    show ?thesis
    proof (cases "wrs s")
      case Nil
      with rest show ?thesis
        by (intro exI [of _ "[rest]"] exI [of _ "[]"])
          (simp add: writen_loop.simps [of _ rest] writen_loop.simps [of _ "[]"] sys_write_def)
    next
      case (Cons w ws)
      with "1.prems"(1) obtain k where w: "w = Some (Suc k)" by auto
      define j where "j = min (Suc k) (length rest)"
      let ?t = "s\<lparr>wrs := ws, outp := outp s @ [take (Suc k) rest]\<rparr>"
      have j: "0 < j" "j \<le> length rest" using rest by (auto simp: j_def)
      have wr: "sys_write rest s = (Inr (Some j), ?t)"
        by (simp add: sys_write_def Cons w j_def)
      have "\<exists>cs vs. writen_loop n (drop j rest) ?t =
          (Inr (int n), ?t\<lparr>wrs := vs, outp := outp ?t @ cs\<rparr>) \<and> concat cs = drop j rest \<and> [] \<notin> set cs"
      proof (rule "1.IH" [OF rest wr [symmetric]])
        show "Inr (Some j) = Inr (Some j)" "Some j = Some j" by (rule refl)+
        show "j \<noteq> 0" using j by simp
        show "\<forall>w \<in> set (wrs ?t). \<exists>k. w = Some (Suc k)" using "1.prems"(1) Cons by simp
        show "length (drop j rest) \<le> n" using "1.prems"(2) by simp
      qed
      then obtain cs vs where IH: "writen_loop n (drop j rest) ?t =
          (Inr (int n), ?t\<lparr>wrs := vs, outp := outp ?t @ cs\<rparr>)" "concat cs = drop j rest" "[] \<notin> set cs"
        by blast
      have "writen_loop n rest s = (Inr (int n), s\<lparr>wrs := vs, outp := outp s @ (take (Suc k) rest # cs)\<rparr>)"
        using rest wr j IH(1) by (subst writen_loop.simps) simp
      moreover have "concat (take (Suc k) rest # cs) = rest" "[] \<notin> set (take (Suc k) rest # cs)"
        using IH(2,3) rest by (auto simp: j_def min_def)
      ultimately show ?thesis by blast
    qed
  qed
qed

lemma writen_partial:
  assumes "\<forall>w \<in> set (wrs s). \<exists>k. w = Some (Suc k)"
  shows "\<exists>cs ws. writen bs s = (Inr (int (length bs)), s\<lparr>wrs := ws, outp := outp s @ cs\<rparr>) \<and> concat cs = bs \<and> [] \<notin> set cs"
  using writen_loop_partial [OF assms, of bs "length bs"] by (simp add: writen_def)

text \<open>A message that arrives in pieces, with something else behind it.\<close>

lemma readn_loop_pieces:
  assumes "inp s = map Data cs @ es" and "[] \<notin> set cs" and "length (concat cs) \<le> n"
  shows "readn_loop n (length (concat cs)) got s = (Inr (int n, got @ concat cs), s\<lparr>inp := es\<rparr>)"
  using assms
proof (induction cs arbitrary: s got)
  case Nil
  then show ?case by (auto simp: readn_loop.simps)
next
  case (Cons c cs)
  let ?t = "s\<lparr>inp := map Data cs @ es\<rparr>"
  have "sys_read (length (concat (c # cs))) s = (Inr (Some c), ?t)"
    using Cons.prems(1) by (simp add: sys_read_def)
  moreover have "readn_loop n (length (concat cs)) (got @ c) ?t = (Inr (int n, (got @ c) @ concat cs), ?t\<lparr>inp := es\<rparr>)"
    by (rule Cons.IH) (use Cons.prems in auto)
  moreover have "c \<noteq> []" using Cons.prems(2) by auto
  ultimately show ?case by (subst readn_loop.simps) simp
qed

lemma readn_pieces:
  assumes "inp s = map Data cs @ es" and "[] \<notin> set cs"
  shows "readn (length (concat cs)) s = (Inr (int (length (concat cs)), concat cs), s\<lparr>inp := es\<rparr>)"
  using readn_loop_pieces [OF assms order_refl, of "[]"] by (simp add: readn_def)

end
