(* ===== verification/Log.thy ===== *)
theory Log
  imports Utils
begin

text \<open>
  \<^verbatim>\<open>src/log.c\<close>: the log file, shared by all threads under \<open>lockLogFile\<close>. An entry is kept
  as the format string and its arguments, before \<open>vfprintf\<close> formats them.
\<close>

datatype log_arg = LS string | LN u64

record log_state =
  logFile :: bool
  entries :: "(string \<times> log_arg list) list"
  lockLogFile :: bool
  llibc :: libc

text \<open>\<open>fopen_w\<close> says whether the path can be opened for writing.\<close>

definition initLogfile :: "(string \<Rightarrow> bool) \<Rightarrow> string option \<Rightarrow> (log_state, i32) cmd" where
  "initLogfile fopen_w path =
     (case path of
        None \<Rightarrow> ret (-1)
      | Some p \<Rightarrow>
          if \<not> fopen_w p then sq (modify (\<lambda>l. l\<lparr>logFile := False\<rparr>)) (ret (-1))
          else sq (modify (\<lambda>l. l\<lparr>logFile := True, entries := []\<rparr>)) (ret 0))"

text \<open>
  \<open>_log\<close>: when \<open>vfprintf\<close> fails the function returns without releasing the lock.
\<close>

definition log_msg :: "string \<Rightarrow> log_arg list \<Rightarrow> (log_state, unit) cmd" where
  "log_msg format arg_list =
     sq (safe_pthread_mutex_lock llibc lockLogFile lockLogFile_update)
     (bnd (gets (\<lambda>l. fprintf_ok (llibc l))) (\<lambda>ok.
        if \<not> ok then ret ()
        else sq (modify (\<lambda>l. l\<lparr>entries := entries l @ [(format, arg_list)]\<rparr>))
             (safe_pthread_mutex_unlock llibc lockLogFile_update)))"

definition closeLog :: "(log_state, i32) cmd" where
  "closeLog =
     bnd (gets (\<lambda>l. fclose_ok (llibc l))) (\<lambda>ok.
       if \<not> ok then ret (-1) else sq (modify (\<lambda>l. l\<lparr>logFile := False\<rparr>)) (ret 0))"

text \<open>A log on which \<open>_log\<close> returns: nobody holds the lock and no call fails.\<close>

definition log_wf :: "log_state \<Rightarrow> bool" where
  "log_wf l \<longleftrightarrow> \<not> lockLogFile l \<and> libc_ok (llibc l)"

lemma log_msg_run:
  assumes "log_wf l"
  shows "log_msg f as l = (Inr (), l\<lparr>entries := entries l @ [(f, as)]\<rparr>)"
  using assms by (simp add: log_msg_def log_wf_def bnd_run sq_def)

lemma log_wf_entries [simp]: "log_wf (l\<lparr>entries := es\<rparr>) = log_wf l"
  by (simp add: log_wf_def)

lemma log_msg_fails:
  assumes "\<not> lockLogFile l" and "mutex_ok (llibc l)" and "\<not> fprintf_ok (llibc l)"
  shows "log_msg f as l = (Inr (), l\<lparr>lockLogFile := True\<rparr>)"
  using assms by (simp add: log_msg_def bnd_run sq_def)

lemma log_msg_held:
  assumes "lockLogFile l" and "mutex_ok (llibc l)"
  shows "log_msg f as l = (Inl Blocked, l)"
  using assms by (simp add: log_msg_def bnd_run sq_def)

end
