(* ===== verification/Parser.thy ===== *)
theory Parser
  imports Log
begin

text \<open>
  \<^verbatim>\<open>src/parser.c\<close>: the configuration file. The file is the list of its characters still to
  be read; the parts of \<open>fscanf\<close> and \<open>fgets\<close> the code uses are written out first.
\<close>

section \<open>The configuration\<close>

datatype cache_policy_t = FIFO | LRU

record config_t =
  Nslaves :: u32
  max_memory :: u64
  max_files :: u32
  socket_path :: string
  log_path :: string
  policy :: cache_policy_t

text \<open>The global \<open>configFile\<close> starts zeroed; 0 is the code of \<open>FIFO\<close>.\<close>

definition configFile_init :: config_t where
  "configFile_init = \<lparr>Nslaves = 0, max_memory = 0, max_files = 0, socket_path = [],
     log_path = [], policy = FIFO\<rparr>"

section \<open>Reading from a stream\<close>

text \<open>\<open>fgets(buf, n, fp)\<close> reads at most \<open>n - 1\<close> characters, the last one a newline if it met one.\<close>

fun fgets_chars :: "nat \<Rightarrow> string \<Rightarrow> string \<times> string" where
  "fgets_chars 0 txt = ([], txt)"
| "fgets_chars (Suc n) [] = ([], [])"
| "fgets_chars (Suc n) (c # cs) =
     (if c = newline then ([c], cs)
      else case fgets_chars n cs of (got, rest) \<Rightarrow> (c # got, rest))"

definition fgets :: "nat \<Rightarrow> string \<Rightarrow> (string \<times> string) option" where
  "fgets n txt = (if txt = [] then None else Some (fgets_chars (n - 1) txt))"

definition isspace :: "char \<Rightarrow> bool" where
  "isspace c \<longleftrightarrow> c \<in> {CHR 0x20, CHR 0x09, CHR 0x0A, CHR 0x0B, CHR 0x0C, CHR 0x0D}"

definition skip_space :: "string \<Rightarrow> string" where
  "skip_space = dropWhile isspace"

definition isdigit :: "char \<Rightarrow> bool" where
  "isdigit c \<longleftrightarrow> 48 \<le> (of_char c :: nat) \<and> (of_char c :: nat) \<le> 57"

definition digits_val :: "string \<Rightarrow> nat" where
  "digits_val ds = foldl (\<lambda>n c. 10 * n + (of_char c - 48)) 0 ds"

text \<open>
  What \<open>fscanf\<close> did: it met the end of the file (its result is \<open>EOF\<close>), the input did
  not match (its result is 0), or it assigned a value (its result is 1). The characters
  that are left follow.
\<close>

datatype 'a scanned = Scan_eof | Scan_none string | Scan_value 'a string

text \<open>\<open>"%5c"\<close>: the next five characters, or as many as there are.\<close>

definition fscanf_5c :: "string \<Rightarrow> string scanned" where
  "fscanf_5c txt = (if txt = [] then Scan_eof else Scan_value (take 5 txt) (drop 5 txt))"

text \<open>
  \<open>"%lu"\<close> and a newline: white space, an optional sign, digits converted as
  \<open>strtoul\<close> does (too large a number gives the largest one, a minus sign negates modulo
  $2^{64}$), then all white space. \<open>"%u"\<close> keeps the low 32 bits of the same number.
\<close>

definition strtoul_val :: "bool \<Rightarrow> string \<Rightarrow> u64" where
  "strtoul_val neg ds =
     (if digits_val ds < 2 ^ 64 then (if neg then - of_nat (digits_val ds) else of_nat (digits_val ds))
      else - 1)"

definition fscanf_lu :: "string \<Rightarrow> u64 scanned" where
  "fscanf_lu txt =
     (let r = skip_space txt in
      if r = [] then Scan_eof
      else let neg = (hd r = CHR 0x2D);
               r' = (if hd r \<in> {CHR 0x2B, CHR 0x2D} then tl r else r);
               ds = takeWhile isdigit r' in
           if ds = [] then Scan_none r'
           else Scan_value (strtoul_val neg ds) (skip_space (dropWhile isdigit r')))"

section \<open>get_config\<close>

abbreviation MAXPATH :: nat where "MAXPATH \<equiv> 24"
abbreviation MAXCONFS :: nat where "MAXCONFS \<equiv> 6"

text \<open>
  The macro \<open>scan\<close> ends \<open>get_config\<close> with 0 at the end of the file, with -1 when the
  read failed (\<open>rderr\<close>: the stream ends in an error); a number that does not match leaves
  the variable as it was. \<open>k\<close> counts the rounds of the loop that are left.
\<close>

definition scan_end :: "bool \<Rightarrow> i32" where
  "scan_end rderr = (if rderr then -1 else 0)"

fun get_config_loop :: "bool \<Rightarrow> nat \<Rightarrow> config_t \<Rightarrow> string \<Rightarrow> i32 \<times> config_t" where
  "get_config_loop rderr 0 cfg txt = (0, cfg)"
| "get_config_loop rderr (Suc k) cfg txt =
     (case fscanf_5c txt of
        Scan_eof \<Rightarrow> (scan_end rderr, cfg)
      | Scan_none r \<Rightarrow> get_config_loop rderr k cfg r
      | Scan_value flag r \<Rightarrow>
        if strncmp (cstr flag) ''[LPT]'' 5 = 0 then
          (case fgets MAXPATH r of
             None \<Rightarrow> (-1, cfg)
           | Some (path, r') \<Rightarrow> get_config_loop rderr k (cfg\<lparr>log_path := cstr path\<rparr>) r')
        else if strncmp (cstr flag) ''[SPT]'' 5 = 0 then
          (case fgets MAXPATH r of
             None \<Rightarrow> (-1, cfg)
           | Some (path, r') \<Rightarrow> get_config_loop rderr k (cfg\<lparr>socket_path := cstr path\<rparr>) r')
        else if strncmp (cstr flag) ''[NWK]'' 5 = 0 then
          (case fscanf_lu r of
             Scan_eof \<Rightarrow> (scan_end rderr, cfg)
           | Scan_none r' \<Rightarrow> get_config_loop rderr k cfg r'
           | Scan_value n r' \<Rightarrow> get_config_loop rderr k (cfg\<lparr>Nslaves := ucast n\<rparr>) r')
        else if strncmp (cstr flag) ''[MFL]'' 5 = 0 then
          (case fscanf_lu r of
             Scan_eof \<Rightarrow> (scan_end rderr, cfg)
           | Scan_none r' \<Rightarrow> get_config_loop rderr k cfg r'
           | Scan_value n r' \<Rightarrow> get_config_loop rderr k (cfg\<lparr>max_files := ucast n\<rparr>) r')
        else if strncmp (cstr flag) ''[MMB]'' 5 = 0 then
          (case fscanf_lu r of
             Scan_eof \<Rightarrow> (scan_end rderr, cfg)
           | Scan_none r' \<Rightarrow>
               get_config_loop rderr k (cfg\<lparr>max_memory := max_memory cfg * 1000000\<rparr>) r'
           | Scan_value n r' \<Rightarrow>
               get_config_loop rderr k (cfg\<lparr>max_memory := n * 1000000\<rparr>) r')
        else if strncmp (cstr flag) ''[PCY]'' 5 = 0 then
          (case fgets MAXPATH r of
             None \<Rightarrow> (-1, cfg)
           | Some (str_policy, r') \<Rightarrow>
               if strncmp (cstr str_policy) ''FIFO'' 4 = 0
               then get_config_loop rderr k (cfg\<lparr>policy := FIFO\<rparr>) r'
               else get_config_loop rderr k (cfg\<lparr>policy := LRU\<rparr>) r')
        else get_config_loop rderr k cfg r)"

text \<open>
  The loop runs for \<open>i = 0, \<dots>, MAXCONFS\<close>, seven rounds. \<open>fopen_r\<close> gives the
  content of the file and whether reading it ends in an error.
\<close>

definition get_config ::
  "(string \<Rightarrow> (string \<times> bool) option) \<Rightarrow> string \<Rightarrow> config_t \<Rightarrow> i32 \<times> config_t" where
  "get_config fopen_r path cfg =
     (case fopen_r path of
        None \<Rightarrow> (-1, cfg)
      | Some (content, rderr) \<Rightarrow> get_config_loop rderr (Suc MAXCONFS) cfg content)"

text \<open>\<open>printConfigFile\<close>: the format and the arguments of its \<open>printf\<close>; the policy prints as its code.\<close>

definition policy_code :: "cache_policy_t \<Rightarrow> u64" where
  "policy_code pol = (case pol of FIFO \<Rightarrow> 0 | LRU \<Rightarrow> 1)"

definition printConfigFile :: "config_t \<Rightarrow> string \<times> log_arg list" where
  "printConfigFile cfg =
     (line ''Max files %u'' @ line '' Max memory %lu '' @ line '' Nslaves %u'' @ line '' socket path %s'' @
        line '' log path %s'' @ line '' policy %d '',
      [LN (ucast (max_files cfg)), LN (max_memory cfg), LN (ucast (Nslaves cfg)), LS (socket_path cfg),
       LS (log_path cfg), LN (policy_code (policy cfg))])"

end
