(* ===== verification/Memory.thy ===== *)
theory Memory
  imports Parser
begin

text \<open>
  \<^verbatim>\<open>src/memory.c\<close> and \<^verbatim>\<open>headers/memory.h\<close>: the file cache, a singly used linked list of files
  on the heap with the counters and the two locks of \<open>serverMetadata\<close>. Each function is
  written with its locks, its pointer writes and its early returns in the order of the
  code; what the operations do to the list of files is stated in \<open>Memory_Inv\<close>,
  \<open>Memory_Ops\<close> and \<open>Cache\<close>.
\<close>

section \<open>Files and metadata\<close>

text \<open>
  \<open>buffer\<close> is the content of the memory stream that \<open>open_memstream\<close> keeps up to date
  in \<open>buffer\<close> and \<open>usedMemory\<close>; \<open>fopened\<close> says that \<open>file\<close> is not null.
\<close>

record FileMemory =
  fopened :: bool
  buffer :: "char list"
  usedMemory :: u64
  filename :: string
  isOpen :: i32
  lockFile :: bool
  fnext :: "addr option"
  fprev :: "addr option"

text \<open>
  The global \<open>serverMetadata\<close>, the heap of files (\<open>fresh\<close> is the next address
  \<open>malloc\<close> returns; freed addresses are not used again), the thread's \<open>errno\<close>,
  the log and the standard output.
\<close>

record mem_state =
  nCurrentMemoryUsed :: u64
  MaxMemory :: u64
  nCurrentFile :: u32
  MaxFiles :: u32
  memory :: "addr option"
  memoryLock :: bool
  metadataLock :: bool
  alg_trigger :: i32
  MaxRecvFile :: u32
  MaxUsedMemory :: u32
  heap :: "addr \<rightharpoonup> FileMemory"
  fresh :: addr
  errno :: i32
  logst :: log_state
  stdout :: "(string \<times> log_arg list) list"
  mlibc :: libc

type_synonym 'a mcmd = "(mem_state, 'a) cmd"

abbreviation lock_metadata :: "unit mcmd" where
  "lock_metadata \<equiv> safe_pthread_mutex_lock mlibc metadataLock metadataLock_update"

abbreviation unlock_metadata :: "unit mcmd" where
  "unlock_metadata \<equiv> safe_pthread_mutex_unlock mlibc metadataLock_update"

abbreviation lock_memory :: "unit mcmd" where
  "lock_memory \<equiv> safe_pthread_mutex_lock mlibc memoryLock memoryLock_update"

abbreviation unlock_memory :: "unit mcmd" where
  "unlock_memory \<equiv> safe_pthread_mutex_unlock mlibc memoryLock_update"

definition lock_metadata_and_memory :: "unit mcmd" where
  "lock_metadata_and_memory = sq lock_metadata lock_memory"

definition unlock_metadata_and_memory :: "unit mcmd" where
  "unlock_metadata_and_memory = sq unlock_metadata unlock_memory"

abbreviation mlog :: "string \<Rightarrow> log_arg list \<Rightarrow> unit mcmd" where
  "mlog format args \<equiv> zoom logst logst_update (log_msg format args)"

abbreviation set_errno :: "i32 \<Rightarrow> unit mcmd" where
  "set_errno e \<equiv> modify (errno_update (\<lambda>_. e))"

text \<open>Reading and writing through a file pointer.\<close>

definition deref :: "addr option \<Rightarrow> FileMemory mcmd" where
  "deref p =
     (case p of
        None \<Rightarrow> stop Null_deref
      | Some a \<Rightarrow> bnd (gets heap) (\<lambda>h.
          case h a of None \<Rightarrow> stop Use_after_free | Some f \<Rightarrow> ret f))"

definition fput :: "addr option \<Rightarrow> (FileMemory \<Rightarrow> FileMemory) \<Rightarrow> unit mcmd" where
  "fput p u = bnd (deref p) (\<lambda>f. modify (heap_update (\<lambda>h. h(the p \<mapsto> u f))))"

definition lock_file :: "addr option \<Rightarrow> unit mcmd" where
  "lock_file p =
     bnd (deref p) (\<lambda>f. bnd (gets mlibc) (\<lambda>c.
       if \<not> mutex_ok c then stop Exit_failure
       else if lockFile f then stop Blocked
       else fput p (lockFile_update (\<lambda>_. True))))"

definition unlock_file :: "addr option \<Rightarrow> unit mcmd" where
  "unlock_file p =
     bnd (gets mlibc) (\<lambda>c.
       if \<not> mutex_ok c then stop Exit_failure
       else fput p (lockFile_update (\<lambda>_. False)))"

section \<open>Setting up\<close>

definition initMemory :: "config_t \<Rightarrow> unit mcmd" where
  "initMemory conf =
     sq (modify (\<lambda>s. s\<lparr>MaxFiles := max_files conf, MaxMemory := max_memory conf, alg_trigger := 0,
          nCurrentFile := 0, nCurrentMemoryUsed := 0, MaxRecvFile := 0, MaxUsedMemory := 0\<rparr>))
     (bnd (gets mlibc) (\<lambda>c.
       if \<not> mutex_ok c
       then sq (mlog (line ''Error initializing mutex on main memory'') []) (stop Exit_failure)
       else modify (\<lambda>s. s\<lparr>memoryLock := False, metadataLock := False, memory := None\<rparr>)))"

definition get_actual_files :: "u32 mcmd" where
  "get_actual_files =
     sq lock_metadata
     (bnd (gets nCurrentFile) (\<lambda>toReturn.
      sq unlock_metadata (ret toReturn)))"

abbreviation MAXNAME :: nat where "MAXNAME \<equiv> 256"
abbreviation sizeof_FileMemory :: u64 where "sizeof_FileMemory \<equiv> 344"

definition create_file :: "string \<Rightarrow> addr option mcmd" where
  "create_file name =
     (if length name \<ge> MAXNAME then ret None
      else sq (safe_malloc mlibc sizeof_FileMemory)
       (bnd (gets mlibc) (\<lambda>c.
         if \<not> memstream_ok c
         then sq (mlog (line ''Closing server because open_memstream has failed.'') []) (stop Exit_failure)
         else if \<not> mutex_ok c
         then sq (mlog (line ''pthread mutex init has failed during file creation.'') []) (stop Exit_failure)
         else bnd (gets fresh) (\<lambda>a.
           sq (modify (\<lambda>s. s\<lparr>fresh := Suc a, heap := (heap s)(a \<mapsto>
                \<lparr>fopened = True, buffer = [], usedMemory = 0, filename = name, isOpen = 0,
                 lockFile = False, fnext = None, fprev = None\<rparr>)\<rparr>))
           (ret (Some a))))))"

definition set_file_open :: "addr option \<Rightarrow> unit mcmd" where
  "set_file_open file =
     (if file = None then stop Exit_failure
      else sq (lock_file file) (sq (fput file (isOpen_update (\<lambda>_. 1))) (unlock_file file)))"

definition set_file_close :: "addr option \<Rightarrow> unit mcmd" where
  "set_file_close file =
     (if file = None then stop Exit_failure
      else sq (lock_file file) (sq (fput file (isOpen_update (\<lambda>_. 0))) (unlock_file file)))"

section \<open>Searching\<close>

definition equalNames :: "string \<Rightarrow> string \<Rightarrow> i32" where
  "equalNames str1 str2 =
     (let cond = strncmp str1 str2 (length str1); cond2 = strncmp str2 str1 (length str2)
      in if cond = 0 \<and> cond2 = 0 then 1 else 0)"

text \<open>The loop of \<open>inMem\<close> with the rounds that are left: it follows at most \<open>files\<close> links.\<close>

fun inMem_loop :: "nat \<Rightarrow> addr option \<Rightarrow> string \<Rightarrow> i32 mcmd" where
  "inMem_loop 0 cursor name = sq unlock_memory (ret 0)"
| "inMem_loop (Suc k) cursor name =
     bnd (deref cursor) (\<lambda>f.
       if equalNames (filename f) name = 1 then sq unlock_memory (ret 1)
       else if fnext f = None then sq unlock_memory (ret 0)
       else inMem_loop k (fnext f) name)"

definition inMem :: "string option \<Rightarrow> i32 mcmd" where
  "inMem fname =
     (case fname of
        None \<Rightarrow> ret (-1)
      | Some name \<Rightarrow>
          sq lock_memory
          (bnd (gets memory) (\<lambda>cursor.
           bnd (gets nCurrentFile) (\<lambda>files.
             inMem_loop (nat (sint (files :: i32))) cursor name))))"

text \<open>
  A walk along \<open>next\<close> links ends after at most as many steps as addresses have ever been
  handed out, or it has met a node twice and goes round for ever; \<open>fresh\<close> plus one is
  therefore the fuel of the walks, and running out of it is the outcome \<open>Diverges\<close>.
\<close>

fun policy_seek :: "nat \<Rightarrow> addr option \<Rightarrow> addr option \<Rightarrow> string \<Rightarrow> (addr option \<times> addr option) mcmd" where
  "policy_seek 0 prev cursor name = stop Diverges"
| "policy_seek (Suc k) prev cursor name =
     (if cursor = None then ret (prev, cursor)
      else bnd (deref cursor) (\<lambda>f.
        if equalNames (filename f) name = 1 then ret (prev, cursor)
        else policy_seek k cursor (fnext f) name))"

definition policy_routine :: "cache_policy_t \<Rightarrow> addr option \<Rightarrow> unit mcmd" where
  "policy_routine pol file =
     (if file = None then ret ()
      else case pol of
        FIFO \<Rightarrow> ret ()
      | LRU \<Rightarrow>
          sq lock_memory
          (bnd (gets memory) (\<lambda>head. bnd (deref head) (\<lambda>hf. bnd (deref file) (\<lambda>ff.
            if equalNames (filename hf) (filename ff) \<noteq> 0 then unlock_memory
            else bnd (gets fresh) (\<lambda>fuel.
              bnd (policy_seek (Suc fuel) None head (filename ff)) (\<lambda>(prev, cursor).
              bnd (deref cursor) (\<lambda>cf.
              sq (fput prev (fnext_update (\<lambda>_. fnext cf)))
              (bnd (gets memory) (\<lambda>m.
              sq (fput cursor (fnext_update (\<lambda>_. m)))
              (sq (modify (memory_update (\<lambda>_. cursor)))
              unlock_memory)))))))))))"

fun find_loop :: "nat \<Rightarrow> addr option \<Rightarrow> string \<Rightarrow> cache_policy_t \<Rightarrow> addr option mcmd" where
  "find_loop 0 cursor name pol = stop Diverges"
| "find_loop (Suc k) cursor name pol =
     (if cursor = None then sq unlock_memory (ret None)
      else bnd (deref cursor) (\<lambda>f.
        if equalNames (filename f) name = 1
        then sq unlock_memory (sq (policy_routine pol cursor) (ret cursor))
        else find_loop k (fnext f) name pol))"

definition find_file :: "string option \<Rightarrow> cache_policy_t \<Rightarrow> addr option mcmd" where
  "find_file fname pol =
     sq (set_errno 0)
     (case fname of
        None \<Rightarrow> ret None
      | Some name \<Rightarrow>
          bnd (inMem (Some name)) (\<lambda>r.
            if r = 0 then
              sq (set_errno ENOENT)
              (sq (mlog (line ''Searched a file that doesn't exist %s'') [LS name])
              (ret None))
            else
              sq lock_memory
              (bnd (gets memory) (\<lambda>cursor. bnd (gets fresh) (\<lambda>fuel.
                find_loop (Suc fuel) cursor name pol)))))"

section \<open>Adding and removing\<close>

definition add_file_to_memory :: "addr option \<Rightarrow> addr option mcmd" where
  "add_file_to_memory file =
     sq (set_errno 0)
     (if file = None then ret None
      else bnd (deref file) (\<lambda>f.
        bnd (inMem (Some (filename f))) (\<lambda>r.
        if r \<noteq> 0 then sq (set_errno EEXIST) (ret None)
        else bnd get_actual_files (\<lambda>n.
          if n = 0 then
            sq lock_metadata_and_memory
            (sq (modify (memory_update (\<lambda>_. file)))
            (sq (modify (nCurrentFile_update (\<lambda>n. n + 1)))
            (sq unlock_metadata_and_memory
            (ret file))))
          else
            sq lock_metadata_and_memory
            (bnd (gets memory) (\<lambda>tmp.
            sq (modify (memory_update (\<lambda>_. file)))
            (sq (fput file (fprev_update (\<lambda>_. None)))
            (sq (fput file (fnext_update (\<lambda>_. tmp)))
            (sq (fput tmp (fprev_update (\<lambda>_. file)))
            (sq (modify (nCurrentFile_update (\<lambda>n. n + 1)))
            (sq unlock_metadata_and_memory
            (ret file))))))))))))"

text \<open>\<open>free\<close> ends the life of the object: its address has no entry any more.\<close>

definition free_file :: "addr option \<Rightarrow> unit mcmd" where
  "free_file file =
     (if file = None then ret ()
      else sq (lock_file file)
       (bnd (deref file) (\<lambda>f.
        sq (if fopened f then fput file (fopened_update (\<lambda>_. False)) else ret ())
        (sq (unlock_file file)
        (modify (heap_update (\<lambda>h. h(the file := None))))))))"

fun tail_seek :: "nat \<Rightarrow> addr option \<Rightarrow> addr option \<Rightarrow> (addr option \<times> addr option) mcmd" where
  "tail_seek 0 prev cursor = stop Diverges"
| "tail_seek (Suc k) prev cursor =
     (if cursor = None then ret (prev, cursor)
      else bnd (deref cursor) (\<lambda>f.
        if fnext f = None then ret (prev, cursor)
        else tail_seek k cursor (fnext f)))"

definition pop_from_tail :: "addr option mcmd" where
  "pop_from_tail =
     sq lock_metadata_and_memory
     (bnd (gets memory) (\<lambda>cursor.
       if cursor = None then sq unlock_metadata_and_memory (ret None)
       else bnd (deref cursor) (\<lambda>f.
         if fnext f = None then
           sq (modify (memory_update (\<lambda>_. None)))
           (sq (modify (nCurrentFile_update (\<lambda>n. n - 1)))
           (sq (modify (nCurrentMemoryUsed_update (\<lambda>m. m - usedMemory f)))
           (sq unlock_metadata_and_memory
           (ret cursor))))
         else bnd (gets fresh) (\<lambda>fuel.
           bnd (tail_seek (Suc fuel) cursor cursor) (\<lambda>(prev, last).
           bnd (deref last) (\<lambda>l.
           if fnext l \<noteq> None then sq unlock_metadata_and_memory (ret None)
           else
             sq (if prev \<noteq> None then fput prev (fnext_update (\<lambda>_. None)) else ret ())
             (sq (fput last (fprev_update (\<lambda>_. None)))
             (sq (fput last (fnext_update (\<lambda>_. None)))
             (sq (modify (nCurrentFile_update (\<lambda>n. n - 1)))
             (bnd (deref last) (\<lambda>l'.
             sq (modify (nCurrentMemoryUsed_update (\<lambda>m. m - usedMemory l')))
             (sq unlock_metadata_and_memory
             (ret last)))))))))))))"

definition pop_from_head :: "addr option mcmd" where
  "pop_from_head =
     sq lock_metadata_and_memory
     (bnd (gets memory) (\<lambda>to_ret.
       if to_ret = None then sq unlock_metadata_and_memory (ret None)
       else bnd (deref to_ret) (\<lambda>f.
         if fnext f = None then
           sq (modify (memory_update (\<lambda>_. None)))
           (sq (modify (nCurrentFile_update (\<lambda>n. n - 1)))
           (sq (modify (nCurrentMemoryUsed_update (\<lambda>m. m - usedMemory f)))
           (sq (fput to_ret (fnext_update (\<lambda>_. None)))
           (sq (fput to_ret (fprev_update (\<lambda>_. None)))
           (sq unlock_metadata_and_memory
           (ret to_ret))))))
         else
           sq (modify (memory_update (\<lambda>_. fnext f)))
           (sq (fput to_ret (fnext_update (\<lambda>_. None)))
           (sq (fput to_ret (fprev_update (\<lambda>_. None)))
           (sq (modify (nCurrentFile_update (\<lambda>n. n - 1)))
           (sq (modify (nCurrentMemoryUsed_update (\<lambda>m. m - usedMemory f)))
           (sq unlock_metadata_and_memory
           (ret to_ret)))))))))"

definition remove_generic_file :: "addr option \<Rightarrow> i32 mcmd" where
  "remove_generic_file file =
     bnd (deref file) (\<lambda>f.
     bnd (inMem (Some (filename f))) (\<lambda>r.
       if r = 0 then ret (-1)
       else
         bnd (find_file (Some (filename f)) LRU) (\<lambda>_.
         bnd pop_from_head (\<lambda>lol.
         sq (free_file lol)
         (ret 1)))))"

section \<open>The replacement algorithm\<close>

definition alg_counter :: "unit mcmd" where
  "alg_counter =
     sq lock_metadata
     (sq (modify (alg_trigger_update (\<lambda>n. n + 1)))
     (sq unlock_metadata
     (mlog (line ''Called cache alg. !'') [])))"

text \<open>
  Both parameters are \<open>int\<close>: in the comparison with the counters they are converted to
  the counters' unsigned types.
\<close>

definition is_action_legal :: "i32 \<Rightarrow> i32 \<Rightarrow> i32 mcmd" where
  "is_action_legal number_of_files amount_of_memory =
     sq lock_metadata
     (bnd (gets (\<lambda>s. (nCurrentMemoryUsed s, nCurrentFile s, MaxMemory s, MaxFiles s)))
       (\<lambda>(current_memory, current_files, maxMem, maxF).
       if current_memory + widen amount_of_memory > maxMem \<or>
          current_files + number_of_files > maxF
       then sq unlock_metadata (ret 0)
       else
         sq (modify (\<lambda>s. if ucast (MaxUsedMemory s) < nCurrentMemoryUsed s + widen amount_of_memory
              then s\<lparr>MaxUsedMemory := ucast (nCurrentMemoryUsed s + widen amount_of_memory)\<rparr> else s))
         (sq (modify (\<lambda>s. if MaxRecvFile s < nCurrentFile s + number_of_files
              then s\<lparr>MaxRecvFile := nCurrentFile s + number_of_files\<rparr> else s))
         (sq unlock_metadata
         (ret 1)))))"

fun evict_files :: "nat \<Rightarrow> unit mcmd" where
  "evict_files 0 = ret ()"
| "evict_files (Suc k) =
     bnd pop_from_tail (\<lambda>to_remove.
     sq (free_file to_remove)
     (evict_files k))"

text \<open>
  The loop that makes room. A round that goes on has taken a file off the list, so the
  number of files plus one is enough fuel; the file count read by \<open>get_actual_files\<close> is
  only read when there is still memory to remove.
\<close>

fun evict_memory :: "nat \<Rightarrow> u64 \<Rightarrow> u64 \<Rightarrow> u64 \<Rightarrow> u64 \<Rightarrow> unit mcmd" where
  "evict_memory 0 to_free current_memory amount maxMem = stop Diverges"
| "evict_memory (Suc k) to_free current_memory amount maxMem =
     (if \<not> 0 < sint to_free then ret ()
      else bnd get_actual_files (\<lambda>n.
        if n = 0 then ret ()
        else
          bnd pop_from_tail (\<lambda>to_remove.
          bnd (deref to_remove) (\<lambda>f.
          sq (free_file to_remove)
          (evict_memory k (current_memory - usedMemory f + amount - maxMem)
             (current_memory - usedMemory f) amount maxMem)))))"

text \<open>
  The casts of the code: \<open>(int)serverMetadata.MaxMemory\<close> keeps the low 32 bits and is
  widened again, and the excess itself is cut to 32 bits before it becomes an \<open>ssize_t\<close>.
\<close>

definition files_to_remove :: "u32 \<Rightarrow> i32 \<Rightarrow> u32 \<Rightarrow> i32" where
  "files_to_remove current number_of_files maxF = current + number_of_files - maxF"

definition memory_to_remove :: "u64 \<Rightarrow> u64 \<Rightarrow> u64 \<Rightarrow> u64" where
  "memory_to_remove current amount maxMem = widen (narrow (current + amount - widen (narrow maxMem)))"

text \<open>
  The two rounds of the algorithm: files are evicted to make room for more files, then to
  make room for more bytes. The first says whether it counted the call (\<open>triggered\<close>).
\<close>

definition cache_file_round :: "i32 \<Rightarrow> i32 \<Rightarrow> u32 \<Rightarrow> bool mcmd" where
  "cache_file_round to_remove number_of_files maxF =
     (if 0 < sint to_remove \<and> maxF > number_of_files
      then sq alg_counter (sq (evict_files (nat (sint to_remove))) (ret True))
      else ret False)"

definition cache_memory_round :: "bool \<Rightarrow> u64 \<Rightarrow> u64 \<Rightarrow> unit mcmd" where
  "cache_memory_round triggered amount_of_memory maxMem =
     sq lock_metadata
     (bnd (gets (\<lambda>s. (nCurrentMemoryUsed s, memory_to_remove (nCurrentMemoryUsed s) amount_of_memory (MaxMemory s))))
       (\<lambda>(current_memory, m).
      sq unlock_metadata
      (if 0 < sint m \<and> maxMem > amount_of_memory then
         sq (if triggered then ret () else alg_counter)
         (bnd (gets nCurrentFile) (\<lambda>count.
           evict_memory (Suc (unat count)) m current_memory amount_of_memory maxMem))
       else ret ())))"

definition cache_algorithm :: "i32 \<Rightarrow> u64 \<Rightarrow> unit mcmd" where
  "cache_algorithm number_of_files amount_of_memory =
     sq (set_errno 0)
     (bnd (is_action_legal number_of_files (narrow amount_of_memory)) (\<lambda>legal.
      if legal \<noteq> 0 then set_errno ECANCELED
      else
        sq lock_metadata
        (bnd (gets (\<lambda>s. (files_to_remove (nCurrentFile s) number_of_files (MaxFiles s), MaxFiles s, MaxMemory s)))
          (\<lambda>(n, maxF, maxMem).
        sq unlock_metadata
        (if number_of_files > maxF \<or> amount_of_memory > maxMem then set_errno E2BIG
         else
           bnd (cache_file_round n number_of_files maxF) (\<lambda>triggered.
           cache_memory_round triggered amount_of_memory maxMem))))))"

section \<open>Writing, reading and cleaning up\<close>

text \<open>
  The loop of \<open>write_to_file\<close>: \<open>wrote\<close> is an \<open>int\<close> and is widened for the comparison
  with \<open>size\<close>. \<open>fwrite\<close> on a memory stream appends all bytes, or none when it fails. The
  variable has $2^{32}$ values, so a loop that runs longer than that goes round for ever.
\<close>

function write_loop :: "nat \<Rightarrow> addr option \<Rightarrow> char list \<Rightarrow> u64 \<Rightarrow> i32 \<Rightarrow> i32 mcmd" where
  "write_loop fuel file buf sz wrote =
     (if fuel = 0 then stop Diverges
      else if \<not> widen wrote < sz then ret wrote
      else if length buf < unat sz then stop Out_of_bounds
      else bnd (gets mlibc) (\<lambda>c.
        if \<not> fwrite_ok c then write_loop (fuel - 1) file buf sz wrote
        else sq (fput file (\<lambda>f. f\<lparr>buffer := buffer f @ take (unat sz) buf,
                       usedMemory := of_nat (length (buffer f) + unat sz)\<rparr>))
             (write_loop (fuel - 1) file buf sz (wrote + narrow sz))))"
  by pat_completeness auto
termination
  by (relation "measure (\<lambda>(fuel, _, _, _, _). fuel)") auto

declare write_loop.simps [simp del]

definition write_to_file :: "addr option \<Rightarrow> char list \<Rightarrow> u64 \<Rightarrow> u64 mcmd" where
  "write_to_file file buf sz =
     sq lock_metadata
     (sq (lock_file file)
     (bnd (write_loop (2 ^ 32 + 1) file buf sz 0) (\<lambda>wrote.
     sq (modify (nCurrentMemoryUsed_update (\<lambda>m. m + widen wrote)))
     (sq (unlock_file file)
     (sq unlock_metadata
     (ret (widen wrote)))))))"

definition get_head :: "addr option mcmd" where
  "get_head = sq lock_memory (bnd (gets memory) (\<lambda>head. sq unlock_memory (ret head)))"

definition next_file :: "addr option \<Rightarrow> addr option mcmd" where
  "next_file start =
     (if start = None then ret None else bnd (deref start) (\<lambda>f. ret (fnext f)))"

fun clean_cache_loop :: "nat \<Rightarrow> unit mcmd" where
  "clean_cache_loop 0 = stop Diverges"
| "clean_cache_loop (Suc k) =
     bnd get_actual_files (\<lambda>n.
       if n = 0 then ret ()
       else bnd pop_from_head (\<lambda>tmp. sq (free_file tmp) (clean_cache_loop k)))"

definition clean_cache :: "unit mcmd" where
  "clean_cache = bnd (gets nCurrentFile) (\<lambda>n. clean_cache_loop (Suc (unat n)))"

text \<open>
  \<open>printFiles\<close> reads the file count before every round; nothing between the rounds
  changes it, so the rounds left are the count at the start. The standard output is kept
  like the log, as format strings with their arguments.
\<close>

definition printf :: "string \<Rightarrow> log_arg list \<Rightarrow> unit mcmd" where
  "printf format args = modify (stdout_update (\<lambda>out. out @ [(format, args)]))"

definition puts :: "string \<Rightarrow> unit mcmd" where
  "puts str = printf (line ''%s'') [LS str]"

fun printFiles_loop :: "nat \<Rightarrow> addr option \<Rightarrow> unit mcmd" where
  "printFiles_loop 0 head = bnd get_actual_files (\<lambda>_. ret ())"
| "printFiles_loop (Suc k) head =
     bnd get_actual_files (\<lambda>_.
     bnd (deref head) (\<lambda>f.
     sq (puts (filename f))
     (bnd (next_file head) (\<lambda>nx. printFiles_loop k nx))))"

definition printFiles :: "unit mcmd" where
  "printFiles =
     sq (puts ''===========FILE_PRINT============'')
     (bnd get_head (\<lambda>head.
      bnd (gets nCurrentFile) (\<lambda>n.
      sq (printFiles_loop (unat n) head)
      (puts ''===============================''))))"

text \<open>\<open>print_server_general\<close> reads the counters without a lock; \<open>pid\<close> is \<open>getpid()\<close>.\<close>

definition server_general_format :: string where
  "server_general_format = line ''==='' @ line ''Current files in memory %u / %u '' @
     line ''Current occupied memory %zu / %zu'' @ line ''Current occupied memory (MB) %zu / %zu'' @
     line ''Server pid %d'' @ line ''Cache alg. has been triggered for %d times'' @
     line ''Server Max Recv Files %u'' @ line ''Server Max Used Memory %u'' @ line [] @ ''===''"

definition print_server_general :: "i32 \<Rightarrow> unit mcmd" where
  "print_server_general pid =
     bnd (gets id) (\<lambda>s.
       printf server_general_format
         [LN (ucast (nCurrentFile s)), LN (ucast (MaxFiles s)),
          LN (nCurrentMemoryUsed s), LN (MaxMemory s),
          LN (nCurrentMemoryUsed s div 1000000), LN (MaxMemory s div 1000000),
          LN (widen pid), LN (widen (alg_trigger s)),
          LN (ucast (MaxRecvFile s)), LN (ucast (MaxUsedMemory s))])"

end
