(* ===== verification/Memory_Inv.thy ===== *)
theory Memory_Inv
  imports Memory
begin

text \<open>
  The well-formed states of the file cache and the read-only operations on them. In a
  well-formed state the \<open>next\<close> links from \<open>memory\<close> run through distinct live files
  with distinct names, the counters agree with the list, and no lock is held.
\<close>

section \<open>Stepping through the primitives\<close>

lemma memoryLock_release [simp]: "\<not> memoryLock s \<Longrightarrow> s\<lparr>memoryLock := False\<rparr> = s"
  by (cases s) simp

lemma metadataLock_release [simp]: "\<not> metadataLock s \<Longrightarrow> s\<lparr>metadataLock := False\<rparr> = s"
  by (cases s) simp

lemma lockFile_release [simp]: "\<not> lockFile f \<Longrightarrow> f\<lparr>lockFile := False\<rparr> = f"
  by (cases f) simp

lemma heap_update_id: "s\<lparr>heap := heap s\<rparr> = s"
  by simp

lemma heap_same [simp]: "heap s a = Some f \<Longrightarrow> s\<lparr>heap := (heap s)(a \<mapsto> f)\<rparr> = s"
  by (simp add: fun_upd_idem)

lemma deref_Some [simp]: "heap s a = Some f \<Longrightarrow> deref (Some a) s = (Inr f, s)"
  by (simp add: deref_def bnd_run)

lemma deref_null [simp]: "deref None s = (Inl Null_deref, s)"
  by (simp add: deref_def)

lemma deref_freed [simp]: "heap s a = None \<Longrightarrow> deref (Some a) s = (Inl Use_after_free, s)"
  by (simp add: deref_def bnd_run)

lemma fput_Some [simp]:
  "heap s a = Some f \<Longrightarrow> fput (Some a) u s = (Inr (), s\<lparr>heap := (heap s)(a \<mapsto> u f)\<rparr>)"
  by (simp add: fput_def bnd_run)

lemma fput_freed [simp]: "heap s a = None \<Longrightarrow> fput (Some a) u s = (Inl Use_after_free, s)"
  by (simp add: fput_def bnd_run)

lemma lock_file_run [simp]:
  "heap s a = Some f \<Longrightarrow> mutex_ok (mlibc s) \<Longrightarrow> \<not> lockFile f \<Longrightarrow>
    lock_file (Some a) s = (Inr (), s\<lparr>heap := (heap s)(a \<mapsto> f\<lparr>lockFile := True\<rparr>)\<rparr>)"
  by (simp add: lock_file_def bnd_run)

lemma unlock_file_run [simp]:
  "heap s a = Some f \<Longrightarrow> mutex_ok (mlibc s) \<Longrightarrow>
    unlock_file (Some a) s = (Inr (), s\<lparr>heap := (heap s)(a \<mapsto> f\<lparr>lockFile := False\<rparr>)\<rparr>)"
  by (simp add: unlock_file_def bnd_run)

lemma lock_both_run [simp]:
  "mutex_ok (mlibc s) \<Longrightarrow> \<not> metadataLock s \<Longrightarrow> \<not> memoryLock s \<Longrightarrow>
    lock_metadata_and_memory s = (Inr (), s\<lparr>metadataLock := True, memoryLock := True\<rparr>)"
  by (simp add: lock_metadata_and_memory_def sq_def bnd_run)

lemma unlock_both_run [simp]:
  "mutex_ok (mlibc s) \<Longrightarrow>
    unlock_metadata_and_memory s = (Inr (), s\<lparr>metadataLock := False, memoryLock := False\<rparr>)"
  by (simp add: unlock_metadata_and_memory_def sq_def bnd_run)

lemma mlog_run [simp]:
  "log_wf (logst s) \<Longrightarrow> mlog f as s =
    (Inr (), s\<lparr>logst := (logst s)\<lparr>entries := entries (logst s) @ [(f, as)]\<rparr>\<rparr>)"
  by (simp add: zoom_run log_msg_run)

section \<open>File names\<close>

lemma equalNames_eq:
  assumes "nul_free s" and "nul_free t"
  shows "equalNames s t = (if s = t then 1 else 0)"
proof -
  have "take (length s) t = s \<and> take (length t) s = t \<longleftrightarrow> s = t"
    by (metis le_cases take_all)
  with assms show ?thesis by (simp add: equalNames_def strncmp_length)
qed

section \<open>Well-formed states\<close>

definition file_wf :: "FileMemory \<Rightarrow> bool" where
  "file_wf f \<longleftrightarrow> nul_free (filename f) \<and> length (filename f) < MAXNAME \<and> fopened f \<and>
     \<not> lockFile f \<and> usedMemory f = of_nat (length (buffer f))"

abbreviation file_of :: "mem_state \<Rightarrow> addr \<Rightarrow> FileMemory" where
  "file_of s a \<equiv> the (heap s a)"

definition names :: "mem_state \<Rightarrow> addr list \<Rightarrow> string list" where
  "names s as = map (\<lambda>a. filename (file_of s a)) as"

definition bytes_used :: "mem_state \<Rightarrow> addr list \<Rightarrow> nat" where
  "bytes_used s as = sum_list (map (\<lambda>a. length (buffer (file_of s a))) as)"

definition unlocked :: "mem_state \<Rightarrow> bool" where
  "unlocked s \<longleftrightarrow> \<not> memoryLock s \<and> \<not> metadataLock s \<and> libc_ok (mlibc s) \<and> log_wf (logst s)"

definition mem_wf :: "mem_state \<Rightarrow> addr list \<Rightarrow> bool" where
  "mem_wf s as \<longleftrightarrow>
     unlocked s \<and>
     chain fnext (heap s) (memory s) as \<and>
     (\<forall>a \<ge> fresh s. heap s a = None) \<and>
     (\<forall>a \<in> set as. file_wf (file_of s a)) \<and>
     distinct (names s as) \<and>
     length as < 2 ^ 31 \<and>
     nCurrentFile s = of_nat (length as) \<and>
     nCurrentMemoryUsed s = of_nat (bytes_used s as)"

lemma unlockedD:
  assumes "unlocked s"
  shows "\<not> memoryLock s" and "\<not> metadataLock s" and "libc_ok (mlibc s)" and "log_wf (logst s)"
    and "mutex_ok (mlibc s)"
  using assms by (simp_all add: unlocked_def)

lemma mem_wf_unlocked: "mem_wf s as \<Longrightarrow> unlocked s"
  by (simp add: mem_wf_def)

lemma mem_wfD:
  assumes "mem_wf s as"
  shows "chain fnext (heap s) (memory s) as" and "\<And>a. fresh s \<le> a \<Longrightarrow> heap s a = None"
    and "\<And>a. a \<in> set as \<Longrightarrow> file_wf (file_of s a)" and "distinct (names s as)"
    and "length as < 2 ^ 31" and "nCurrentFile s = of_nat (length as)"
    and "nCurrentMemoryUsed s = of_nat (bytes_used s as)"
  using assms by (auto simp: mem_wf_def)

lemma mem_wf_live:
  assumes "mem_wf s as" and "a \<in> set as"
  shows "heap s a = Some (file_of s a)" and "a < fresh s" and "file_wf (file_of s a)"
proof -
  from assms have ex: "\<exists>f. heap s a = Some f"
    using seg_alloc [of fnext "heap s"] by (auto simp: mem_wf_def)
  then show "heap s a = Some (file_of s a)" by auto
  show "a < fresh s"
  proof (rule ccontr)
    assume "\<not> a < fresh s"
    with assms(1) have "heap s a = None" by (auto simp: mem_wf_def)
    with ex show False by simp
  qed
  show "file_wf (file_of s a)" using assms by (simp add: mem_wf_def)
qed

lemma mem_wf_distinct: "mem_wf s as \<Longrightarrow> distinct as"
  by (auto simp: mem_wf_def dest: chain_distinct)

lemma mem_wf_length: "mem_wf s as \<Longrightarrow> length as \<le> fresh s"
proof -
  assume wf: "mem_wf s as"
  then have "set as \<subseteq> {..<fresh s}" by (auto dest: mem_wf_live)
  then have "card (set as) \<le> fresh s" using card_mono [of "{..<fresh s}"] by fastforce
  with wf show ?thesis by (simp add: distinct_card mem_wf_distinct)
qed

lemma mem_wf_unique: "mem_wf s as \<Longrightarrow> mem_wf s bs \<Longrightarrow> as = bs"
  by (auto simp: mem_wf_def dest: chain_unique)

lemma names_inj:
  assumes "mem_wf s as" and "a \<in> set as" and "b \<in> set as"
    and "filename (file_of s a) = filename (file_of s b)"
  shows "a = b"
proof -
  have "inj_on (\<lambda>a. filename (file_of s a)) (set as)"
    using mem_wfD(4) [OF assms(1)] by (simp add: names_def distinct_map)
  with assms show ?thesis by (auto dest: inj_onD)
qed

text \<open>Fields the list does not depend on.\<close>

lemma names_frame: "heap s' = heap s \<Longrightarrow> names s' as = names s as"
  by (simp add: names_def)

lemma bytes_used_frame: "heap s' = heap s \<Longrightarrow> bytes_used s' as = bytes_used s as"
  by (simp add: bytes_used_def)

lemma mem_wf_frame [simp]:
  "mem_wf (s\<lparr>errno := e\<rparr>) as = mem_wf s as"
  "mem_wf (s\<lparr>alg_trigger := t\<rparr>) as = mem_wf s as"
  "mem_wf (s\<lparr>MaxRecvFile := r\<rparr>) as = mem_wf s as"
  "mem_wf (s\<lparr>MaxUsedMemory := u\<rparr>) as = mem_wf s as"
  "mem_wf (s\<lparr>stdout := out\<rparr>) as = mem_wf s as"
  "mem_wf (s\<lparr>logst := (logst s)\<lparr>entries := es\<rparr>\<rparr>) as = mem_wf s as"
  by (simp_all add: mem_wf_def unlocked_def names_def bytes_used_def)

lemma names_upd [simp]:
  "names (s\<lparr>memoryLock := b\<rparr>) as = names s as"
  "names (s\<lparr>metadataLock := b\<rparr>) as = names s as"
  "names (s\<lparr>memory := p\<rparr>) as = names s as"
  "names (s\<lparr>errno := e\<rparr>) as = names s as"
  "names (s\<lparr>nCurrentFile := n\<rparr>) as = names s as"
  "names (s\<lparr>nCurrentMemoryUsed := m\<rparr>) as = names s as"
  "names (s\<lparr>logst := l\<rparr>) as = names s as"
  "names (s\<lparr>fresh := k\<rparr>) as = names s as"
  by (simp_all add: names_def)

lemma bytes_used_upd [simp]:
  "bytes_used (s\<lparr>memoryLock := b\<rparr>) as = bytes_used s as"
  "bytes_used (s\<lparr>metadataLock := b\<rparr>) as = bytes_used s as"
  "bytes_used (s\<lparr>memory := p\<rparr>) as = bytes_used s as"
  "bytes_used (s\<lparr>errno := e\<rparr>) as = bytes_used s as"
  "bytes_used (s\<lparr>nCurrentFile := n\<rparr>) as = bytes_used s as"
  "bytes_used (s\<lparr>nCurrentMemoryUsed := m\<rparr>) as = bytes_used s as"
  "bytes_used (s\<lparr>logst := l\<rparr>) as = bytes_used s as"
  "bytes_used (s\<lparr>fresh := k\<rparr>) as = bytes_used s as"
  by (simp_all add: bytes_used_def)

section \<open>Reading the state\<close>

lemma get_actual_files_run:
  "unlocked s \<Longrightarrow> get_actual_files s = (Inr (nCurrentFile s), s)"
  by (simp add: get_actual_files_def sq_def bnd_run unlockedD)

lemma get_head_run: "unlocked s \<Longrightarrow> get_head s = (Inr (memory s), s)"
  by (simp add: get_head_def sq_def bnd_run unlockedD)

lemma inMem_loop_run:
  assumes "chain fnext (heap s) p as" and "\<forall>a \<in> set as. nul_free (filename (file_of s a))"
    and "nul_free nm" and "mutex_ok (mlibc s)"
  shows "inMem_loop (length as) p nm s =
    (Inr (if nm \<in> set (names s as) then 1 else 0), s\<lparr>memoryLock := False\<rparr>)"
  using assms(1,2)
proof (induction as arbitrary: p)
  case Nil
  then show ?case using assms(4) by (simp add: sq_def bnd_run names_def)
next
  case (Cons a as)
  then obtain f where f: "p = Some a" "heap s a = Some f" "chain fnext (heap s) (fnext f) as" by auto
  have eq: "equalNames (filename f) nm = (if filename f = nm then 1 else 0)"
    using Cons.prems f assms(3) by (simp add: equalNames_eq)
  show ?case
  proof (cases "filename f = nm")
    case True
    with f eq assms(4) show ?thesis by (simp add: sq_def bnd_run names_def)
  next
    case False
    then have ne: "filename f \<noteq> nm" "nm \<noteq> filename f" by auto
    show ?thesis
    proof (cases as)
      case Nil
      with f eq ne assms(4) show ?thesis by (simp add: sq_def bnd_run names_def)
    next
      case (Cons b bs)
      with f have "fnext f = Some b" by auto
      with f eq ne Cons.IH [OF f(3)] Cons.prems show ?thesis
        by (simp add: bnd_run names_def)
    qed
  qed
qed

lemma inMem_run:
  assumes "mem_wf s as" and "nul_free nm"
  shows "inMem (Some nm) s = (Inr (if nm \<in> set (names s as) then 1 else 0), s)"
proof -
  have len: "nat (sint (of_nat (length as) :: i32)) = length as"
    using mem_wfD(5) [OF assms(1)] by (simp add: signed_of_nat signed_take_bit_int_eq_self)
  have "inMem_loop (length as) (memory s) nm (s\<lparr>memoryLock := True\<rparr>) =
    (Inr (if nm \<in> set (names s as) then 1 else 0), s\<lparr>memoryLock := True, memoryLock := False\<rparr>)"
    using inMem_loop_run [of "s\<lparr>memoryLock := True\<rparr>" "memory s" as nm] assms
    by (auto simp: mem_wf_def file_wf_def unlocked_def)
  with len unlockedD [OF mem_wf_unlocked [OF assms(1)]] show ?thesis
    by (simp add: inMem_def sq_def bnd_run mem_wfD(6) [OF assms(1)])
qed

lemma inMem_null: "inMem None s = (Inr (-1), s)"
  by (simp add: inMem_def)

text \<open>The file with a given name, as the walk of \<open>find_file\<close> meets it.\<close>

lemma find_loop_absent:
  assumes "chain fnext (heap s) p as" and "\<forall>a \<in> set as. nul_free (filename (file_of s a))"
    and "nul_free nm" and "nm \<notin> set (names s as)" and "mutex_ok (mlibc s)" and "length as < k"
  shows "find_loop k p nm pol s = (Inr None, s\<lparr>memoryLock := False\<rparr>)"
  using assms(1,2,4,6)
proof (induction as arbitrary: p k)
  case Nil
  then show ?case using assms(5) by (cases k) (auto simp: sq_def bnd_run)
next
  case (Cons a as)
  then obtain f where f: "p = Some a" "heap s a = Some f" "chain fnext (heap s) (fnext f) as" by auto
  with Cons.prems assms(3) have "equalNames (filename f) nm = 0"
    by (auto simp: equalNames_eq names_def)
  with f Cons show ?case by (cases k) (auto simp: bnd_run names_def)
qed

lemma find_loop_present:
  assumes "chain fnext (heap s) p (as @ a # bs)"
    and "\<forall>x \<in> set (as @ [a]). nul_free (filename (file_of s x))"
    and "nm = filename (file_of s a)" and "nm \<notin> set (names s as)"
    and "mutex_ok (mlibc s)" and "length as < k"
  shows "find_loop k p nm pol s =
    sq (policy_routine pol (Some a)) (ret (Some a)) (s\<lparr>memoryLock := False\<rparr>)"
  using assms(1,2,4,6)
proof (induction as arbitrary: p k)
  case Nil
  then obtain f where f: "p = Some a" "heap s a = Some f" by auto
  moreover have "equalNames (filename f) nm = 1"
    using f Nil assms(3) by (simp add: equalNames_eq)
  ultimately show ?case using Nil assms(5)
    by (cases k) (auto simp: sq_def bnd_run split: prod.splits sum.splits)
next
  case (Cons x as)
  then obtain f where f: "p = Some x" "heap s x = Some f" "chain fnext (heap s) (fnext f) (as @ a # bs)"
    by auto
  with Cons.prems assms(3) have "equalNames (filename f) nm = 0"
    by (auto simp: equalNames_eq names_def)
  with f Cons show ?case by (cases k) (auto simp: bnd_run names_def)
qed

lemma policy_seek_run:
  assumes "chain fnext (heap s) p (as @ a # bs)"
    and "\<forall>x \<in> set (as @ [a]). nul_free (filename (file_of s x))"
    and "nm = filename (file_of s a)" and "nm \<notin> set (names s as)" and "length as < k"
  shows "policy_seek k prev p nm s = (Inr (if as = [] then prev else Some (last as), Some a), s)"
  using assms(1,2,4,5)
proof (induction as arbitrary: p k prev)
  case Nil
  then obtain f where f: "p = Some a" "heap s a = Some f" by auto
  moreover have "equalNames (filename f) nm = 1"
    using f Nil assms(3) by (simp add: equalNames_eq)
  ultimately show ?case using Nil by (cases k) (auto simp: bnd_run)
next
  case (Cons x as)
  then obtain f where f: "p = Some x" "heap s x = Some f" "chain fnext (heap s) (fnext f) (as @ a # bs)"
    by auto
  with Cons.prems assms(3) have "equalNames (filename f) nm = 0"
    by (auto simp: equalNames_eq names_def)
  with f Cons show ?case by (cases k) (auto simp: bnd_run names_def)
qed

lemma tail_seek_run:
  assumes "chain fnext (heap s) p (as @ [a])" and "length as < k"
  shows "tail_seek k prev p s = (Inr (if as = [] then prev else Some (last as), Some a), s)"
  using assms
proof (induction as arbitrary: p k prev)
  case Nil
  then show ?case by (cases k) (auto simp: bnd_run)
next
  case (Cons x as)
  then obtain f where f: "p = Some x" "heap s x = Some f" "chain fnext (heap s) (fnext f) (as @ [a])"
    by auto
  then have "fnext f \<noteq> None" by (cases as) auto
  with f Cons show ?case by (cases k) (auto simp: bnd_run)
qed

text \<open>From here on the walks are used through these lemmas only.\<close>

declare inMem_loop.simps [simp del] find_loop.simps [simp del] policy_seek.simps [simp del]
  tail_seek.simps [simp del]

end
