(* ===== verification/Memory_Ops.thy ===== *)
theory Memory_Ops
  imports Memory_Inv
begin

text \<open>
  What each operation of the file cache does to a well-formed state: the outcome, the list
  of files after it, and that the state is well-formed again. The pointer writes of an
  operation keep the data of every file (\<open>same_data\<close>).
\<close>

section \<open>Data and links\<close>

definition strip :: "FileMemory \<Rightarrow> FileMemory" where
  "strip f = f\<lparr>fnext := None, fprev := None\<rparr>"

definition same_data :: "(addr \<rightharpoonup> FileMemory) \<Rightarrow> (addr \<rightharpoonup> FileMemory) \<Rightarrow> bool" where
  "same_data h h' \<longleftrightarrow> (\<forall>a. map_option strip (h' a) = map_option strip (h a))"

lemma strip_eqD:
  assumes "strip f = strip g"
  shows "filename f = filename g" and "buffer f = buffer g" and "usedMemory f = usedMemory g"
    and "isOpen f = isOpen g" and "fopened f = fopened g" and "lockFile f = lockFile g"
  using assms by (cases f; cases g; simp add: strip_def)+

lemma strip_links [simp]:
  "strip (f\<lparr>fnext := x\<rparr>) = strip f" "strip (f\<lparr>fprev := x\<rparr>) = strip f"
  by (cases f; simp add: strip_def)+

lemma same_data_refl [simp]: "same_data h h"
  by (simp add: same_data_def)

lemma same_data_trans: "same_data h h' \<Longrightarrow> same_data h' h'' \<Longrightarrow> same_data h h''"
  by (simp add: same_data_def)

lemma same_data_upd:
  "same_data h h' \<Longrightarrow> h' a = Some f \<Longrightarrow> strip g = strip f \<Longrightarrow> same_data h (h'(a \<mapsto> g))"
  unfolding same_data_def by (metis fun_upd_apply option.simps(9))

lemma same_data_None: "same_data h h' \<Longrightarrow> h a = None \<longleftrightarrow> h' a = None"
  unfolding same_data_def by (metis map_option_is_None)

lemma same_data_fields:
  assumes "same_data h h'"
  shows "filename (the (h' a)) = filename (the (h a))" and "buffer (the (h' a)) = buffer (the (h a))"
    and "isOpen (the (h' a)) = isOpen (the (h a))" and "file_wf (the (h' a)) = file_wf (the (h a))"
proof -
  have eq: "map_option strip (h' a) = map_option strip (h a)" using assms by (simp add: same_data_def)
  have "h' a = h a \<or> strip (the (h' a)) = strip (the (h a))"
    using eq by (cases "h a"; cases "h' a") simp_all
  then show "filename (the (h' a)) = filename (the (h a))" "buffer (the (h' a)) = buffer (the (h a))"
    "isOpen (the (h' a)) = isOpen (the (h a))" "file_wf (the (h' a)) = file_wf (the (h a))"
    using strip_eqD [of "the (h' a)" "the (h a)"] by (auto simp: file_wf_def)
qed

lemma names_same: "same_data (heap s) (heap s') \<Longrightarrow> names s' as = names s as"
  by (simp add: names_def same_data_fields)

lemma bytes_same: "same_data (heap s) (heap s') \<Longrightarrow> bytes_used s' as = bytes_used s as"
  by (simp add: bytes_used_def same_data_fields)

section \<open>The contents of the cache\<close>

text \<open>A cached file as the clients see it, and the cache as the list of them, newest first.\<close>

record cfile =
  cname :: string
  ccontent :: "char list"
  copen :: bool

definition abs_file :: "FileMemory \<Rightarrow> cfile" where
  "abs_file f = \<lparr>cname = filename f, ccontent = buffer f, copen = (isOpen f \<noteq> 0)\<rparr>"

lemma abs_file_sel [simp]:
  "cname (abs_file f) = filename f" "ccontent (abs_file f) = buffer f"
  "copen (abs_file f) = (isOpen f \<noteq> 0)"
  by (simp_all add: abs_file_def)

definition view :: "mem_state \<Rightarrow> addr list \<Rightarrow> cfile list" where
  "view s as = map (\<lambda>a. abs_file (file_of s a)) as"

lemma view_same: "same_data (heap s) (heap s') \<Longrightarrow> view s' as = view s as"
  by (simp add: view_def abs_file_def same_data_fields)

lemma names_view: "names s as = map cname (view s as)"
  by (simp add: names_def view_def abs_file_def)

lemma bytes_view: "bytes_used s as = sum_list (map (\<lambda>f. length (ccontent f)) (view s as))"
  by (simp add: bytes_used_def view_def abs_file_def comp_def)

section \<open>Finding a file\<close>

lemma chain_move_to_front:
  assumes "chain fnext h p (ws @ l # a # vs)" and "h l = Some fl" and "h a = Some fa"
  shows "chain fnext (h(l \<mapsto> fl\<lparr>fnext := fnext fa\<rparr>, a \<mapsto> fa\<lparr>fnext := p\<rparr>)) (Some a) (a # ws @ l # vs)"
proof -
  have d: "distinct (ws @ l # a # vs)" using assms(1) by (rule chain_distinct)
  with assms show ?thesis by (auto simp: seg_append)
qed

lemma policy_LRU_run:
  assumes wf: "mem_wf s as" and a: "a \<in> set as"
  shows "\<exists>h p. policy_routine LRU (Some a) s = (Inr (), s\<lparr>heap := h, memory := p\<rparr>) \<and>
    same_data (heap s) h \<and> mem_wf (s\<lparr>heap := h, memory := p\<rparr>) (a # remove1 a as)"
proof -
  note u = unlockedD [OF mem_wf_unlocked [OF wf]]
  obtain us vs where as: "as = us @ a # vs" and us: "a \<notin> set us"
    using a by (meson split_list_first)
  have rem: "remove1 a as = us @ vs" using us by (simp add: as remove1_append)
  obtain fa where fa: "heap s a = Some fa" using wf a mem_wf_live by blast
  have nulf: "\<And>x. x \<in> set as \<Longrightarrow> nul_free (filename (file_of s x))"
    using mem_wfD(3) [OF wf] by (auto simp: file_wf_def)
  show ?thesis
  proof (cases us rule: rev_cases)
    case Nil
    with as wf have mem: "memory s = Some a" by (auto simp: mem_wf_def)
    have "equalNames (filename fa) (filename fa) = 1" using nulf [OF a] fa by (simp add: equalNames_eq)
    with mem fa u have "policy_routine LRU (Some a) s = (Inr (), s)"
      by (simp add: policy_routine_def sq_def bnd_run)
    with wf Nil as show ?thesis by (intro exI [of _ "heap s"] exI [of _ "memory s"]) simp
  next
    case (snoc ws l)
    have ch: "chain fnext (heap s) (memory s) (ws @ l # a # vs)"
      using mem_wfD(1) [OF wf] by (simp add: as snoc)
    have l: "l \<in> set as" "l \<noteq> a" using us by (auto simp: as snoc)
    obtain fl where fl: "heap s l = Some fl" using wf l mem_wf_live by blast
    obtain b where b: "memory s = Some b" "b \<in> set us" "b \<noteq> a"
      using ch us snoc by (cases ws) auto
    obtain fb where fb: "heap s b = Some fb" using wf b mem_wf_live as by (metis Un_iff set_append)
    have nb: "filename fb \<noteq> filename fa"
      using names_inj [OF wf _ a, of b] b fb fa as by auto
    have eb: "equalNames (filename fb) (filename fa) = 0"
      using nb nulf [of b] nulf [OF a] b fb fa as by (simp add: equalNames_eq)
    have na: "filename fa \<notin> set (names s us)"
      using names_inj [OF wf _ a] us fa unfolding names_def as by fastforce
    let ?t = "s\<lparr>memoryLock := True\<rparr>"
    have "policy_seek (Suc (fresh s)) None (memory s) (filename fa) ?t =
        (Inr (if us = [] then None else Some (last us), Some a), ?t)"
    proof (rule policy_seek_run)
      show "chain fnext (heap ?t) (memory s) (us @ a # vs)" using mem_wfD(1) [OF wf] by (simp add: as)
      show "\<forall>x \<in> set (us @ [a]). nul_free (filename (file_of ?t x))" using nulf by (simp add: as)
      show "filename fa = filename (file_of ?t a)" by (simp add: fa)
      show "filename fa \<notin> set (names ?t us)" using na by simp
      show "length us < Suc (fresh s)" using mem_wf_length [OF wf] by (simp add: as)
    qed
    then have seek: "policy_seek (Suc (fresh s)) None (memory s) (filename fa) ?t = (Inr (Some l, Some a), ?t)"
      by (simp add: snoc)
    define h where "h = (heap s)(l \<mapsto> fl\<lparr>fnext := fnext fa\<rparr>, a \<mapsto> fa\<lparr>fnext := memory s\<rparr>)"
    have run: "policy_routine LRU (Some a) s = (Inr (), s\<lparr>heap := h, memory := Some a\<rparr>)"
      using seek u fa fb fl b(1) l eb
      by (simp add: policy_routine_def sq_def bnd_run h_def)
    have same: "same_data (heap s) h"
      unfolding h_def using fl fa l by (intro same_data_upd [where f = fa] same_data_upd [where f = fl]) auto
    have "chain fnext h (Some a) (a # us @ vs)"
      using chain_move_to_front [OF ch fl fa] by (simp add: h_def snoc)
    moreover have "\<forall>x \<ge> fresh s. h x = None"
      using mem_wfD(2) [OF wf] same_data_None [OF same] by blast
    ultimately have "mem_wf (s\<lparr>heap := h, memory := Some a\<rparr>) (a # us @ vs)"
      using wf same names_same [of s "s\<lparr>heap := h, memory := Some a\<rparr>"]
        bytes_same [of s "s\<lparr>heap := h, memory := Some a\<rparr>"]
      by (auto simp: mem_wf_def as unlocked_def same_data_fields names_def bytes_used_def)
    with run same show ?thesis by (simp only: rem) blast
  qed
qed

lemma policy_FIFO_run: "policy_routine FIFO (Some a) s = (Inr (), s)"
  by (simp add: policy_routine_def)

text \<open>
  The order of the list after a file was used: under \<open>LRU\<close> it moves to the front, under
  \<open>FIFO\<close> nothing moves.
\<close>

definition touched :: "cache_policy_t \<Rightarrow> addr \<Rightarrow> addr list \<Rightarrow> addr list" where
  "touched pol a as = (case pol of FIFO \<Rightarrow> as | LRU \<Rightarrow> a # remove1 a as)"

lemma set_touched [simp]: "a \<in> set as \<Longrightarrow> distinct as \<Longrightarrow> set (touched pol a as) = set as"
  by (auto simp: touched_def split: cache_policy_t.split)

lemma find_file_absent:
  assumes "mem_wf s as" and "nul_free nm" and "nm \<notin> set (names s as)"
  shows "find_file (Some nm) pol s =
    (Inr None, s\<lparr>errno := ENOENT, logst := (logst s)\<lparr>entries := entries (logst s) @
      [(line ''Searched a file that doesn't exist %s'', [LS nm])]\<rparr>\<rparr>)"
proof -
  have "inMem (Some nm) (s\<lparr>errno := 0\<rparr>) = (Inr 0, s\<lparr>errno := 0\<rparr>)"
    using inMem_run [of "s\<lparr>errno := 0\<rparr>" as nm] assms by simp
  with unlockedD [OF mem_wf_unlocked [OF assms(1)]] show ?thesis
    by (simp add: find_file_def sq_def bnd_run)
qed

lemma find_file_present:
  assumes wf: "mem_wf s as" and a: "a \<in> set as" and nm: "nm = filename (file_of s a)"
  shows "\<exists>h p. find_file (Some nm) pol s = (Inr (Some a), s\<lparr>errno := 0, heap := h, memory := p\<rparr>) \<and>
    same_data (heap s) h \<and> mem_wf (s\<lparr>errno := 0, heap := h, memory := p\<rparr>) (touched pol a as) \<and>
    (pol = FIFO \<longrightarrow> h = heap s \<and> p = memory s)"
proof -
  let ?s = "s\<lparr>errno := 0\<rparr>"
  have wf': "mem_wf ?s as" using wf by simp
  note u = unlockedD [OF mem_wf_unlocked [OF wf]]
  have nulf: "\<And>x. x \<in> set as \<Longrightarrow> nul_free (filename (file_of s x))"
    using mem_wfD(3) [OF wf] by (auto simp: file_wf_def)
  have inm: "inMem (Some nm) ?s = (Inr 1, ?s)"
    using inMem_run [OF wf', of nm] nulf [OF a] a nm by (auto simp: names_def)
  obtain us vs where as: "as = us @ a # vs" and us: "a \<notin> set us"
    using a by (meson split_list_first)
  have na: "nm \<notin> set (names ?s us)"
    using names_inj [OF wf _ a] us unfolding names_def as nm by fastforce
  have "length us < Suc (fresh s)" using mem_wf_length [OF wf] by (simp add: as)
  then have loop: "find_loop (Suc (fresh s)) (memory s) nm pol (?s\<lparr>memoryLock := True\<rparr>) =
      sq (policy_routine pol (Some a)) (ret (Some a)) ?s"
    using find_loop_present [of "?s\<lparr>memoryLock := True\<rparr>" "memory s" us a vs nm] mem_wfD(1) [OF wf] na nulf u nm
    by (simp add: as)
  have fin: "find_file (Some nm) pol s = sq (policy_routine pol (Some a)) (ret (Some a)) ?s"
    using inm loop u by (simp add: find_file_def sq_def bnd_run)
  show ?thesis
  proof (cases pol)
    case FIFO
    with fin wf' show ?thesis
      by (intro exI [of _ "heap s"] exI [of _ "memory s"])
        (simp add: policy_FIFO_run sq_def bnd_run touched_def)
  next
    case LRU
    from policy_LRU_run [OF wf' a] obtain h p where
      "policy_routine LRU (Some a) ?s = (Inr (), ?s\<lparr>heap := h, memory := p\<rparr>)" "same_data (heap s) h"
      "mem_wf (?s\<lparr>heap := h, memory := p\<rparr>) (a # remove1 a as)" by auto
    with fin LRU show ?thesis
      by (intro exI [of _ h] exI [of _ p]) (simp add: sq_def bnd_run touched_def)
  qed
qed

end
