(* ===== verification/Memory_Update.thy ===== *)
theory Memory_Update
  imports Memory_Ops "HOL-Library.Multiset"
begin

text \<open>
  The operations that change the files: opening and closing, creating and adding, taking
  files off either end, freeing, removing by name and writing.
\<close>

section \<open>Writes to one file\<close>

lemma bytes_used_file_upd:
  assumes "distinct as" and "a \<in> set as"
  shows "bytes_used (s\<lparr>heap := (heap s)(a \<mapsto> g)\<rparr>) as + length (buffer (file_of s a)) =
    bytes_used s as + length (buffer g)"
  using assms
proof (induction as)
  case Nil
  then show ?case by simp
next
  case (Cons x as)
  show ?case
  proof (cases "x = a")
    case True
    with Cons.prems have "a \<notin> set as" by simp
    then have "bytes_used (s\<lparr>heap := (heap s)(a \<mapsto> g)\<rparr>) as = bytes_used s as"
      unfolding bytes_used_def by (intro arg_cong [where f = sum_list] map_cong) auto
    with True show ?thesis by (simp add: bytes_used_def)
  next
    case False
    with Cons show ?thesis by (simp add: bytes_used_def)
  qed
qed

text \<open>
  The general write: the name and the link stay, the content may change if the byte count
  follows it.
\<close>

lemma mem_wf_file_upd:
  assumes wf: "mem_wf s as" and a: "a \<in> set as" and g: "file_wf g"
    and link: "fnext g = fnext (file_of s a)" and nm: "filename g = filename (file_of s a)"
    and used: "m + of_nat (length (buffer (file_of s a))) =
      nCurrentMemoryUsed s + of_nat (length (buffer g))"
  shows "mem_wf (s\<lparr>heap := (heap s)(a \<mapsto> g), nCurrentMemoryUsed := m\<rparr>) as"
proof -
  let ?t = "s\<lparr>heap := (heap s)(a \<mapsto> g)\<rparr>"
  have live: "heap s a = Some (file_of s a)" "a < fresh s" using mem_wf_live [OF wf a] by auto
  have "chain fnext (heap ?t) (memory s) as"
    using mem_wfD(1) [OF wf] seg_upd_same_link [of "heap s" a "file_of s a" fnext g "memory s" as None] live(1) link
    by simp
  moreover have "names ?t as = names s as"
    using nm by (auto simp: names_def)
  moreover have "m = of_nat (bytes_used ?t as)"
  proof -
    have "of_nat (bytes_used ?t as) + of_nat (length (buffer (file_of s a))) =
        (of_nat (bytes_used s as) + of_nat (length (buffer g)) :: u64)"
      using bytes_used_file_upd [OF mem_wf_distinct [OF wf] a, of s g]
      by (metis of_nat_add)
    with used mem_wfD(7) [OF wf] show ?thesis by (metis add_right_cancel)
  qed
  moreover have "\<forall>x \<ge> fresh s. heap ?t x = None" using mem_wfD(2) [OF wf] live(2) by auto
  moreover have "\<forall>x \<in> set as. file_wf (file_of ?t x)" using mem_wfD(3) [OF wf] g by auto
  ultimately show ?thesis
    using wf names_frame [of "?t\<lparr>nCurrentMemoryUsed := m\<rparr>" ?t] bytes_used_frame [of "?t\<lparr>nCurrentMemoryUsed := m\<rparr>" ?t]
    unfolding mem_wf_def by (simp add: unlocked_def)
qed

lemma mem_wf_file_upd_same:
  assumes "mem_wf s as" and "a \<in> set as" and "file_wf g" and "fnext g = fnext (file_of s a)"
    and "filename g = filename (file_of s a)" and "buffer g = buffer (file_of s a)"
  shows "mem_wf (s\<lparr>heap := (heap s)(a \<mapsto> g)\<rparr>) as"
  using mem_wf_file_upd [of s as a g "nCurrentMemoryUsed s"] assms by simp

lemma view_file_upd:
  assumes wf: "mem_wf s as" and a: "a \<in> set as" and g: "abs_file g = u (abs_file (file_of s a))"
  shows "view (s\<lparr>heap := (heap s)(a \<mapsto> g)\<rparr>) as =
    map (\<lambda>c. if cname c = filename (file_of s a) then u c else c) (view s as)"
proof -
  have "x = a" if "x \<in> set as" "filename (file_of s x) = filename (file_of s a)" for x
    using names_inj [OF wf that(1) a] that(2) by simp
  with g show ?thesis by (auto simp: view_def)
qed

text \<open>A file that is not in the list can change freely.\<close>

lemma mem_wf_other:
  assumes "mem_wf s as" and "a \<notin> set as" and "v = None \<or> a < fresh s"
  shows "mem_wf (s\<lparr>heap := (heap s)(a := v)\<rparr>) as" and "view (s\<lparr>heap := (heap s)(a := v)\<rparr>) as = view s as"
    and "names (s\<lparr>heap := (heap s)(a := v)\<rparr>) as = names s as"
    and "bytes_used (s\<lparr>heap := (heap s)(a := v)\<rparr>) as = bytes_used s as"
proof -
  let ?t = "s\<lparr>heap := (heap s)(a := v)\<rparr>"
  have same: "\<And>x. x \<in> set as \<Longrightarrow> heap ?t x = heap s x" using assms(2) by auto
  then show n: "names ?t as = names s as" and b: "bytes_used ?t as = bytes_used s as"
    and "view ?t as = view s as"
    by (auto simp: names_def bytes_used_def view_def cong: map_cong)
  have "\<forall>x \<in> set as. file_wf (file_of ?t x)" using mem_wfD(3) [OF assms(1)] same by simp
  then show "mem_wf ?t as"
    using assms n b unfolding mem_wf_def by (auto simp: unlocked_def)
qed

lemma set_file_open_run:
  assumes "heap s a = Some f" and "mutex_ok (mlibc s)" and "\<not> lockFile f"
  shows "set_file_open (Some a) s = (Inr (), s\<lparr>heap := (heap s)(a \<mapsto> f\<lparr>isOpen := 1\<rparr>)\<rparr>)"
  using assms by (cases f) (simp add: set_file_open_def sq_def bnd_run)

lemma set_file_close_run:
  assumes "heap s a = Some f" and "mutex_ok (mlibc s)" and "\<not> lockFile f"
  shows "set_file_close (Some a) s = (Inr (), s\<lparr>heap := (heap s)(a \<mapsto> f\<lparr>isOpen := 0\<rparr>)\<rparr>)"
  using assms by (cases f) (simp add: set_file_close_def sq_def bnd_run)

lemma file_wf_isOpen [simp]: "file_wf (f\<lparr>isOpen := b\<rparr>) = file_wf f"
  by (simp add: file_wf_def)

section \<open>Creating and adding\<close>

abbreviation new_file :: "string \<Rightarrow> FileMemory" where
  "new_file nm \<equiv> \<lparr>fopened = True, buffer = [], usedMemory = 0, filename = nm, isOpen = 0,
     lockFile = False, fnext = None, fprev = None\<rparr>"

lemma create_file_run:
  assumes "libc_ok (mlibc s)" and "malloc_ok (mlibc s) sizeof_FileMemory" and "length nm < MAXNAME"
  shows "create_file nm s =
    (Inr (Some (fresh s)), s\<lparr>fresh := Suc (fresh s), heap := (heap s)(fresh s \<mapsto> new_file nm)\<rparr>)"
  using assms by (simp add: create_file_def sq_def bnd_run)

lemma create_file_long: "MAXNAME \<le> length nm \<Longrightarrow> create_file nm s = (Inr None, s)"
  by (simp add: create_file_def)

lemma mem_wf_fresh:
  assumes "mem_wf s as"
  shows "mem_wf (s\<lparr>fresh := Suc (fresh s), heap := (heap s)(fresh s \<mapsto> f)\<rparr>) as"
    and "view (s\<lparr>fresh := Suc (fresh s), heap := (heap s)(fresh s \<mapsto> f)\<rparr>) as = view s as"
    and "fresh s \<notin> set as"
proof -
  show out: "fresh s \<notin> set as" using mem_wf_live(2) [OF assms] by auto
  let ?t = "s\<lparr>fresh := Suc (fresh s)\<rparr>"
  have t: "mem_wf ?t as" using assms by (auto simp: mem_wf_def unlocked_def names_def bytes_used_def)
  have "view ?t as = view s as" by (simp add: view_def)
  with mem_wf_other [OF t out, of "Some f"]
  show "mem_wf (s\<lparr>fresh := Suc (fresh s), heap := (heap s)(fresh s \<mapsto> f)\<rparr>) as"
    "view (s\<lparr>fresh := Suc (fresh s), heap := (heap s)(fresh s \<mapsto> f)\<rparr>) as = view s as"
    by simp_all
qed

lemma mem_wf_Cons:
  assumes wf: "mem_wf s as" and f: "heap s a = Some f" and g: "strip g = strip f" "fnext g = memory s"
    and fw: "file_wf f" "buffer f = []" and out: "a \<notin> set as"
    and nm: "filename f \<notin> set (names s as)" and len: "Suc (length as) < 2 ^ 31"
    and h: "same_data ((heap s)(a \<mapsto> g)) h" and hn: "\<forall>x \<in> set as. map_option fnext (h x) = map_option fnext (heap s x)"
    and ha: "map_option fnext (h a) = Some (memory s)"
  shows "mem_wf (s\<lparr>heap := h, memory := Some a, nCurrentFile := nCurrentFile s + 1\<rparr>) (a # as)"
    and "view (s\<lparr>heap := h, memory := Some a, nCurrentFile := nCurrentFile s + 1\<rparr>) (a # as) =
      abs_file f # view s as"
proof -
  let ?t = "s\<lparr>heap := h, memory := Some a, nCurrentFile := nCurrentFile s + 1\<rparr>"
  have sd: "same_data (heap s) h"
    using same_data_trans [OF same_data_upd [where h = "heap s" and h' = "heap s", OF _ f g(1)] h] by simp
  have "chain fnext h (memory s) as"
    using mem_wfD(1) [OF wf] seg_cong [of as fnext h "heap s" "memory s" None] hn by simp
  then have ch: "chain fnext h (Some a) (a # as)" using ha by auto
  have fr: "\<forall>x \<ge> fresh s. h x = None" using mem_wfD(2) [OF wf] same_data_None [OF sd] by blast
  have fws: "\<forall>x \<in> set (a # as). file_wf (file_of ?t x)"
    using mem_wfD(3) [OF wf] fw f same_data_fields(4) [OF sd] by auto
  have n: "names ?t (a # as) = filename f # names s as"
    using same_data_fields(1) [OF sd] f by (simp add: names_def)
  have b: "bytes_used ?t (a # as) = bytes_used s as"
    using same_data_fields(2) [OF sd] f fw(2) by (simp add: bytes_used_def)
  show "mem_wf ?t (a # as)"
    using wf ch fr fws n b nm len unfolding mem_wf_def by (auto simp: unlocked_def)
  show "view ?t (a # as) = abs_file f # view s as"
    using same_data_fields [OF sd] f by (simp add: view_def abs_file_def)
qed

lemma add_file_run:
  assumes wf: "mem_wf s as" and f: "heap s a = Some f" and fw: "file_wf f" "buffer f = []" "fnext f = None"
    and out: "a \<notin> set as" and nm: "filename f \<notin> set (names s as)" and len: "Suc (length as) < 2 ^ 31"
  shows "\<exists>h. add_file_to_memory (Some a) s =
      (Inr (Some a), s\<lparr>errno := 0, heap := h, memory := Some a, nCurrentFile := nCurrentFile s + 1\<rparr>) \<and>
    same_data (heap s) h \<and>
    mem_wf (s\<lparr>errno := 0, heap := h, memory := Some a, nCurrentFile := nCurrentFile s + 1\<rparr>) (a # as) \<and>
    view (s\<lparr>errno := 0, heap := h, memory := Some a, nCurrentFile := nCurrentFile s + 1\<rparr>) (a # as) =
      abs_file f # view s as"
proof -
  let ?s = "s\<lparr>errno := 0\<rparr>"
  have wf': "mem_wf ?s as" using wf by simp
  note u = unlockedD [OF mem_wf_unlocked [OF wf]]
  have inm: "inMem (Some (filename f)) ?s = (Inr 0, ?s)"
    using inMem_run [OF wf', of "filename f"] nm fw by (simp add: file_wf_def)
  have act: "get_actual_files ?s = (Inr (of_nat (length as)), ?s)"
    using get_actual_files_run [OF mem_wf_unlocked [OF wf']] mem_wfD(6) [OF wf] by simp
  have v: "view ?s as = view s as" by (simp add: view_def)
  have n0: "(of_nat (length as) :: u32) = 0 \<longleftrightarrow> as = []"
  proof -
    have "unat (of_nat (length as) :: u32) = length as" using len by (simp add: unat_of_nat)
    then show ?thesis by (simp add: unat_eq_zero [symmetric])
  qed
  show ?thesis
  proof (cases as)
    case Nil
    have mem: "memory s = None" using mem_wfD(1) [OF wf] Nil by simp
    have run: "add_file_to_memory (Some a) s =
        (Inr (Some a), ?s\<lparr>heap := heap s, memory := Some a, nCurrentFile := nCurrentFile s + 1\<rparr>)"
      using f inm act u n0 Nil by (simp add: add_file_to_memory_def sq_def bnd_run)
    have "same_data ((heap ?s)(a \<mapsto> f)) (heap s)" using f by (simp add: fun_upd_idem)
    then have "mem_wf (?s\<lparr>heap := heap s, memory := Some a, nCurrentFile := nCurrentFile ?s + 1\<rparr>) (a # as)"
      "view (?s\<lparr>heap := heap s, memory := Some a, nCurrentFile := nCurrentFile ?s + 1\<rparr>) (a # as) =
        abs_file f # view ?s as"
      using mem_wf_Cons [OF wf', of a f f "heap s"] f fw out nm len mem by simp_all
    with run v show ?thesis by (intro exI [of _ "heap s"]) simp
  next
    case (Cons b bs)
    have mem: "memory s = Some b" using mem_wfD(1) [OF wf] Cons by simp
    have ba: "b \<noteq> a" using out Cons by auto
    obtain fb where fb: "heap s b = Some fb" using mem_wf_live(1) [OF wf, of b] Cons by auto
    let ?g = "f\<lparr>fprev := None, fnext := memory s\<rparr>"
    let ?h = "(heap s)(a \<mapsto> ?g, b \<mapsto> fb\<lparr>fprev := Some a\<rparr>)"
    have run: "add_file_to_memory (Some a) s =
        (Inr (Some a), ?s\<lparr>heap := ?h, memory := Some a, nCurrentFile := nCurrentFile s + 1\<rparr>)"
      using f inm act u n0 Cons mem ba fb by (simp add: add_file_to_memory_def sq_def bnd_run)
    have g: "strip ?g = strip f" by (cases f) (simp add: strip_def)
    have sd: "same_data ((heap ?s)(a \<mapsto> ?g)) ?h"
      using fb ba by (intro same_data_upd [where f = fb and h' = "(heap s)(a \<mapsto> ?g)"]) auto
    have sd': "same_data (heap s) ?h"
      using same_data_trans [OF same_data_upd [where h = "heap s" and h' = "heap s", OF _ f g], of ?h] sd by simp
    have "mem_wf (?s\<lparr>heap := ?h, memory := Some a, nCurrentFile := nCurrentFile ?s + 1\<rparr>) (a # as)"
      "view (?s\<lparr>heap := ?h, memory := Some a, nCurrentFile := nCurrentFile ?s + 1\<rparr>) (a # as) =
        abs_file f # view ?s as"
      using mem_wf_Cons [OF wf' _ g _ fw(1,2) out _ len sd] f fb nm ba out by auto
    with run sd' v show ?thesis by (intro exI [of _ ?h]) simp
  qed
qed

lemma add_file_duplicate:
  assumes wf: "mem_wf s as" and f: "heap s a = Some f" and "nul_free (filename f)"
    and nm: "filename f \<in> set (names s as)"
  shows "add_file_to_memory (Some a) s = (Inr None, s\<lparr>errno := EEXIST\<rparr>)"
proof -
  have "inMem (Some (filename f)) (s\<lparr>errno := 0\<rparr>) = (Inr 1, s\<lparr>errno := 0\<rparr>)"
    using inMem_run [of "s\<lparr>errno := 0\<rparr>" as "filename f"] assms by simp
  with f show ?thesis by (simp add: add_file_to_memory_def sq_def bnd_run)
qed

end
