(* ===== verification/Memory_Remove.thy ===== *)
theory Memory_Remove
  imports Memory_Update
begin

text \<open>
  Taking files off the two ends of the list, freeing them, removing a file by name,
  emptying the cache and writing to a file.
\<close>

section \<open>Freeing\<close>

lemma free_file_run:
  assumes "heap s a = Some f" and "mutex_ok (mlibc s)" and "\<not> lockFile f"
  shows "free_file (Some a) s = (Inr (), s\<lparr>heap := (heap s)(a := None)\<rparr>)"
  using assms by (simp add: free_file_def sq_def bnd_run)

lemma free_null: "free_file None s = (Inr (), s)"
  by (simp add: free_file_def)

section \<open>The two ends of the list\<close>

text \<open>Names, content and well-formedness when the list loses one file and the counters follow.\<close>

lemma mem_wf_drop:
  assumes wf: "mem_wf s as" and set: "mset as = add_mset a (mset as')"
    and sd: "same_data (heap s) h" and ch: "chain fnext h p as'"
  shows "mem_wf (s\<lparr>heap := h, memory := p, nCurrentFile := nCurrentFile s - 1,
    nCurrentMemoryUsed := nCurrentMemoryUsed s - usedMemory (file_of s a)\<rparr>) as'"
proof -
  let ?t = "s\<lparr>heap := h, memory := p, nCurrentFile := nCurrentFile s - 1,
    nCurrentMemoryUsed := nCurrentMemoryUsed s - usedMemory (file_of s a)\<rparr>"
  have setas: "set as = insert a (set as')" by (metis set set_mset_add_mset_insert set_mset_mset)
  have len: "length as = Suc (length as')" by (metis set size_add_mset size_mset)
  have n: "names ?t as' = names s as'" by (rule names_same) (simp add: sd)
  have b: "bytes_used ?t as' = bytes_used s as'" by (rule bytes_same) (simp add: sd)
  have "mset (names s as) = add_mset (filename (file_of s a)) (mset (names s as'))"
    by (simp add: names_def set)
  then have dn: "distinct (names s as')"
    using mem_wfD(4) [OF wf] by (metis distinct.simps(2) mset.simps(2) mset_eq_imp_distinct_iff)
  have "mset (map (\<lambda>x. length (buffer (file_of s x))) as) =
      add_mset (length (buffer (file_of s a))) (mset (map (\<lambda>x. length (buffer (file_of s x))) as'))"
    by (simp add: set)
  then have bu: "bytes_used s as = length (buffer (file_of s a)) + bytes_used s as'"
    unfolding bytes_used_def by (metis sum_mset.add_mset sum_mset_sum_list)
  have um: "usedMemory (file_of s a) = of_nat (length (buffer (file_of s a)))"
    using mem_wfD(3) [OF wf, of a] setas by (simp add: file_wf_def)
  have "\<forall>x \<ge> fresh s. h x = None" using mem_wfD(2) [OF wf] same_data_None [OF sd] by blast
  moreover have "\<forall>x \<in> set as'. file_wf (file_of ?t x)"
    using mem_wfD(3) [OF wf] setas same_data_fields(4) [OF sd] by simp
  moreover have "nCurrentFile s - 1 = of_nat (length as')" using mem_wfD(6) [OF wf] len by simp
  moreover have "nCurrentMemoryUsed s - usedMemory (file_of s a) = of_nat (bytes_used s as')"
    using mem_wfD(7) [OF wf] bu um by simp
  ultimately show ?thesis
    using wf ch n b dn len unfolding mem_wf_def by (simp add: unlocked_def)
qed

lemma pop_from_tail_empty:
  assumes "mem_wf s []"
  shows "pop_from_tail s = (Inr None, s)"
proof -
  have "memory s = None" using mem_wfD(1) [OF assms] by simp
  with unlockedD [OF mem_wf_unlocked [OF assms]] show ?thesis
    by (simp add: pop_from_tail_def sq_def bnd_run)
qed

lemma pop_from_tail_run:
  assumes wf: "mem_wf s (us @ [a])"
  shows "\<exists>h p. pop_from_tail s = (Inr (Some a), s\<lparr>heap := h, memory := p, nCurrentFile := nCurrentFile s - 1,
      nCurrentMemoryUsed := nCurrentMemoryUsed s - usedMemory (file_of s a)\<rparr>) \<and>
    same_data (heap s) h \<and> chain fnext h p us"
proof -
  note u = unlockedD [OF mem_wf_unlocked [OF wf]]
  have ch: "chain fnext (heap s) (memory s) (us @ [a])" by (rule mem_wfD(1) [OF wf])
  obtain fa where fa: "heap s a = Some fa" "fnext fa = None" using ch by (auto simp: seg_append)
  show ?thesis
  proof (cases us rule: rev_cases)
    case Nil
    with ch have "memory s = Some a" by simp
    with fa u Nil show ?thesis
      by (intro exI [of _ "heap s"] exI [of _ None]) (simp add: pop_from_tail_def sq_def bnd_run)
  next
    case (snoc ws l)
    have d: "distinct (ws @ [l, a])" using mem_wf_distinct [OF wf] by (simp add: snoc)
    obtain fl where fl: "heap s l = Some fl" "fnext fl = Some a" "seg fnext (heap s) (memory s) ws (Some l)"
      using ch by (auto simp: snoc seg_append)
    obtain b c cs where bc: "us @ [a] = b # c # cs"
      by (cases ws; cases "tl ws") (auto simp: snoc)
    then obtain fb where b: "memory s = Some b" "heap s b = Some fb" "fnext fb = Some c"
      using ch unfolding bc by auto
    let ?s = "s\<lparr>metadataLock := True, memoryLock := True\<rparr>"
    have "tail_seek (Suc (fresh s)) (memory s) (memory s) ?s =
        (Inr (if us = [] then memory s else Some (last us), Some a), ?s)"
    proof (rule tail_seek_run)
      show "chain fnext (heap ?s) (memory s) (us @ [a])" using ch by simp
      show "length us < Suc (fresh s)" using mem_wf_length [OF wf] by simp
    qed
    then have seek: "tail_seek (Suc (fresh s)) (memory s) (memory s) ?s = (Inr (Some l, Some a), ?s)"
      by (simp add: snoc)
    define ga where "ga = fa\<lparr>fprev := None, fnext := None\<rparr>"
    define h where "h = (heap s)(l \<mapsto> fl\<lparr>fnext := None\<rparr>, a \<mapsto> ga)"
    have run: "pop_from_tail s = (Inr (Some a), s\<lparr>heap := h, memory := memory s, nCurrentFile := nCurrentFile s - 1,
      nCurrentMemoryUsed := nCurrentMemoryUsed s - usedMemory (file_of s a)\<rparr>)"
      using seek u fa fl b d by (auto simp: pop_from_tail_def sq_def bnd_run h_def ga_def)
    have ga: "strip ga = strip fa" by (simp add: ga_def)
    have "same_data (heap s) h"
      unfolding h_def using fl fa d ga
      by (intro same_data_upd [where f = fa and h' = "(heap s)(l \<mapsto> fl\<lparr>fnext := None\<rparr>)"]
          same_data_upd [where f = fl and h' = "heap s"]) auto
    moreover have "chain fnext h (memory s) us"
      using fl d by (auto simp: snoc seg_append h_def)
    ultimately show ?thesis using run by blast
  qed
qed

lemma pop_from_head_empty:
  assumes "mem_wf s []"
  shows "pop_from_head s = (Inr None, s)"
proof -
  have "memory s = None" using mem_wfD(1) [OF assms] by simp
  with unlockedD [OF mem_wf_unlocked [OF assms]] show ?thesis
    by (simp add: pop_from_head_def sq_def bnd_run)
qed

lemma pop_from_head_run:
  assumes wf: "mem_wf s (a # us)"
  shows "\<exists>h p. pop_from_head s = (Inr (Some a), s\<lparr>heap := h, memory := p, nCurrentFile := nCurrentFile s - 1,
      nCurrentMemoryUsed := nCurrentMemoryUsed s - usedMemory (file_of s a)\<rparr>) \<and>
    same_data (heap s) h \<and> chain fnext h p us"
proof -
  note u = unlockedD [OF mem_wf_unlocked [OF wf]]
  obtain fa where fa: "memory s = Some a" "heap s a = Some fa" "chain fnext (heap s) (fnext fa) us"
    using mem_wfD(1) [OF wf] by auto
  have d: "a \<notin> set us" using mem_wf_distinct [OF wf] by simp
  define ga where "ga = fa\<lparr>fnext := None, fprev := None\<rparr>"
  define h where "h = (heap s)(a \<mapsto> ga)"
  have run: "pop_from_head s = (Inr (Some a), s\<lparr>heap := h, memory := fnext fa, nCurrentFile := nCurrentFile s - 1,
      nCurrentMemoryUsed := nCurrentMemoryUsed s - usedMemory (file_of s a)\<rparr>)"
    using u fa by (auto simp: pop_from_head_def sq_def bnd_run h_def ga_def)
  have "same_data (heap s) h"
    unfolding h_def using fa(2) by (intro same_data_upd [where f = fa and h' = "heap s"]) (auto simp: ga_def)
  moreover have "chain fnext h (fnext fa) us" using fa(3) d by (simp add: h_def)
  ultimately show ?thesis using run by blast
qed

text \<open>
  Popping a file and freeing it: the file is gone from the list and from the heap, the
  others keep their data and their order.
\<close>

definition freed :: "mem_state \<Rightarrow> addr \<Rightarrow> (addr \<rightharpoonup> FileMemory) \<Rightarrow> addr option \<Rightarrow> mem_state" where
  "freed s a h p = s\<lparr>heap := h(a := None), memory := p, nCurrentFile := nCurrentFile s - 1,
     nCurrentMemoryUsed := nCurrentMemoryUsed s - usedMemory (file_of s a)\<rparr>"

lemma pop_free:
  assumes wf: "mem_wf s as" and set: "mset as = add_mset a (mset as')"
    and pop: "pop s = (Inr (Some a), s\<lparr>heap := h, memory := p, nCurrentFile := nCurrentFile s - 1,
      nCurrentMemoryUsed := nCurrentMemoryUsed s - usedMemory (file_of s a)\<rparr>)"
    and sd: "same_data (heap s) h" and ch: "chain fnext h p as'"
  shows "bnd pop free_file s = (Inr (), freed s a h p)" and "mem_wf (freed s a h p) as'"
    and "view (freed s a h p) as' = view s as'" and "heap (freed s a h p) a = None"
proof -
  let ?t = "s\<lparr>heap := h, memory := p, nCurrentFile := nCurrentFile s - 1,
      nCurrentMemoryUsed := nCurrentMemoryUsed s - usedMemory (file_of s a)\<rparr>"
  have wft: "mem_wf ?t as'" by (rule mem_wf_drop [OF wf set sd ch])
  have out: "a \<notin> set as'"
    using mem_wf_distinct [OF wf] by (metis distinct.simps(2) mset.simps(2) mset_eq_imp_distinct_iff set)
  have ain: "a \<in> set as" by (metis set insertI1 set_mset_add_mset_insert set_mset_mset)
  obtain f where f: "h a = Some f" "\<not> lockFile f"
    using mem_wf_live [OF wf ain] same_data_None [OF sd, of a] same_data_fields(4) [OF sd, of a]
    by (auto simp: file_wf_def)
  have fr: "freed s a h p = ?t\<lparr>heap := (heap ?t)(a := None)\<rparr>" by (simp add: freed_def)
  have "free_file (Some a) ?t = (Inr (), ?t\<lparr>heap := (heap ?t)(a := None)\<rparr>)"
    using f unlockedD [OF mem_wf_unlocked [OF wf]] by (intro free_file_run) auto
  with pop fr show "bnd pop free_file s = (Inr (), freed s a h p)" by (simp add: bnd_run)
  show "mem_wf (freed s a h p) as'" unfolding fr by (rule mem_wf_other(1) [OF wft out]) simp
  have "view (freed s a h p) as' = view ?t as'" unfolding fr by (rule mem_wf_other(2) [OF wft out]) simp
  also have "\<dots> = view s as'" by (rule view_same) (simp add: sd)
  finally show "view (freed s a h p) as' = view s as'" .
  show "heap (freed s a h p) a = None" by (simp add: freed_def)
qed

lemma pop_tail_free:
  assumes "mem_wf s (us @ [a])"
  shows "\<exists>h p. bnd pop_from_tail free_file s = (Inr (), freed s a h p) \<and>
    pop_from_tail s = (Inr (Some a), s\<lparr>heap := h, memory := p, nCurrentFile := nCurrentFile s - 1,
      nCurrentMemoryUsed := nCurrentMemoryUsed s - usedMemory (file_of s a)\<rparr>) \<and>
    same_data (heap s) h \<and> mem_wf (freed s a h p) us \<and> view (freed s a h p) us = view s us"
proof -
  obtain h p where pop: "pop_from_tail s = (Inr (Some a), s\<lparr>heap := h, memory := p, nCurrentFile := nCurrentFile s - 1,
      nCurrentMemoryUsed := nCurrentMemoryUsed s - usedMemory (file_of s a)\<rparr>)"
    and "same_data (heap s) h" "chain fnext h p us"
    using pop_from_tail_run [OF assms] by blast
  with assms pop_free [where s = s and as = "us @ [a]" and a = a and as' = us and pop = pop_from_tail and h = h and p = p] show ?thesis by auto
qed

lemma pop_head_free:
  assumes "mem_wf s (a # us)"
  shows "\<exists>h p. bnd pop_from_head free_file s = (Inr (), freed s a h p) \<and> same_data (heap s) h \<and>
    mem_wf (freed s a h p) us \<and> view (freed s a h p) us = view s us"
proof -
  obtain h p where pop: "pop_from_head s = (Inr (Some a), s\<lparr>heap := h, memory := p, nCurrentFile := nCurrentFile s - 1,
      nCurrentMemoryUsed := nCurrentMemoryUsed s - usedMemory (file_of s a)\<rparr>)"
    and "same_data (heap s) h" "chain fnext h p us"
    using pop_from_head_run [OF assms] by blast
  with assms pop_free [where s = s and as = "a # us" and a = a and as' = us and pop = pop_from_head and h = h and p = p] show ?thesis by auto
qed

section \<open>Removing a file by name\<close>

lemma remove_generic_file_run:
  assumes wf: "mem_wf s as" and a: "a \<in> set as"
  shows "\<exists>h p. remove_generic_file (Some a) s = (Inr 1, (freed s a h p)\<lparr>errno := 0\<rparr>) \<and>
    mem_wf ((freed s a h p)\<lparr>errno := 0\<rparr>) (remove1 a as) \<and>
    view ((freed s a h p)\<lparr>errno := 0\<rparr>) (remove1 a as) = view s (remove1 a as) \<and>
    heap (freed s a h p) a = None"
proof -
  obtain f where f: "heap s a = Some f" using mem_wf_live(1) [OF wf a] by blast
  have nf: "nul_free (filename f)" using mem_wfD(3) [OF wf a] f by (simp add: file_wf_def)
  have inm: "inMem (Some (filename f)) s = (Inr 1, s)"
  proof -
    have "filename f \<in> set (names s as)" using a f unfolding names_def by force
    then show ?thesis using inMem_run [OF wf nf] by simp
  qed
  from find_file_present [OF wf a, of "filename f" LRU] f obtain h p where
    find: "find_file (Some (filename f)) LRU s = (Inr (Some a), s\<lparr>errno := 0, heap := h, memory := p\<rparr>)"
    and sd: "same_data (heap s) h"
    and wft: "mem_wf (s\<lparr>errno := 0, heap := h, memory := p\<rparr>) (a # remove1 a as)"
    by (auto simp: touched_def)
  let ?t = "s\<lparr>errno := 0, heap := h, memory := p\<rparr>"
  from pop_head_free [OF wft] obtain h' p' where
    pop: "bnd pop_from_head free_file ?t = (Inr (), freed ?t a h' p')"
    and sd': "same_data (heap ?t) h'" and wfu: "mem_wf (freed ?t a h' p') (remove1 a as)"
    and vu: "view (freed ?t a h' p') (remove1 a as) = view ?t (remove1 a as)" by auto
  have "usedMemory (the (h a)) = usedMemory (file_of s a)"
  proof -
    have "file_wf (the (h a))" "file_wf (file_of s a)"
      using same_data_fields(4) [OF sd] mem_wfD(3) [OF wf a] by simp_all
    with same_data_fields(2) [OF sd, of a] show ?thesis by (simp add: file_wf_def)
  qed
  then have fr: "freed ?t a h' p' = (freed s a h' p')\<lparr>errno := 0\<rparr>" by (simp add: freed_def)
  have "remove_generic_file (Some a) s = (case bnd pop_from_head free_file ?t of
      (Inl e, u) \<Rightarrow> (Inl e, u) | (Inr _, u) \<Rightarrow> (Inr 1, u))"
    using f inm find
    by (simp add: remove_generic_file_def bnd_run sq_def split: prod.splits sum.splits)
  with pop fr have "remove_generic_file (Some a) s = (Inr 1, (freed s a h' p')\<lparr>errno := 0\<rparr>)" by simp
  moreover have "view ?t (remove1 a as) = view s (remove1 a as)" by (rule view_same) (simp add: sd)
  moreover have "heap (freed s a h' p') a = None" by (simp add: freed_def)
  ultimately show ?thesis using wfu vu fr by (intro exI [of _ h'] exI [of _ p']) simp
qed

section \<open>Writing\<close>

lemma write_to_file_run:
  assumes wf: "mem_wf s as" and a: "a \<in> set as" and sz: "n < 2 ^ 31" and buf: "n \<le> length buf"
  defines "f \<equiv> file_of s a"
  defines "s' \<equiv> s\<lparr>heap := (heap s)(a \<mapsto> f\<lparr>buffer := buffer f @ take n buf,
      usedMemory := of_nat (length (buffer f) + n)\<rparr>),
    nCurrentMemoryUsed := nCurrentMemoryUsed s + of_nat n\<rparr>"
  shows "write_to_file (Some a) buf (of_nat n) s = (Inr (of_nat n), s')" and "mem_wf s' as"
    and "view s' as = map (\<lambda>c. if cname c = filename f then c\<lparr>ccontent := ccontent c @ take n buf\<rparr> else c) (view s as)"
proof -
  note u = unlockedD [OF mem_wf_unlocked [OF wf]]
  have f: "heap s a = Some f" using mem_wf_live(1) [OF wf a] by (simp add: f_def)
  have fw: "file_wf f" using mem_wfD(3) [OF wf a] by (simp add: f_def)
  then have nl: "\<not> lockFile f" and um: "usedMemory f = of_nat (length (buffer f))" by (simp_all add: file_wf_def)
  have un: "unat (of_nat n :: u64) = n" using sz by (simp add: unat_of_nat)
  have wid: "widen (of_nat n) = (of_nat n :: u64)" using sz by (rule widen_of_nat)
  have loop: "write_loop (2 ^ 32 + 1) (Some a) buf (of_nat n) 0 t =
      (Inr (narrow (of_nat n)), t\<lparr>heap := (heap t)(a \<mapsto> g\<lparr>buffer := buffer g @ take n buf,
        usedMemory := of_nat (length (buffer g) + n)\<rparr>)\<rparr>)"
    if t: "heap t a = Some g" "libc_ok (mlibc t)" "usedMemory g = of_nat (length (buffer g))" for t g
  proof (cases "n = 0")
    case True
    have "g\<lparr>usedMemory := word_of_nat (length (buffer g))\<rparr> = g" using t(3) by (cases g) simp
    with True t show ?thesis
      by (subst write_loop.simps) simp
  next
    case False
    then have pos: "(0 :: u64) < of_nat n" using un by (simp add: word_less_nat_alt)
    have "write_loop (2 ^ 32) (Some a) buf (of_nat n) (narrow (of_nat n)) v = (Inr (narrow (of_nat n)), v)" for v
      by (subst write_loop.simps) (simp add: wid)
    with pos buf un t show ?thesis
      by (subst write_loop.simps) (simp add: bnd_run sq_def)
  qed
  have g: "f\<lparr>lockFile := True, buffer := buffer f @ take n buf, usedMemory := of_nat (length (buffer f) + n), lockFile := False\<rparr>
     = f\<lparr>buffer := buffer f @ take n buf, usedMemory := of_nat (length (buffer f) + n)\<rparr>"
    using nl by (cases f) simp
  let ?t = "s\<lparr>metadataLock := True, heap := (heap s)(a \<mapsto> f\<lparr>lockFile := True\<rparr>)\<rparr>"
  show "write_to_file (Some a) buf (of_nat n) s = (Inr (of_nat n), s')"
    using loop [of ?t "f\<lparr>lockFile := True\<rparr>"] u f nl um wid g
    by (simp add: write_to_file_def bnd_run sq_def s'_def)
  let ?g = "f\<lparr>buffer := buffer f @ take n buf, usedMemory := of_nat (length (buffer f) + n)\<rparr>"
  have fg: "file_wf ?g" using fw buf by (simp add: file_wf_def min_def)
  show "mem_wf s' as"
    unfolding s'_def
    by (rule mem_wf_file_upd [OF wf a fg]) (use buf in \<open>simp_all add: f_def min_def\<close>)
  have "view s' as = view (s\<lparr>heap := (heap s)(a \<mapsto> ?g)\<rparr>) as" by (simp add: view_def s'_def)
  also have "\<dots> = map (\<lambda>c. if cname c = filename (file_of s a) then c\<lparr>ccontent := ccontent c @ take n buf\<rparr> else c) (view s as)"
    by (rule view_file_upd [OF wf a]) (simp add: abs_file_def f_def)
  finally show "view s' as = map (\<lambda>c. if cname c = filename f then c\<lparr>ccontent := ccontent c @ take n buf\<rparr> else c) (view s as)"
    by (simp add: f_def)
qed

end
