(* ===== verification/Cache.thy ===== *)
theory Cache
  imports Memory_Remove
begin

text \<open>
  The replacement algorithm: what it keeps, as a function on the list of cached files, and
  the proof that \<open>cache_algorithm\<close> computes it.
\<close>

section \<open>The specification\<close>

definition content_bytes :: "cfile list \<Rightarrow> nat" where
  "content_bytes fs = sum_list (map (\<lambda>f. length (ccontent f)) fs)"

text \<open>The longest prefix of the list whose contents fit into \<open>cap\<close> bytes.\<close>

fun keep :: "nat \<Rightarrow> cfile list \<Rightarrow> cfile list" where
  "keep cap [] = []"
| "keep cap (f # fs) =
     (if length (ccontent f) \<le> cap then f # keep (cap - length (ccontent f)) fs else [])"

text \<open>
  The files that stay when room is made for \<open>k\<close> more files and \<open>amt\<close> more bytes
  within the limits of \<open>mf\<close> files and \<open>mx\<close> bytes.
\<close>

definition after_file_round :: "nat \<Rightarrow> nat \<Rightarrow> cfile list \<Rightarrow> cfile list" where
  "after_file_round k mf fs = (if mf < length fs + k \<and> k < mf then take (mf - k) fs else fs)"

definition room :: "nat \<Rightarrow> nat \<Rightarrow> nat \<Rightarrow> nat \<Rightarrow> cfile list \<Rightarrow> cfile list" where
  "room k amt mf mx fs =
     (let fs' = after_file_round k mf fs
      in if mx < content_bytes fs' + amt \<and> amt < mx then keep (mx - amt) fs' else fs')"

lemma content_bytes_simps [simp]:
  "content_bytes [] = 0"
  "content_bytes (f # fs) = length (ccontent f) + content_bytes fs"
  "content_bytes (fs @ gs) = content_bytes fs + content_bytes gs"
  by (simp_all add: content_bytes_def)

lemma content_bytes_last:
  "fs \<noteq> [] \<Longrightarrow> content_bytes fs = content_bytes (butlast fs) + length (ccontent (last fs))"
  by (induction fs rule: rev_induct) auto

lemma bytes_content: "bytes_used s as = content_bytes (view s as)"
  by (simp add: bytes_view content_bytes_def)

lemma length_view [simp]: "length (view s as) = length as"
  by (simp add: view_def)

lemma keep_take: "keep cap fs = take (length (keep cap fs)) fs"
  by (induction cap fs rule: keep.induct) auto

lemma length_keep: "length (keep cap fs) \<le> length fs"
  by (induction cap fs rule: keep.induct) auto

lemma keep_fits: "content_bytes (keep cap fs) \<le> cap"
  by (induction cap fs rule: keep.induct) auto

lemma keep_all: "content_bytes fs \<le> cap \<Longrightarrow> keep cap fs = fs"
  by (induction cap fs rule: keep.induct) auto

lemma keep_maximal:
  "n \<le> length fs \<Longrightarrow> content_bytes (take n fs) \<le> cap \<Longrightarrow> n \<le> length (keep cap fs)"
proof (induction cap fs arbitrary: n rule: keep.induct)
  case (1 cap)
  then show ?case by simp
next
  case (2 cap f fs)
  then show ?case by (cases n) auto
qed

lemma keep_snoc: "cap < content_bytes (fs @ [f]) \<Longrightarrow> keep cap (fs @ [f]) = keep cap fs"
  by (induction cap fs rule: keep.induct) auto

section \<open>Evicting\<close>

text \<open>
  \<open>evicts s as n s'\<close>: from \<open>s\<close> to \<open>s'\<close> the files after the first \<open>n\<close> were taken
  off the tail and freed; all other files keep their data, all other fields their value.
\<close>

definition same_fields :: "mem_state \<Rightarrow> mem_state \<Rightarrow> bool" where
  "same_fields s s' \<longleftrightarrow> MaxMemory s' = MaxMemory s \<and> MaxFiles s' = MaxFiles s \<and>
     alg_trigger s' = alg_trigger s \<and> MaxRecvFile s' = MaxRecvFile s \<and>
     MaxUsedMemory s' = MaxUsedMemory s \<and> logst s' = logst s \<and> mlibc s' = mlibc s \<and>
     stdout s' = stdout s \<and> errno s' = errno s \<and> fresh s' = fresh s"

definition evicts :: "mem_state \<Rightarrow> addr list \<Rightarrow> nat \<Rightarrow> mem_state \<Rightarrow> bool" where
  "evicts s as n s' \<longleftrightarrow>
     n \<le> length as \<and> mem_wf s' (take n as) \<and> view s' (take n as) = take n (view s as) \<and>
     (\<forall>a \<in> set (drop n as). heap s' a = None) \<and>
     (\<forall>a. a \<notin> set (drop n as) \<longrightarrow> map_option strip (heap s' a) = map_option strip (heap s a)) \<and>
     same_fields s s'"

lemma evicts_refl: "mem_wf s as \<Longrightarrow> evicts s as (length as) s"
  by (simp add: evicts_def same_fields_def view_def)

lemma evicts_trans:
  assumes "evicts s as n s'" and "evicts s' (take n as) m s''"
  shows "evicts s as m s''"
proof -
  have mn: "m \<le> n" and n: "n \<le> length as" using assms by (auto simp: evicts_def)
  have dr: "set (drop m as) = set (drop m (take n as)) \<union> set (drop n as)"
  proof -
    have "drop m as = drop m (take n as) @ drop n as"
      using mn n by (metis append_take_drop_id diff_is_0_eq' drop_0 drop_append length_take min.absorb2)
    then show ?thesis by simp
  qed
  have "take m (take n as) = take m as" "take m (take n (view s as)) = take m (view s as)"
    using mn by (simp_all add: min_absorb1)
  moreover have "heap s'' a = None" if "a \<in> set (drop n as)" for a
  proof (cases "a \<in> set (drop m (take n as))")
    case True
    then show ?thesis using assms(2) by (simp add: evicts_def)
  next
    case False
    then have "map_option strip (heap s'' a) = map_option strip (heap s' a)"
      using assms(2) by (simp add: evicts_def)
    moreover have "heap s' a = None" using assms(1) that by (simp add: evicts_def)
    ultimately show ?thesis by simp
  qed
  ultimately show ?thesis
    using assms mn n unfolding evicts_def dr by (auto simp: same_fields_def)
qed

lemma pop_tail_step:
  assumes wf: "mem_wf s as" and ne: "as \<noteq> []"
  shows "\<exists>t f s'. pop_from_tail s = (Inr (Some (last as)), t) \<and> deref (Some (last as)) t = (Inr f, t) \<and>
    length (buffer f) = length (ccontent (last (view s as))) \<and> usedMemory f = of_nat (length (buffer f)) \<and>
    free_file (Some (last as)) t = (Inr (), s') \<and> evicts s as (length as - 1) s'"
proof -
  obtain us a where as: "as = us @ [a]" using ne by (meson rev_exhaust)
  obtain h p where free: "bnd pop_from_tail free_file s = (Inr (), freed s a h p)"
    and pop: "pop_from_tail s = (Inr (Some a), s\<lparr>heap := h, memory := p, nCurrentFile := nCurrentFile s - 1,
      nCurrentMemoryUsed := nCurrentMemoryUsed s - usedMemory (file_of s a)\<rparr>)"
    and sd: "same_data (heap s) h" and wf': "mem_wf (freed s a h p) us"
    and v: "view (freed s a h p) us = view s us"
    using pop_tail_free [of s us a] wf by (auto simp: as)
  let ?t = "s\<lparr>heap := h, memory := p, nCurrentFile := nCurrentFile s - 1,
      nCurrentMemoryUsed := nCurrentMemoryUsed s - usedMemory (file_of s a)\<rparr>"
  have a: "a \<in> set as" by (simp add: as)
  obtain f where f: "h a = Some f"
    using mem_wf_live(1) [OF wf a] same_data_None [OF sd, of a] by auto
  have "file_wf f" "buffer f = buffer (file_of s a)"
    using mem_wfD(3) [OF wf a] same_data_fields [OF sd, of a] f by auto
  moreover have "free_file (Some a) ?t = (Inr (), freed s a h p)"
    using free pop by (simp add: bnd_run)
  moreover have "evicts s as (length as - 1) (freed s a h p)"
    using wf' v sd by (auto simp: evicts_def as view_def freed_def same_fields_def same_data_def)
  ultimately show ?thesis
    using pop f
    by (intro exI [of _ ?t] exI [of _ f] exI [of _ "freed s a h p"]) (auto simp: as file_wf_def view_def)
qed

lemma evict_files_run:
  assumes "mem_wf s as"
  shows "\<exists>s'. evict_files k s = (Inr (), s') \<and> evicts s as (length as - k) s'"
  using assms
proof (induction k arbitrary: s as)
  case 0
  then show ?case by (auto simp: evicts_refl)
next
  case (Suc k)
  show ?case
  proof (cases "as = []")
    case True
    with Suc.prems have "pop_from_tail s = (Inr None, s)" by (simp add: pop_from_tail_empty)
    with True Suc.IH [OF Suc.prems] show ?thesis by (simp add: bnd_run sq_def free_null)
  next
    case False
    from pop_tail_step [OF Suc.prems False] obtain t u where
      st: "pop_from_tail s = (Inr (Some (last as)), t)" "free_file (Some (last as)) t = (Inr (), u)"
        "evicts s as (length as - 1) u" by blast
    then have "mem_wf u (take (length as - 1) as)" by (simp add: evicts_def)
    from Suc.IH [OF this] obtain s' where
      s': "evict_files k u = (Inr (), s')" "evicts u (take (length as - 1) as) (length as - 1 - k) s'"
      by auto
    have "evicts s as (length as - Suc k) s'" using evicts_trans [OF st(3) s'(2)] by simp
    with st(1,2) s'(1) show ?thesis by (auto simp: bnd_run sq_def)
  qed
qed

text \<open>
  The memory loop, as long as the sums stay below $2^{63}$: it stops with the longest
  prefix of the list that leaves room for \<open>amt\<close> bytes.
\<close>

lemma evict_memory_run:
  assumes "mem_wf s as" and "length as < fuel" and "amt \<le> mx" and "mx < 2 ^ 63"
    and "content_bytes (view s as) + amt < 2 ^ 63"
    and "to_free = of_nat (content_bytes (view s as) + amt) - of_nat mx"
  shows "\<exists>s'. evict_memory fuel to_free (of_nat (content_bytes (view s as))) (of_nat amt) (of_nat mx) s = (Inr (), s') \<and>
    evicts s as (length (keep (mx - amt) (view s as))) s'"
  using assms(1,2,5,6)
proof (induction fuel arbitrary: s as to_free)
  case 0
  then show ?case by simp
next
  case (Suc fuel)
  let ?L = "view s as"
  have st: "sint to_free = int (content_bytes ?L + amt) - int mx"
    using Suc.prems(3,4) assms(4) by (simp only: sint_diff64)
  show ?case
  proof (cases "content_bytes ?L + amt \<le> mx")
    case True
    then have "keep (mx - amt) ?L = ?L" by (intro keep_all) simp
    with True st Suc.prems(1) show ?thesis by (auto simp: evicts_refl)
  next
    case False
    then have ne: "as \<noteq> []" using assms(3) by (auto simp: view_def)
    have act: "get_actual_files s = (Inr (of_nat (length as)), s)"
      using get_actual_files_run [OF mem_wf_unlocked [OF Suc.prems(1)]] mem_wfD(6) [OF Suc.prems(1)] by simp
    have n0: "(of_nat (length as) :: u32) \<noteq> 0"
      using mem_wfD(5) [OF Suc.prems(1)] ne by (simp add: unat_eq_zero [symmetric] unat32_of_nat_small)
    from pop_tail_step [OF Suc.prems(1) ne] obtain t f u where
      pt: "pop_from_tail s = (Inr (Some (last as)), t)" "deref (Some (last as)) t = (Inr f, t)"
        "free_file (Some (last as)) t = (Inr (), u)" and ev: "evicts s as (length as - 1) u"
      and um: "usedMemory f = of_nat (length (buffer f))"
      and bl: "length (buffer f) = length (ccontent (last ?L))" by blast
    let ?as = "take (length as - 1) as"
    have wfu: "mem_wf u ?as" and vu: "view u ?as = butlast ?L"
      using ev by (simp_all add: evicts_def butlast_conv_take)
    have L: "?L = butlast ?L @ [last ?L]" using ne by (simp add: view_def)
    then have cb: "content_bytes ?L = content_bytes (view u ?as) + length (buffer f)"
      using ne vu bl content_bytes_last [of ?L] by (simp add: view_def)
    then have cur: "of_nat (content_bytes ?L) - usedMemory f = (of_nat (content_bytes (view u ?as)) :: u64)"
      using um by simp
    have "\<exists>s'. evict_memory fuel (of_nat (content_bytes (view u ?as) + amt) - of_nat mx)
        (of_nat (content_bytes (view u ?as))) (of_nat amt) (of_nat mx) u = (Inr (), s') \<and>
      evicts u ?as (length (keep (mx - amt) (view u ?as))) s'"
    proof (rule Suc.IH [OF wfu])
      show "length ?as < fuel" using Suc.prems(2) ne by (cases as) auto
      show "content_bytes (view u ?as) + amt < 2 ^ 63" using Suc.prems(3) cb by simp
    qed simp
    then obtain s' where s': "evict_memory fuel (of_nat (content_bytes (view u ?as) + amt) - of_nat mx)
        (of_nat (content_bytes (view u ?as))) (of_nat amt) (of_nat mx) u = (Inr (), s')"
      "evicts u ?as (length (keep (mx - amt) (view u ?as))) s'" by blast
    have "keep (mx - amt) (view u ?as) = keep (mx - amt) ?L"
      using keep_snoc [of "mx - amt" "butlast ?L" "last ?L"] False L vu assms(3) by simp
    then have "evicts s as (length (keep (mx - amt) ?L)) s'"
      using evicts_trans [OF ev] s'(2) by simp
    moreover have "evict_memory (Suc fuel) to_free (of_nat (content_bytes ?L)) (of_nat amt) (of_nat mx) s = (Inr (), s')"
      using False st act n0 pt cur s'(1) by (simp add: bnd_run sq_def)
    ultimately show ?thesis by blast
  qed
qed

end
