(* ===== verification/Cache_Alg.thy ===== *)
theory Cache_Alg
  imports Cache
begin

text \<open>
  \<open>cache_algorithm\<close> against its specification \<open>room\<close>: the three outcomes (nothing to
  do, too big, files evicted), the limits it establishes, and the inputs on which the
  32-bit parameter and the strict comparisons of the code make it miss them.
\<close>

section \<open>The parts\<close>

definition limits :: "mem_state \<Rightarrow> nat \<Rightarrow> nat \<Rightarrow> bool" where
  "limits s mf mx \<longleftrightarrow> MaxFiles s = of_nat mf \<and> mf < 2 ^ 31 \<and> MaxMemory s = of_nat mx \<and> mx < 2 ^ 31"

definition counted :: "mem_state \<Rightarrow> mem_state" where
  "counted s = s\<lparr>alg_trigger := alg_trigger s + 1,
     logst := (logst s)\<lparr>entries := entries (logst s) @ [(line ''Called cache alg. !'', [])]\<rparr>\<rparr>"

lemma alg_counter_run: "unlocked s \<Longrightarrow> alg_counter s = (Inr (), counted s)"
  by (simp add: alg_counter_def sq_def bnd_run counted_def unlockedD)

lemma counted_wf [simp]: "mem_wf (counted s) as = mem_wf s as" "view (counted s) as = view s as"
  "heap (counted s) = heap s" "nCurrentFile (counted s) = nCurrentFile s"
  "nCurrentMemoryUsed (counted s) = nCurrentMemoryUsed s" "MaxMemory (counted s) = MaxMemory s"
  "MaxFiles (counted s) = MaxFiles s" "errno (counted s) = errno s"
  by (simp_all add: counted_def mem_wf_def unlocked_def names_def bytes_used_def view_def)

text \<open>The high-water marks after a legal action.\<close>

definition marked :: "i32 \<Rightarrow> i32 \<Rightarrow> mem_state \<Rightarrow> mem_state" where
  "marked nf am s =
     (let s1 = (if ucast (MaxUsedMemory s) < nCurrentMemoryUsed s + widen am
                then s\<lparr>MaxUsedMemory := ucast (nCurrentMemoryUsed s + widen am)\<rparr> else s)
      in if MaxRecvFile s1 < nCurrentFile s1 + nf
         then s1\<lparr>MaxRecvFile := nCurrentFile s1 + nf\<rparr> else s1)"

lemma is_action_legal_run:
  assumes "unlocked s"
  shows "is_action_legal nf am s =
    (if nCurrentMemoryUsed s + widen am > MaxMemory s \<or> nCurrentFile s + nf > MaxFiles s
     then (Inr 0, s) else (Inr 1, marked nf am s))"
  using unlockedD [OF assms]
  by (auto simp: is_action_legal_def sq_def bnd_run marked_def Let_def)

lemma marked_wf [simp]: "mem_wf (marked nf am s) as = mem_wf s as" "view (marked nf am s) as = view s as"
  "heap (marked nf am s) = heap s" "MaxMemory (marked nf am s) = MaxMemory s"
  "MaxFiles (marked nf am s) = MaxFiles s" "alg_trigger (marked nf am s) = alg_trigger s"
  by (simp_all add: marked_def Let_def mem_wf_def unlocked_def names_def bytes_used_def view_def)

text \<open>On small numbers the casts of the code do not change the values.\<close>

lemma memory_to_remove_small:
  assumes "mx < 2 ^ 31" and "n < 2 ^ 31 + mx"
  shows "memory_to_remove (of_nat n) 0 (of_nat mx) = of_nat n - of_nat mx"
proof -
  have "narrow (of_nat n - of_nat mx) = (of_int (int n - int mx) :: i32)"
    by (metis narrow_of_int of_int_diff of_int_of_nat_eq)
  moreover have "widen (of_int (int n - int mx)) = (of_int (int n - int mx) :: u64)"
    using assms by (intro widen_of_int) auto
  ultimately show ?thesis
    using assms(1) by (simp add: memory_to_remove_def widen_of_nat)
qed

lemma memory_to_remove_add: "memory_to_remove c a m = memory_to_remove (c + a) 0 m"
  by (simp add: memory_to_remove_def)

section \<open>The whole algorithm\<close>

lemma legal_iff:
  assumes wf: "mem_wf s as" and lim: "limits s mf mx" and k: "length as + k < 2 ^ 31"
    and amt: "amt < 2 ^ 31" "content_bytes (view s as) + amt < 2 ^ 63"
  shows "nCurrentMemoryUsed s + widen (of_nat amt) > MaxMemory s \<longleftrightarrow> mx < content_bytes (view s as) + amt"
    and "nCurrentFile s + of_nat k > MaxFiles s \<longleftrightarrow> mf < length as + k"
proof -
  have "nCurrentMemoryUsed s + widen (of_nat amt) = of_nat (content_bytes (view s as) + amt)"
    using mem_wfD(7) [OF wf] amt by (simp add: widen_of_nat bytes_content)
  then show "nCurrentMemoryUsed s + widen (of_nat amt) > MaxMemory s \<longleftrightarrow> mx < content_bytes (view s as) + amt"
    using lim amt by (simp add: limits_def of_nat_less64 del: of_nat_add)
  have "nCurrentFile s + of_nat k = of_nat (length as + k)" using mem_wfD(6) [OF wf] by simp
  then show "nCurrentFile s + of_nat k > MaxFiles s \<longleftrightarrow> mf < length as + k"
    using lim k by (simp add: limits_def of_nat_less32 del: of_nat_add)
qed

lemma sum_small:
  assumes "limits s mf mx" and "n < 2 ^ 31 + mx"
  shows "n < 2 ^ 63"
  using assms by (simp add: limits_def)

lemma cache_algorithm_legal:
  assumes wf: "mem_wf s as" and lim: "limits s mf mx" and k: "length as + k < 2 ^ 31"
    and amt: "amt < 2 ^ 31" "content_bytes (view s as) + amt < 2 ^ 31 + mx"
    and fits: "content_bytes (view s as) + amt \<le> mx" "length as + k \<le> mf"
  shows "cache_algorithm (of_nat k) (of_nat amt) s =
    (Inr (), (marked (of_nat k) (of_nat amt) (s\<lparr>errno := 0\<rparr>))\<lparr>errno := ECANCELED\<rparr>)"
proof -
  let ?s = "s\<lparr>errno := 0\<rparr>"
  have wf': "mem_wf ?s as" "limits ?s mf mx" "view ?s as = view s as"
    using wf lim by (simp_all add: limits_def view_def)
  have "is_action_legal (of_nat k) (of_nat amt) ?s = (Inr 1, marked (of_nat k) (of_nat amt) ?s)"
    using legal_iff [OF wf'(1,2) k amt(1)] wf'(3) fits sum_small [OF lim amt(2)] is_action_legal_run [OF mem_wf_unlocked [OF wf'(1)]]
    by simp
  then show ?thesis by (simp add: cache_algorithm_def sq_def bnd_run)
qed

lemma cache_algorithm_too_big:
  assumes wf: "mem_wf s as" and lim: "limits s mf mx" and k: "length as + k < 2 ^ 31"
    and amt: "amt < 2 ^ 31" "content_bytes (view s as) + amt < 2 ^ 63"
    and big: "mf < k \<or> mx < amt"
  shows "cache_algorithm (of_nat k) (of_nat amt) s = (Inr (), s\<lparr>errno := E2BIG\<rparr>)"
proof -
  let ?s = "s\<lparr>errno := 0\<rparr>"
  have wf': "mem_wf ?s as" "limits ?s mf mx" "view ?s as = view s as"
    using wf lim by (simp_all add: limits_def view_def)
  note u = unlockedD [OF mem_wf_unlocked [OF wf]]
  have leg: "is_action_legal (of_nat k) (of_nat amt) ?s = (Inr 0, ?s)"
    using legal_iff [OF wf'(1,2) k amt(1)] wf'(3) big amt(2) is_action_legal_run [OF mem_wf_unlocked [OF wf'(1)]]
    by auto
  have "(of_nat k :: u32) > MaxFiles s \<or> (of_nat amt :: u64) > MaxMemory s"
    using lim big k amt(1) by (simp add: limits_def of_nat_less32 of_nat_less64)
  with leg u show ?thesis by (simp add: cache_algorithm_def sq_def bnd_run)
qed

definition triggered :: "nat \<Rightarrow> nat \<Rightarrow> nat \<Rightarrow> nat \<Rightarrow> cfile list \<Rightarrow> bool" where
  "triggered k amt mf mx fs \<longleftrightarrow>
     mf < length fs + k \<and> k < mf \<or> mx < content_bytes fs + amt \<and> amt < mx"

lemma cache_algorithm_evicts:
  assumes wf: "mem_wf s as" and lim: "limits s mf mx" and k: "length as + k < 2 ^ 31"
    and amt: "amt < 2 ^ 31" "content_bytes (view s as) + amt < 2 ^ 31 + mx"
    and over: "mx < content_bytes (view s as) + amt \<or> mf < length as + k"
    and small: "k \<le> mf" "amt \<le> mx"
  defines "t \<equiv> (if triggered k amt mf mx (view s as) then counted (s\<lparr>errno := 0\<rparr>) else s\<lparr>errno := 0\<rparr>)"
  shows "\<exists>s'. cache_algorithm (of_nat k) (of_nat amt) s = (Inr (), s') \<and>
    evicts t as (length (room k amt mf mx (view s as))) s'"
proof -
  let ?s = "s\<lparr>errno := 0\<rparr>" and ?L = "view s as"
  define fr where "fr \<longleftrightarrow> mf < length as + k \<and> k < mf"
  define s1 where "s1 = (if fr then counted ?s else ?s)"
  define n1 where "n1 = length (after_file_round k mf ?L)"
  have wf': "mem_wf ?s as" "limits ?s mf mx" "view ?s as = ?L"
    using wf lim by (simp_all add: limits_def view_def)
  note u = unlockedD [OF mem_wf_unlocked [OF wf]]
  have wf1: "mem_wf s1 as" "view s1 as = ?L" using wf'(1,3) by (simp_all add: s1_def)
  have leg: "is_action_legal (of_nat k) (of_nat amt) ?s = (Inr 0, ?s)"
    using legal_iff [OF wf'(1,2) k amt(1)] wf'(3) over sum_small [OF lim amt(2)] is_action_legal_run [OF mem_wf_unlocked [OF wf'(1)]]
    by auto
  have nb: "\<not> ((of_nat k :: u32) > MaxFiles s \<or> (of_nat amt :: u64) > MaxMemory s)"
    using lim small k amt(1) by (simp add: limits_def of_nat_less32 of_nat_less64)
  have ftr: "sint (files_to_remove (nCurrentFile s) (of_nat k) (MaxFiles s)) = int (length as + k) - int mf"
    using sint_diff32 [of "length as + k" mf] mem_wfD(6) [OF wf] lim k by (simp add: files_to_remove_def limits_def)
  have kmf: "MaxFiles s > of_nat k \<longleftrightarrow> k < mf" using lim k by (simp add: limits_def of_nat_less32)
  have n1: "n1 = (if fr then mf - k else length as)" by (auto simp: n1_def after_file_round_def fr_def min_def)
  obtain s2 where run2: "cache_file_round (files_to_remove (nCurrentFile s) (of_nat k) (MaxFiles s)) (of_nat k) (MaxFiles s) ?s = (Inr fr, s2)"
    and ev2: "evicts s1 as n1 s2"
  proof (cases fr)
    case True
    from evict_files_run [of "counted ?s" as "length as + k - mf"] wf' obtain s2 where
      "evict_files (length as + k - mf) (counted ?s) = (Inr (), s2)"
      "evicts (counted ?s) as (length as - (length as + k - mf)) s2" by auto
    moreover have "length as - (length as + k - mf) = mf - k" using True by (auto simp: fr_def)
    moreover have "nat (int (length as + k) - int mf) = length as + k - mf" by simp
    ultimately show ?thesis
      using that [of s2] alg_counter_run [OF mem_wf_unlocked [OF wf'(1)]] True ftr kmf
      by (simp add: cache_file_round_def sq_def bnd_run s1_def n1 fr_def)
  next
    case False
    then show ?thesis using that [of ?s] evicts_refl [OF wf'(1)] ftr kmf
      by (auto simp: cache_file_round_def s1_def n1 fr_def)
  qed
  let ?as = "take n1 as"
  have wf2: "mem_wf s2 ?as" and v2: "view s2 ?as = after_file_round k mf ?L"
    and sf2: "same_fields s1 s2"
  proof -
    show "mem_wf s2 ?as" "same_fields s1 s2" using ev2 by (simp_all add: evicts_def)
    have "view s2 ?as = take n1 ?L" using ev2 wf1 by (simp add: evicts_def)
    then show "view s2 ?as = after_file_round k mf ?L" by (auto simp: n1_def after_file_round_def)
  qed
  let ?c = "content_bytes (view s2 ?as)"
  have u2: "unlocked s2" by (rule mem_wf_unlocked [OF wf2])
  note u2' = unlockedD [OF u2]
  have mx2: "MaxMemory s2 = of_nat mx" using sf2 lim by (auto simp: same_fields_def s1_def limits_def)
  have cb: "?c \<le> content_bytes ?L"
  proof -
    have "?L = after_file_round k mf ?L @ drop (mf - k) ?L \<or> after_file_round k mf ?L = ?L"
      by (simp add: after_file_round_def)
    then show ?thesis using v2 by (metis content_bytes_simps(3) le_add1 order_refl)
  qed
  have used2: "nCurrentMemoryUsed s2 = of_nat ?c" using mem_wfD(7) [OF wf2] by (simp add: bytes_content)
  have m: "memory_to_remove (nCurrentMemoryUsed s2) (of_nat amt) (MaxMemory s2) = of_nat (?c + amt) - of_nat mx"
    using memory_to_remove_small [of mx "?c + amt"] lim amt cb used2 mx2
    by (subst memory_to_remove_add) (simp add: limits_def)
  have sm: "sint (of_nat (?c + amt) - of_nat mx :: u64) = int (?c + amt) - int mx"
    using amt cb lim by (intro sint_diff64) (auto simp: limits_def)
  have amx: "MaxMemory s > of_nat amt \<longleftrightarrow> amt < mx"
    using lim amt(1) by (simp add: limits_def of_nat_less64)
  define mr where "mr \<longleftrightarrow> mx < ?c + amt \<and> amt < mx"
  have rm: "room k amt mf mx ?L = (if mr then keep (mx - amt) (view s2 ?as) else view s2 ?as)"
    by (simp add: room_def Let_def v2 mr_def)
  have len2: "length ?as = n1" using ev2 by (simp add: evicts_def)
  have tr: "t = (if fr \<or> mr then counted ?s else ?s)"
  proof (cases fr)
    case True
    then show ?thesis by (simp add: t_def triggered_def fr_def)
  next
    case False
    then have "view s2 ?as = ?L" using v2 by (auto simp: after_file_round_def fr_def)
    with False show ?thesis by (simp add: t_def triggered_def fr_def mr_def)
  qed
  define s3 where "s3 = (if fr then s2 else counted s2)"
  have "cache_algorithm (of_nat k) (of_nat amt) s = cache_memory_round fr (of_nat amt) (MaxMemory s) s2"
    using leg u nb run2 by (simp add: cache_algorithm_def sq_def bnd_run)
  also have "\<dots> = (if mr then evict_memory (Suc (unat (nCurrentFile s3))) (of_nat (?c + amt) - of_nat mx)
      (of_nat ?c) (of_nat amt) (of_nat mx) s3 else (Inr (), s2))"
    using u2' m sm amx used2 lim alg_counter_run [OF u2]
    by (auto simp: cache_memory_round_def sq_def bnd_run mr_def s3_def limits_def)
  finally have run: "cache_algorithm (of_nat k) (of_nat amt) s = \<dots>" .
  show ?thesis
  proof (cases mr)
    case False
    with run rm tr ev2 len2 show ?thesis by (auto simp: s1_def)
  next
    case True
    have wf3: "mem_wf s3 ?as" "view s3 ?as = view s2 ?as" using wf2 by (simp_all add: s3_def)
    have "nCurrentFile s3 = of_nat n1" using mem_wfD(6) [OF wf3(1)] len2 by simp
    moreover have "n1 < 2 ^ 32" using mem_wfD(5) [OF wf3(1)] len2 by simp
    ultimately have fuel: "length ?as < Suc (unat (nCurrentFile s3))" using len2 by (simp add: unat32_of_nat_small)
    have "content_bytes (view s3 ?as) + amt < 2 ^ 63" using amt(2) cb wf3(2) lim by (simp add: limits_def)
    from evict_memory_run [OF wf3(1) fuel small(2) _ this] lim obtain s' where
      s': "evict_memory (Suc (unat (nCurrentFile s3))) (of_nat (?c + amt) - of_nat mx) (of_nat ?c) (of_nat amt) (of_nat mx) s3 = (Inr (), s')"
        "evicts s3 ?as (length (keep (mx - amt) (view s2 ?as))) s'"
      unfolding wf3(2) by (auto simp: limits_def)
    have ev3: "evicts t as n1 s3"
    proof (cases fr)
      case True
      with ev2 tr show ?thesis by (simp add: s3_def s1_def)
    next
      case False
      then have "s2 = ?s" using run2 ftr kmf by (auto simp: cache_file_round_def fr_def split: if_splits)
      with False tr \<open>mr\<close> show ?thesis
        using evicts_refl [of "counted ?s" as] wf'(1) by (simp add: s3_def n1)
    qed
    with run \<open>mr\<close> s' evicts_trans [OF ev3 s'(2)] rm show ?thesis by auto
  qed
qed

end
