(* ===== verification/Queue.thy ===== *)
theory Queue
  imports Utils
begin

text \<open>
  \<^verbatim>\<open>src/queue.c\<close>: the doubly linked list that carries jobs to the workers and answers back
  to the client threads. Nodes are inserted at the head and taken from the tail, under the
  lock of the list. \<open>obj\<close> is the pointer the node carries.
\<close>

section \<open>Nodes, lists and the heap\<close>

record Node =
  nnext :: "addr option"
  nprev :: "addr option"
  obj :: "addr option"

text \<open>\<open>listCond\<close> counts the wake-ups sent; \<open>listLock\<close> says whether the lock is held.\<close>

record List_t =
  listCond :: nat
  listLock :: bool
  number_of_nodes :: u32
  tail :: "addr option"
  list_head :: "addr option"

record qheap =
  nodes :: "addr \<rightharpoonup> Node"
  lists :: "addr \<rightharpoonup> List_t"
  nfresh :: addr
  lfresh :: addr
  qlibc :: libc

type_synonym 'a qcmd = "(qheap, 'a) cmd"

definition lderef :: "addr option \<Rightarrow> List_t qcmd" where
  "lderef p =
     (case p of
        None \<Rightarrow> stop Null_deref
      | Some l \<Rightarrow> bnd (gets lists) (\<lambda>h.
          case h l of None \<Rightarrow> stop Use_after_free | Some q \<Rightarrow> ret q))"

definition lput :: "addr option \<Rightarrow> (List_t \<Rightarrow> List_t) \<Rightarrow> unit qcmd" where
  "lput p u = bnd (lderef p) (\<lambda>q. modify (lists_update (\<lambda>h. h(the p \<mapsto> u q))))"

definition nderef :: "addr option \<Rightarrow> Node qcmd" where
  "nderef p =
     (case p of
        None \<Rightarrow> stop Null_deref
      | Some a \<Rightarrow> bnd (gets nodes) (\<lambda>h.
          case h a of None \<Rightarrow> stop Use_after_free | Some n \<Rightarrow> ret n))"

definition nput :: "addr option \<Rightarrow> (Node \<Rightarrow> Node) \<Rightarrow> unit qcmd" where
  "nput p u = bnd (nderef p) (\<lambda>n. modify (nodes_update (\<lambda>h. h(the p \<mapsto> u n))))"

definition lock_list :: "addr option \<Rightarrow> unit qcmd" where
  "lock_list p =
     bnd (lderef p) (\<lambda>q. bnd (gets qlibc) (\<lambda>c.
       if \<not> mutex_ok c then stop Exit_failure
       else if listLock q then stop Blocked
       else lput p (listLock_update (\<lambda>_. True))))"

definition unlock_list :: "addr option \<Rightarrow> unit qcmd" where
  "unlock_list p =
     bnd (gets qlibc) (\<lambda>c.
       if \<not> mutex_ok c then stop Exit_failure else lput p (listLock_update (\<lambda>_. False)))"

definition signal_list :: "addr option \<Rightarrow> unit qcmd" where
  "signal_list p =
     bnd (gets qlibc) (\<lambda>c.
       if \<not> cond_ok c then stop Exit_failure else lput p (listCond_update Suc))"

definition wait_list :: "addr option \<Rightarrow> unit qcmd" where
  "wait_list p =
     bnd (gets qlibc) (\<lambda>c.
       if \<not> cond_ok c then stop Exit_failure
       else sq (lput p (listLock_update (\<lambda>_. False))) (stop Blocked))"

section \<open>The operations\<close>

abbreviation sizeof_List :: u64 where "sizeof_List \<equiv> 112"
abbreviation sizeof_Node :: u64 where "sizeof_Node \<equiv> 24"

definition initList :: "addr option qcmd" where
  "initList =
     sq (safe_malloc qlibc sizeof_List)
     (bnd (gets qlibc) (\<lambda>c.
       if \<not> cond_ok c then stop Exit_failure
       else if \<not> mutex_ok c then stop Exit_failure
       else bnd (gets lfresh) (\<lambda>l.
         sq (modify (\<lambda>s. s\<lparr>lfresh := Suc l, lists := (lists s)(l \<mapsto>
               \<lparr>listCond = 0, listLock = False, number_of_nodes = 0, tail = None, list_head = None\<rparr>)\<rparr>))
         (ret (Some l)))))"

definition push_node_to_list :: "addr option \<Rightarrow> addr option \<Rightarrow> i32 qcmd" where
  "push_node_to_list list element =
     (if list = None then ret (-1)
      else if element = None then ret (-1)
      else
        sq (lock_list list)
        (bnd (lderef list) (\<lambda>q.
         if list_head q = None \<or> number_of_nodes q = 0 then
           sq (nput element (nprev_update (\<lambda>_. None)))
           (sq (nput element (nnext_update (\<lambda>_. None)))
           (sq (lput list (list_head_update (\<lambda>_. element)))
           (sq (lput list (tail_update (\<lambda>_. element)))
           (sq (lput list (number_of_nodes_update (\<lambda>n. n + 1)))
           (sq (signal_list list)
           (sq (unlock_list list)
           (ret 0)))))))
         else
           sq (nput element (nprev_update (\<lambda>_. None)))
           (sq (nput element (nnext_update (\<lambda>_. list_head q)))
           (sq (nput (list_head q) (nprev_update (\<lambda>_. element)))
           (sq (lput list (list_head_update (\<lambda>_. element)))
           (sq (lput list (number_of_nodes_update (\<lambda>n. n + 1)))
           (sq (signal_list list)
           (sq (unlock_list list)
           (ret 0))))))))))"

text \<open>
  The loop around \<open>wait\<close> re-reads the count when it is woken; with no other thread to
  push, the caller waits for ever and has released the lock.
\<close>

definition pop_element_from_tail :: "addr option \<Rightarrow> addr option qcmd" where
  "pop_element_from_tail list =
     (if list = None then ret None
      else
        sq (lock_list list)
        (bnd (lderef list) (\<lambda>q.
         if number_of_nodes q = 0 then sq (wait_list list) (ret None)
         else if tail q = None \<and> list_head q = None then sq (unlock_list list) (stop Exit_failure)
         else if number_of_nodes q = 1 then
           sq (nput (tail q) (nprev_update (\<lambda>_. None)))
           (sq (nput (tail q) (nnext_update (\<lambda>_. None)))
           (sq (lput list (list_head_update (\<lambda>_. None)))
           (sq (lput list (tail_update (\<lambda>_. None)))
           (sq (lput list (number_of_nodes_update (\<lambda>n. n - 1)))
           (sq (unlock_list list)
           (ret (tail q)))))))
         else
           bnd (nderef (tail q)) (\<lambda>toReturn.
           sq (lput list (tail_update (\<lambda>_. nprev toReturn)))
           (sq (nput (nprev toReturn) (nnext_update (\<lambda>_. None)))
           (sq (lput list (number_of_nodes_update (\<lambda>n. n - 1)))
           (sq (nput (tail q) (nprev_update (\<lambda>_. None)))
           (sq (nput (tail q) (nnext_update (\<lambda>_. None)))
           (sq (unlock_list list)
           (ret (tail q)))))))))))"

definition create_node :: "addr option \<Rightarrow> addr option qcmd" where
  "create_node ob =
     (if ob = None then ret None
      else sq (safe_malloc qlibc sizeof_Node)
       (bnd (gets nfresh) (\<lambda>a.
        sq (modify (\<lambda>s. s\<lparr>nfresh := Suc a, nodes := (nodes s)(a \<mapsto>
              \<lparr>nnext = None, nprev = None, obj = ob\<rparr>)\<rparr>))
        (ret (Some a)))))"

definition wake_up_all_readers :: "addr option \<Rightarrow> unit qcmd" where
  "wake_up_all_readers list =
     sq (lock_list list) (sq (signal_list list) (unlock_list list))"

text \<open>\<open>free\<close> of a node, as the callers do when they have taken its object out.\<close>

definition free_node :: "addr option \<Rightarrow> unit qcmd" where
  "free_node p = (case p of None \<Rightarrow> ret () | Some a \<Rightarrow> modify (nodes_update (\<lambda>h. h(a := None))))"

definition free_list :: "addr option \<Rightarrow> unit qcmd" where
  "free_list p = (case p of None \<Rightarrow> ret () | Some a \<Rightarrow> modify (lists_update (\<lambda>h. h(a := None))))"

section \<open>Well-formed lists\<close>

text \<open>
  \<open>queue_wf q l ns\<close>: the list at \<open>l\<close> holds the nodes \<open>ns\<close>, newest first: the
  forward links from the head and the backward links from the tail run through the same
  nodes in opposite order, and the count agrees.
\<close>

definition queue_wf :: "qheap \<Rightarrow> addr \<Rightarrow> addr list \<Rightarrow> bool" where
  "queue_wf q l ns \<longleftrightarrow>
     (\<exists>L. lists q l = Some L \<and> \<not> listLock L \<and>
       chain nnext (nodes q) (list_head L) ns \<and>
       chain nprev (nodes q) (tail L) (rev ns) \<and>
       number_of_nodes L = of_nat (length ns)) \<and>
     length ns < 2 ^ 32 \<and> libc_ok (qlibc q) \<and>
     (\<forall>a \<ge> nfresh q. nodes q a = None)"

definition objs :: "qheap \<Rightarrow> addr list \<Rightarrow> addr option list" where
  "objs q ns = map (\<lambda>a. obj (the (nodes q a))) ns"

lemma listLock_release [simp]: "\<not> listLock L \<Longrightarrow> L\<lparr>listLock := False\<rparr> = L"
  by (cases L) simp

lemma lderef_Some [simp]: "lists s l = Some q \<Longrightarrow> lderef (Some l) s = (Inr q, s)"
  by (simp add: lderef_def bnd_run)

lemma lput_Some [simp]: "lists s l = Some q \<Longrightarrow> lput (Some l) u s = (Inr (), s\<lparr>lists := (lists s)(l \<mapsto> u q)\<rparr>)"
  by (simp add: lput_def bnd_run)

lemma nderef_Some [simp]: "nodes s a = Some n \<Longrightarrow> nderef (Some a) s = (Inr n, s)"
  by (simp add: nderef_def bnd_run)

lemma nput_Some [simp]: "nodes s a = Some n \<Longrightarrow> nput (Some a) u s = (Inr (), s\<lparr>nodes := (nodes s)(a \<mapsto> u n)\<rparr>)"
  by (simp add: nput_def bnd_run)

lemma lock_list_run [simp]:
  "lists s l = Some q \<Longrightarrow> mutex_ok (qlibc s) \<Longrightarrow> \<not> listLock q \<Longrightarrow>
    lock_list (Some l) s = (Inr (), s\<lparr>lists := (lists s)(l \<mapsto> q\<lparr>listLock := True\<rparr>)\<rparr>)"
  by (simp add: lock_list_def bnd_run)

lemma unlock_list_run [simp]:
  "lists s l = Some q \<Longrightarrow> mutex_ok (qlibc s) \<Longrightarrow>
    unlock_list (Some l) s = (Inr (), s\<lparr>lists := (lists s)(l \<mapsto> q\<lparr>listLock := False\<rparr>)\<rparr>)"
  by (simp add: unlock_list_def bnd_run)

lemma signal_list_run [simp]:
  "lists s l = Some q \<Longrightarrow> cond_ok (qlibc s) \<Longrightarrow>
    signal_list (Some l) s = (Inr (), s\<lparr>lists := (lists s)(l \<mapsto> listCond_update Suc q)\<rparr>)"
  by (simp add: signal_list_def bnd_run)

lemma wait_list_run [simp]:
  "lists s l = Some q \<Longrightarrow> cond_ok (qlibc s) \<Longrightarrow>
    wait_list (Some l) s = (Inl Blocked, s\<lparr>lists := (lists s)(l \<mapsto> q\<lparr>listLock := False\<rparr>)\<rparr>)"
  by (simp add: wait_list_def bnd_run sq_def)

lemma queue_wf_nil: "queue_wf q l [] \<longleftrightarrow>
    (\<exists>L. lists q l = Some L \<and> \<not> listLock L \<and> list_head L = None \<and> tail L = None \<and> number_of_nodes L = 0) \<and>
    libc_ok (qlibc q) \<and> (\<forall>a \<ge> nfresh q. nodes q a = None)"
  by (auto simp: queue_wf_def)

lemma queue_wf_distinct: "queue_wf q l ns \<Longrightarrow> distinct ns"
  by (auto simp: queue_wf_def dest: chain_distinct)

lemma queue_wf_live:
  assumes "queue_wf q l ns" and "a \<in> set ns"
  shows "\<exists>n. nodes q a = Some n" and "a < nfresh q"
proof -
  from assms(1) obtain L :: List_t where "chain nnext (nodes q) (list_head L) ns"
    by (auto simp: queue_wf_def)
  then show ex: "\<exists>n. nodes q a = Some n" using assms(2) by (rule seg_alloc)
  show "a < nfresh q"
  proof (rule ccontr)
    assume "\<not> a < nfresh q"
    with assms(1) have "nodes q a = None" by (auto simp: queue_wf_def)
    with ex show False by simp
  qed
qed

text \<open>Another list on the same heap is not disturbed by writes to foreign nodes.\<close>

lemma queue_wf_frame:
  assumes "queue_wf q l ns" and "lists q' l = lists q l" and "\<forall>a \<in> set ns. nodes q' a = nodes q a"
    and "qlibc q' = qlibc q" and "\<forall>a \<ge> nfresh q'. nodes q' a = None"
  shows "queue_wf q' l ns" and "objs q' ns = objs q ns"
proof -
  have "seg nx (nodes q') p ms r = seg nx (nodes q) p ms r" if "set ms = set ns"
    for nx p ms r by (rule seg_cong) (use that assms(3) in auto)
  with assms show "queue_wf q' l ns" by (auto simp: queue_wf_def)
  show "objs q' ns = objs q ns" using assms(3) by (simp add: objs_def)
qed

lemma push_null: "push_node_to_list None e q = (Inr (-1), q)" "push_node_to_list l None q = (Inr (-1), q)"
  by (simp_all add: push_node_to_list_def)

lemma pop_blocks:
  assumes "queue_wf q l []"
  shows "pop_element_from_tail (Some l) q = (Inl Blocked, q)"
proof -
  obtain L :: List_t where L: "lists q l = Some L" "\<not> listLock L" "number_of_nodes L = 0" "libc_ok (qlibc q)"
    using assms by (auto simp: queue_wf_nil)
  have "q\<lparr>lists := (lists q)(l \<mapsto> L)\<rparr> = q" using L(1) by (simp add: fun_upd_idem)
  with L show ?thesis by (simp add: pop_element_from_tail_def sq_def bnd_run)
qed

lemma n_of_nat: "n < 2 ^ 32 \<Longrightarrow> (of_nat n :: u32) = 0 \<longleftrightarrow> n = 0"
  by (simp add: unat_eq_zero [symmetric] unat32_of_nat_small)

lemma n_of_nat1: "n < 2 ^ 32 \<Longrightarrow> (of_nat n :: u32) = 1 \<longleftrightarrow> n = 1"
  using unat32_of_nat_small [of n] unat32_of_nat_small [of 1] by (metis of_nat_1 unat_1)

section \<open>Push and pop\<close>

text \<open>
  What an operation on the list at \<open>l\<close> leaves alone: the other lists, the nodes outside
  \<open>S\<close>, the object of every node, the allocator.
\<close>

definition qframe :: "addr \<Rightarrow> addr set \<Rightarrow> qheap \<Rightarrow> qheap \<Rightarrow> bool" where
  "qframe l S q q' \<longleftrightarrow>
     (\<forall>m. m \<noteq> l \<longrightarrow> lists q' m = lists q m) \<and> (\<forall>b. b \<notin> S \<longrightarrow> nodes q' b = nodes q b) \<and>
     (\<forall>b. map_option obj (nodes q' b) = map_option obj (nodes q b)) \<and>
     nfresh q' = nfresh q \<and> lfresh q' = lfresh q \<and> qlibc q' = qlibc q"

lemma qframe_objs:
  assumes "qframe l S q q'"
  shows "objs q' ns = objs q ns"
proof -
  have "obj (the (nodes q' b)) = obj (the (nodes q b))" if "b \<in> set ns" for b
  proof -
    have "map_option obj (nodes q' b) = map_option obj (nodes q b)" using assms by (simp add: qframe_def)
    moreover have "nodes q' b = None \<longleftrightarrow> nodes q b = None" using calculation by (metis map_option_is_None)
    ultimately show ?thesis
      by (cases "nodes q b"; cases "nodes q' b") auto
  qed
  then show ?thesis by (simp add: objs_def)
qed

lemma qframe_other:
  assumes "qframe l S q q'" and "queue_wf q m ms" and "m \<noteq> l" and "set ms \<inter> S = {}"
  shows "queue_wf q' m ms"
proof (rule queue_wf_frame [OF assms(2)])
  show "lists q' m = lists q m" "qlibc q' = qlibc q" using assms(1,3) by (simp_all add: qframe_def)
  show "\<forall>a \<in> set ms. nodes q' a = nodes q a" using assms(1,4) by (auto simp: qframe_def)
  show "\<forall>a \<ge> nfresh q'. nodes q' a = None"
    using assms(1,2) unfolding qframe_def queue_wf_def by (metis map_option_is_None)
qed

lemma push_empty_run:
  assumes wf: "queue_wf q l []" and a: "nodes q a = Some n"
  shows "\<exists>q'. push_node_to_list (Some l) (Some a) q = (Inr 0, q') \<and> queue_wf q' l [a] \<and> qframe l {a} q q'"
proof -
  obtain L :: List_t where L: "lists q l = Some L" "\<not> listLock L" "list_head L = None" "tail L = None"
      "number_of_nodes L = 0" "libc_ok (qlibc q)" "\<forall>a \<ge> nfresh q. nodes q a = None"
    using wf by (auto simp: queue_wf_nil)
  let ?n = "n\<lparr>nprev := None, nnext := None\<rparr>"
  let ?L = "listCond_update Suc (number_of_nodes_update (\<lambda>n. n + 1) (L\<lparr>list_head := Some a, tail := Some a\<rparr>))"
  let ?q = "q\<lparr>nodes := (nodes q)(a \<mapsto> ?n), lists := (lists q)(l \<mapsto> ?L)\<rparr>"
  have "push_node_to_list (Some l) (Some a) q = (Inr 0, ?q)"
    using L a by (simp add: push_node_to_list_def sq_def bnd_run)
  moreover have "a < nfresh q" using L(7) a by (metis leI option.distinct(1))
  then have "queue_wf ?q l [a]" using L by (simp add: queue_wf_def)
  moreover have "qframe l {a} q ?q" using a by (simp add: qframe_def)
  ultimately show ?thesis by blast
qed

lemma push_more_run:
  assumes wf: "queue_wf q l (b # bs)" and a: "nodes q a = Some n" and out: "a \<notin> set (b # bs)"
    and len: "length bs + 2 < 2 ^ 32"
  shows "\<exists>q'. push_node_to_list (Some l) (Some a) q = (Inr 0, q') \<and> queue_wf q' l (a # b # bs) \<and>
    qframe l {a, b} q q'"
proof -
  obtain L :: List_t where L: "lists q l = Some L" "\<not> listLock L"
      "chain nnext (nodes q) (list_head L) (b # bs)" "chain nprev (nodes q) (tail L) (rev (b # bs))"
      "number_of_nodes L = of_nat (length (b # bs))" "libc_ok (qlibc q)" "\<forall>a \<ge> nfresh q. nodes q a = None"
    using wf by (auto simp: queue_wf_def)
  obtain m where m: "list_head L = Some b" "nodes q b = Some m" "chain nnext (nodes q) (nnext m) bs"
    using L(3) by auto
  have ab: "a \<noteq> b" "a \<notin> set bs" using out by auto
  have bbs: "b \<notin> set bs" using queue_wf_distinct [OF wf] by simp
  have nz: "number_of_nodes L \<noteq> 0" using n_of_nat [of "length (b # bs)"] L(5) len by simp
  let ?n = "n\<lparr>nprev := None, nnext := Some b\<rparr>"
  let ?m = "m\<lparr>nprev := Some a\<rparr>"
  let ?L = "listCond_update Suc (number_of_nodes_update (\<lambda>n. n + 1) (L\<lparr>list_head := Some a\<rparr>))"
  let ?h = "(nodes q)(a \<mapsto> ?n, b \<mapsto> ?m)"
  let ?q = "q\<lparr>nodes := ?h, lists := (lists q)(l \<mapsto> ?L)\<rparr>"
  have "push_node_to_list (Some l) (Some a) q = (Inr 0, ?q)"
    using L a m nz ab by (simp add: push_node_to_list_def sq_def bnd_run)
  moreover have an: "a < nfresh q" "b < nfresh q" using L(7) a m by (metis leI option.distinct(1))+
  have "chain nprev (nodes q) (tail L) (rev bs @ [b])" using L(4) by simp
  then have "seg nprev (nodes q) (tail L) (rev bs) (Some b)" by (auto simp: seg_append)
  then have "seg nprev ?h (tail L) (rev bs) (Some b)" using ab bbs by simp
  then have "chain nprev ?h (tail L) (rev (a # b # bs))" using ab by (simp add: seg_append)
  moreover have "chain nnext ?h (Some a) (a # b # bs)" using ab bbs m by simp
  moreover have "number_of_nodes L + 1 = of_nat (length (a # b # bs))" using L(5) by simp
  ultimately have "queue_wf ?q l (a # b # bs)" using L an len by (simp add: queue_wf_def)
  moreover have "qframe l {a, b} q ?q" using a m ab by (simp add: qframe_def)
  moreover note \<open>push_node_to_list (Some l) (Some a) q = (Inr 0, ?q)\<close>
  ultimately show ?thesis by blast
qed

lemma qframe_mono: "qframe l S q q' \<Longrightarrow> S \<subseteq> T \<Longrightarrow> qframe l T q q'"
  by (auto simp: qframe_def)

lemma push_run:
  assumes "queue_wf q l ns" and "nodes q a = Some n" and "a \<notin> set ns" and "Suc (length ns) < 2 ^ 32"
  shows "\<exists>q'. push_node_to_list (Some l) (Some a) q = (Inr 0, q') \<and> queue_wf q' l (a # ns) \<and>
    qframe l (insert a (set ns)) q q'"
proof (cases ns)
  case Nil
  with assms push_empty_run [of q l a n] show ?thesis by simp
next
  case (Cons b bs)
  with assms push_more_run [of q l b bs a n] obtain q' where
    "push_node_to_list (Some l) (Some a) q = (Inr 0, q')" "queue_wf q' l (a # ns)" "qframe l {a, b} q q'"
    by auto
  moreover have "{a, b} \<subseteq> insert a (set ns)" using Cons by simp
  ultimately show ?thesis using qframe_mono by blast
qed

lemma pop_run:
  assumes wf: "queue_wf q l (us @ [a])"
  shows "\<exists>q'. pop_element_from_tail (Some l) q = (Inr (Some a), q') \<and> queue_wf q' l us \<and>
    qframe l (insert a (set us)) q q' \<and> (\<exists>n. nodes q' a = Some n)"
proof -
  obtain L :: List_t where L: "lists q l = Some L" "\<not> listLock L"
      "chain nnext (nodes q) (list_head L) (us @ [a])" "chain nprev (nodes q) (tail L) (rev (us @ [a]))"
      "number_of_nodes L = of_nat (length (us @ [a]))" "libc_ok (qlibc q)"
      "\<forall>a \<ge> nfresh q. nodes q a = None" "length (us @ [a]) < 2 ^ 32"
    using wf by (auto simp: queue_wf_def)
  obtain n where n: "tail L = Some a" "nodes q a = Some n" "chain nprev (nodes q) (nprev n) (rev us)"
    using L(4) by auto
  have nz: "number_of_nodes L \<noteq> 0" using n_of_nat [of "length (us @ [a])"] L(5,8) by simp
  have an: "a < nfresh q" using L(7) n by (metis leI option.distinct(1))
  let ?n = "n\<lparr>nprev := None, nnext := None\<rparr>"
  show ?thesis
  proof (cases us rule: rev_cases)
    case Nil
    let ?L = "number_of_nodes_update (\<lambda>n. n - 1) (L\<lparr>list_head := None, tail := None\<rparr>)"
    let ?q = "q\<lparr>nodes := (nodes q)(a \<mapsto> ?n), lists := (lists q)(l \<mapsto> ?L)\<rparr>"
    have "pop_element_from_tail (Some l) q = (Inr (Some a), ?q)"
      using L n Nil by (simp add: pop_element_from_tail_def sq_def bnd_run)
    moreover have "queue_wf ?q l us" using L Nil an by (simp add: queue_wf_nil)
    moreover have "qframe l (insert a (set us)) q ?q" using n by (simp add: qframe_def)
    ultimately show ?thesis by (intro exI [of _ ?q]) simp
  next
    case (snoc vs b)
    have d: "a \<notin> set us" "b \<notin> set vs" "a \<noteq> b" using queue_wf_distinct [OF wf] snoc by auto
    obtain m where m: "nprev n = Some b" "nodes q b = Some m" "chain nprev (nodes q) (nprev m) (rev vs)"
      using n(3) snoc by auto
    have bn: "b < nfresh q" using L(7) m by (metis leI option.distinct(1))
    have n1: "number_of_nodes L \<noteq> 1" using n_of_nat1 [of "length (us @ [a])"] L(5,8) snoc by simp
    let ?h = "(nodes q)(b \<mapsto> m\<lparr>nnext := None\<rparr>, a \<mapsto> ?n)"
    let ?L = "number_of_nodes_update (\<lambda>n. n - 1) (L\<lparr>tail := Some b\<rparr>)"
    let ?q = "q\<lparr>nodes := ?h, lists := (lists q)(l \<mapsto> ?L)\<rparr>"
    have run: "pop_element_from_tail (Some l) q = (Inr (Some a), ?q)"
      using L(1,2,6) n m nz n1 d by (simp add: pop_element_from_tail_def sq_def bnd_run)
    have "seg nnext (nodes q) (list_head L) vs (Some b)" using L(3) snoc by (auto simp: seg_append)
    then have "seg nnext ?h (list_head L) vs (Some b)" using d snoc by simp
    then have "chain nnext ?h (list_head L) us" using d snoc by (simp add: seg_append)
    moreover have "chain nprev ?h (Some b) (rev us)" using d snoc m by simp
    moreover have "number_of_nodes L - 1 = of_nat (length us)" using L(5) by simp
    ultimately have "queue_wf ?q l us" using L an bn by (simp add: queue_wf_def)
    moreover have "qframe l (insert a (set us)) q ?q" using n m d snoc by (auto simp: qframe_def)
    ultimately show ?thesis using run by (intro exI [of _ ?q]) simp
  qed
qed

end
