(* ===== verification/Mailbox.thy ===== *)
theory Mailbox
  imports Queue
begin

text \<open>
  The lists of \<^verbatim>\<open>src/queue.c\<close> as mailboxes: the way the server uses them, a pointer is wrapped
  in a fresh node and pushed, and whoever pops the node takes the pointer out and frees it.
  The contract (first in, first out, per list, no list disturbing another) is a locale, so
  that what is proved from it holds of any list that keeps it; it is interpreted on the
  pointer-level lists.
\<close>

section \<open>The contract\<close>

text \<open>
  \<open>holds q F\<close>: in state \<open>q\<close> the list at \<open>l\<close> holds the objects \<open>F l\<close>, oldest first.
\<close>

locale mailboxes =
  fixes holds :: "'q \<Rightarrow> ('l \<rightharpoonup> 'o list) \<Rightarrow> bool"
    and put :: "'l \<Rightarrow> 'o \<Rightarrow> ('q, i32) cmd"
    and get :: "'l \<Rightarrow> ('q, 'o) cmd"
    and cap :: nat
  assumes put: "holds q F \<Longrightarrow> F l = Some xs \<Longrightarrow> length xs < cap \<Longrightarrow>
      \<exists>q'. put l x q = (Inr 0, q') \<and> holds q' (F(l \<mapsto> xs @ [x]))"
    and get: "holds q F \<Longrightarrow> F l = Some (x # xs) \<Longrightarrow>
      \<exists>q'. get l q = (Inr x, q') \<and> holds q' (F(l \<mapsto> xs))"
    and get_empty: "holds q F \<Longrightarrow> F l = Some [] \<Longrightarrow> get l q = (Inl Blocked, q)"

text \<open>
  A schedule of sends and receives on several lists. A receive that finds nothing leaves
  the state as it is and is left out of the record of what was received.
\<close>

datatype ('l, 'o) qop = Put 'l 'o | Get 'l

fun run_ops :: "('l \<Rightarrow> 'o \<Rightarrow> ('q, i32) cmd) \<Rightarrow> ('l \<Rightarrow> ('q, 'o) cmd) \<Rightarrow> ('l, 'o) qop list \<Rightarrow> 'q \<Rightarrow> ('l \<times> 'o) list \<times> 'q" where
  "run_ops put get [] q = ([], q)"
| "run_ops put get (Put l x # ops) q = run_ops put get ops (snd (put l x q))"
| "run_ops put get (Get l # ops) q =
     (case get l q of
        (Inr x, q') \<Rightarrow> (case run_ops put get ops q' of (got, q'') \<Rightarrow> ((l, x) # got, q''))
      | (Inl _, q') \<Rightarrow> run_ops put get ops q')"

definition sent :: "'l \<Rightarrow> ('l, 'o) qop list \<Rightarrow> 'o list" where
  "sent l ops = concat (map (\<lambda>p. case p of Put m x \<Rightarrow> if m = l then [x] else [] | Get _ \<Rightarrow> []) ops)"

definition received :: "'l \<Rightarrow> ('l \<times> 'o) list \<Rightarrow> 'o list" where
  "received l got = map snd (filter (\<lambda>p. fst p = l) got)"

fun qop_list :: "('l, 'o) qop \<Rightarrow> 'l" where
  "qop_list (Put l x) = l"
| "qop_list (Get l) = l"

lemma sent_simps [simp]:
  "sent l [] = []"
  "sent l (Put m x # ops) = (if m = l then [x] else []) @ sent l ops"
  "sent l (Get m # ops) = sent l ops"
  by (simp_all add: sent_def)

lemma received_simps [simp]:
  "received l [] = []"
  "received l ((m, x) # got) = (if m = l then [x] else []) @ received l got"
  by (simp_all add: received_def)

context mailboxes
begin

text \<open>
  Whatever the order of sends and receives, each list delivers what was sent to it, in the
  order in which it was sent, with nothing lost, doubled or taken from another list.
\<close>

lemma fifo_order:
  assumes "holds q F" and "\<forall>p \<in> set ops. qop_list p \<in> dom F"
    and "\<forall>l xs. F l = Some xs \<longrightarrow> length xs + length ops \<le> cap"
  shows "\<exists>got q' F'. run_ops put get ops q = (got, q') \<and> holds q' F' \<and> dom F' = dom F \<and>
    (\<forall>l \<in> dom F. received l got @ the (F' l) = the (F l) @ sent l ops)"
  using assms
proof (induction ops arbitrary: q F)
  case Nil
  then show ?case by auto
next
  case (Cons p ops)
  have cap': "\<And>m ys. F m = Some ys \<Longrightarrow> length ys + Suc (length ops) \<le> cap" using Cons.prems(3) by auto
  show ?case
  proof (cases p)
    case (Put l x)
    with Cons.prems obtain xs where xs: "F l = Some xs" by auto
    with cap' have "length xs < cap" by fastforce
    from put [OF Cons.prems(1) xs this] obtain q1 where
      q1: "put l x q = (Inr 0, q1)" "holds q1 (F(l \<mapsto> xs @ [x]))" by blast
    have "\<exists>got q' F'. run_ops put get ops q1 = (got, q') \<and> holds q' F' \<and>
        dom F' = dom (F(l \<mapsto> xs @ [x])) \<and>
        (\<forall>m \<in> dom (F(l \<mapsto> xs @ [x])). received m got @ the (F' m) = the ((F(l \<mapsto> xs @ [x])) m) @ sent m ops)"
          proof (rule Cons.IH [OF q1(2)])
      show "\<forall>p \<in> set ops. qop_list p \<in> dom (F(l \<mapsto> xs @ [x]))" using Cons.prems(2) by auto
      show "\<forall>m ys. (F(l \<mapsto> xs @ [x])) m = Some ys \<longrightarrow> length ys + length ops \<le> cap"
        using cap' [OF xs] by (auto dest: cap' split: if_splits)
    qed
    then obtain got q' F' where r: "run_ops put get ops q1 = (got, q')" "holds q' F'"
        "dom F' = dom (F(l \<mapsto> xs @ [x]))"
        "\<forall>m \<in> dom (F(l \<mapsto> xs @ [x])). received m got @ the (F' m) = the ((F(l \<mapsto> xs @ [x])) m) @ sent m ops"
      by blast
    have "dom F' = dom F" using r(3) xs by auto
    moreover have "\<forall>m \<in> dom F. received m got @ the (F' m) = the (F m) @ sent m (p # ops)"
      using r(4) xs Put by (auto split: if_splits)
    moreover have "run_ops put get (p # ops) q = (got, q')" using q1(1) r(1) Put by simp
    ultimately show ?thesis using r(2) by blast
  next
    case (Get l)
    with Cons.prems obtain xs where xs: "F l = Some xs" by auto
    show ?thesis
    proof (cases xs)
      case Nil
      with get_empty [OF Cons.prems(1)] xs have "get l q = (Inl Blocked, q)" by simp
      moreover have "\<exists>got q' F'. run_ops put get ops q = (got, q') \<and> holds q' F' \<and> dom F' = dom F \<and>
          (\<forall>m \<in> dom F. received m got @ the (F' m) = the (F m) @ sent m ops)"
              proof (rule Cons.IH [OF Cons.prems(1)])
        show "\<forall>p \<in> set ops. qop_list p \<in> dom F" using Cons.prems(2) by simp
        show "\<forall>m ys. F m = Some ys \<longrightarrow> length ys + length ops \<le> cap" by (auto dest: cap')
      qed
      ultimately show ?thesis using Get by auto
    next
      case (Cons y ys)
      with get [OF Cons.prems(1)] xs obtain q1 where
        q1: "get l q = (Inr y, q1)" "holds q1 (F(l \<mapsto> ys))" by blast
      have "\<exists>got q' F'. run_ops put get ops q1 = (got, q') \<and> holds q' F' \<and> dom F' = dom (F(l \<mapsto> ys)) \<and>
          (\<forall>m \<in> dom (F(l \<mapsto> ys)). received m got @ the (F' m) = the ((F(l \<mapsto> ys)) m) @ sent m ops)"
              proof (rule Cons.IH [OF q1(2)])
        show "\<forall>p \<in> set ops. qop_list p \<in> dom (F(l \<mapsto> ys))" using Cons.prems(2) by auto
        show "\<forall>m zs. (F(l \<mapsto> ys)) m = Some zs \<longrightarrow> length zs + length ops \<le> cap"
          using cap' [OF xs] Cons by (auto dest: cap' split: if_splits)
      qed
      then obtain got q' F' where r: "run_ops put get ops q1 = (got, q')" "holds q' F'"
          "dom F' = dom (F(l \<mapsto> ys))"
          "\<forall>m \<in> dom (F(l \<mapsto> ys)). received m got @ the (F' m) = the ((F(l \<mapsto> ys)) m) @ sent m ops"
        by blast
      have "dom F' = dom F" using r(3) xs by auto
      moreover have "\<forall>m \<in> dom F. received m ((l, y) # got) @ the (F' m) = the (F m) @ sent m (p # ops)"
        using r(4) xs Cons Get by (auto split: if_splits)
      moreover have "run_ops put get (p # ops) q = ((l, y) # got, q')" using q1(1) r(1) Get by simp
      ultimately show ?thesis using r(2) by blast
    qed
  qed
qed

end

section \<open>The lists keep the contract\<close>

text \<open>
  Sending and receiving as the server does it: \<open>push_node_to_list(list, create_node(obj))\<close>,
  and a pop whose node is freed once its object is taken.
\<close>

definition send_obj :: "addr \<Rightarrow> addr \<Rightarrow> i32 qcmd" where
  "send_obj l ob = bnd (create_node (Some ob)) (push_node_to_list (Some l))"

definition take_obj :: "addr \<Rightarrow> addr qcmd" where
  "take_obj l =
     bnd (pop_element_from_tail (Some l)) (\<lambda>node.
     bnd (nderef node) (\<lambda>n.
     sq (free_node node)
     (case obj n of None \<Rightarrow> stop Null_deref | Some ob \<Rightarrow> ret ob)))"

text \<open>
  All lists of a heap at once: \<open>N l\<close> are the nodes of the list at \<open>l\<close>, newest first; no
  node is on two lists.
\<close>

definition boxes :: "qheap \<Rightarrow> (addr \<rightharpoonup> addr list) \<Rightarrow> (addr \<Rightarrow> addr list) \<Rightarrow> bool" where
  "boxes q F N \<longleftrightarrow>
     libc_ok (qlibc q) \<and> small_ok (qlibc q) \<and> (\<forall>a \<ge> nfresh q. nodes q a = None) \<and>
     (\<forall>l \<in> dom F. l < lfresh q) \<and>
     (\<forall>l xs. F l = Some xs \<longrightarrow> queue_wf q l (N l) \<and> rev (objs q (N l)) = map Some xs) \<and>
     (\<forall>l \<in> dom F. \<forall>m \<in> dom F. l \<noteq> m \<longrightarrow> set (N l) \<inter> set (N m) = {})"

definition queues :: "qheap \<Rightarrow> (addr \<rightharpoonup> addr list) \<Rightarrow> bool" where
  "queues q F \<longleftrightarrow> (\<exists>N. boxes q F N)"

abbreviation list_cap :: nat where
  "list_cap \<equiv> 2 ^ 32 - 1"

lemma create_node_run:
  assumes "malloc_ok (qlibc q) sizeof_Node"
  shows "create_node (Some ob) q = (Inr (Some (nfresh q)),
    q\<lparr>nfresh := Suc (nfresh q), nodes := (nodes q)(nfresh q \<mapsto> \<lparr>nnext = None, nprev = None, obj = Some ob\<rparr>)\<rparr>)"
  using assms by (simp add: create_node_def sq_def bnd_run)

lemma objs_Cons: "objs q (a # ns) = obj (the (nodes q a)) # objs q ns"
  by (simp add: objs_def)

lemma objs_append: "objs q (ns @ ms) = objs q ns @ objs q ms"
  by (simp add: objs_def)

lemma objs_Nil [simp]: "objs q [] = []"
  by (simp add: objs_def)

lemma length_objs [simp]: "length (objs q ns) = length ns"
  by (simp add: objs_def)

lemma boxesD:
  assumes "boxes q F N" and "F l = Some xs"
  shows "queue_wf q l (N l)" and "rev (objs q (N l)) = map Some xs" and "length (N l) = length xs"
proof -
  show "queue_wf q l (N l)" and o: "rev (objs q (N l)) = map Some xs"
    using assms by (auto simp: boxes_def)
  show "length (N l) = length xs" using arg_cong [OF o, of length] by simp
qed

text \<open>A step on one list, given what it does to its own nodes.\<close>

lemma boxes_step:
  assumes b: "boxes q F N" and l: "F l = Some xs" and fr: "qframe l S q q'"
    and wf: "queue_wf q' l ns" and ob: "rev (objs q' ns) = map Some ys"
    and S: "\<forall>m \<in> dom F. m \<noteq> l \<longrightarrow> set (N m) \<inter> S = {}" and sub: "set ns \<subseteq> S"
  shows "boxes q' (F(l \<mapsto> ys)) (N(l := ns))"
proof -
  have fresh: "\<forall>a \<ge> nfresh q'. nodes q' a = None" using wf by (auto simp: queue_wf_def)
  have other: "queue_wf q' m (N m) \<and> rev (objs q' (N m)) = map Some zs" if "m \<noteq> l" "F m = Some zs" for m zs
    using qframe_other [OF fr boxesD(1) [OF b that(2)] that(1)] boxesD(2) [OF b that(2)] S that
      qframe_objs [OF fr] by auto
  have disj: "set (N m) \<inter> set (N k) = {}" if "m \<in> dom F" "k \<in> dom F" "m \<noteq> k" for m k
    using b that by (auto simp: boxes_def)
  have disjl: "set (N m) \<inter> set ns = {}" if "m \<in> dom F" "m \<noteq> l" for m
    using S sub that by blast
  have "libc_ok (qlibc q')" "small_ok (qlibc q')" "\<forall>m \<in> dom (F(l \<mapsto> ys)). m < lfresh q'"
    using b fr l by (auto simp: boxes_def qframe_def)
  moreover have "\<forall>m zs. (F(l \<mapsto> ys)) m = Some zs \<longrightarrow>
      queue_wf q' m ((N(l := ns)) m) \<and> rev (objs q' ((N(l := ns)) m)) = map Some zs"
    using other wf ob by auto
  moreover have "\<forall>m \<in> dom (F(l \<mapsto> ys)). \<forall>k \<in> dom (F(l \<mapsto> ys)). m \<noteq> k \<longrightarrow>
      set ((N(l := ns)) m) \<inter> set ((N(l := ns)) k) = {}"
    using disj disjl l by (auto simp: Int_commute dom_def)
  ultimately show ?thesis using fresh by (simp add: boxes_def)
qed

lemma boxes_live:
  assumes "boxes q F N" and "F l = Some xs" and "a \<in> set (N l)"
  shows "a < nfresh q"
  by (rule queue_wf_live(2) [OF boxesD(1) [OF assms(1,2)] assms(3)])

lemma boxes_new_node:
  fixes n :: Node
  assumes b: "boxes q F N"
  defines "q1 \<equiv> q\<lparr>nfresh := Suc (nfresh q), nodes := (nodes q)(nfresh q \<mapsto> n)\<rparr>"
  shows "boxes q1 F N"
proof -
  have "queue_wf q1 l (N l) \<and> rev (objs q1 (N l)) = map Some xs" if l: "F l = Some xs" for l xs
  proof -
    have "\<forall>a \<in> set (N l). nodes q1 a = nodes q a"
      using boxes_live [OF b l] by (auto simp: q1_def)
    moreover have "\<forall>a \<ge> nfresh q1. nodes q1 a = None" using b by (auto simp: q1_def boxes_def)
    moreover have "lists q1 l = lists q l" "qlibc q1 = qlibc q" by (simp_all add: q1_def)
    ultimately show ?thesis
      using queue_wf_frame [OF boxesD(1) [OF b l], of q1] boxesD(2) [OF b l] by simp
  qed
  then show ?thesis using b by (auto simp: boxes_def q1_def)
qed

lemma send_obj_run:
  assumes q: "queues q F" and l: "F l = Some xs" and len: "length xs < list_cap"
  shows "\<exists>q'. send_obj l ob q = (Inr 0, q') \<and> queues q' (F(l \<mapsto> xs @ [ob]))"
proof -
  obtain N where b: "boxes q F N" using q by (auto simp: queues_def)
  let ?a = "nfresh q"
  let ?q = "q\<lparr>nfresh := Suc ?a, nodes := (nodes q)(?a \<mapsto> \<lparr>nnext = None, nprev = None, obj = Some ob\<rparr>)\<rparr>"
  have b1: "boxes ?q F N" by (rule boxes_new_node [OF b])
  have out: "?a \<notin> set (N m)" if "m \<in> dom F" for m
    using that boxes_live [OF b, of m _ ?a] by (auto simp: dom_def)
  have len': "Suc (length (N l)) < 2 ^ 32" using boxesD(3) [OF b l] len by simp
  have "l \<in> dom F" using l by auto
  with push_run [OF boxesD(1) [OF b1 l], of ?a] out len' obtain q' where
    q': "push_node_to_list (Some l) (Some ?a) ?q = (Inr 0, q')" "queue_wf q' l (?a # N l)"
      "qframe l (insert ?a (set (N l))) ?q q'" by auto
  have "objs q' (?a # N l) = Some ob # objs ?q (N l)"
    using qframe_objs [OF q'(3), of "?a # N l"] by (simp add: objs_Cons)
  then have "rev (objs q' (?a # N l)) = map Some (xs @ [ob])"
    using boxesD(2) [OF b1 l] by simp
  moreover have "\<forall>m \<in> dom F. m \<noteq> l \<longrightarrow> set (N m) \<inter> insert ?a (set (N l)) = {}"
    using b out \<open>l \<in> dom F\<close> unfolding boxes_def by blast
  ultimately have "boxes q' (F(l \<mapsto> xs @ [ob])) (N(l := ?a # N l))"
    using boxes_step [OF b1 l q'(3,2)] by simp
  moreover have "send_obj l ob q = (Inr 0, q')"
    using q'(1) b small_okD [of "qlibc q" sizeof_Node]
    by (simp add: send_obj_def bnd_run create_node_run boxes_def)
  ultimately show ?thesis by (auto simp: queues_def)
qed

lemma boxes_free_node:
  assumes b: "boxes q F N" and out: "\<And>l. l \<in> dom F \<Longrightarrow> a \<notin> set (N l)"
  shows "boxes (q\<lparr>nodes := (nodes q)(a := None)\<rparr>) F N"
proof -
  let ?q = "q\<lparr>nodes := (nodes q)(a := None)\<rparr>"
  have "queue_wf ?q l (N l) \<and> rev (objs ?q (N l)) = map Some xs" if l: "F l = Some xs" for l xs
  proof -
    have "\<forall>x \<in> set (N l). nodes ?q x = nodes q x" using out l by auto
    moreover have "\<forall>x \<ge> nfresh ?q. nodes ?q x = None" using b by (auto simp: boxes_def)
    ultimately show ?thesis
      using queue_wf_frame [OF boxesD(1) [OF b l], of ?q] boxesD(2) [OF b l] by simp
  qed
  then show ?thesis using b by (auto simp: boxes_def)
qed

lemma take_obj_run:
  assumes q: "queues q F" and l: "F l = Some (x # xs)"
  shows "\<exists>q'. take_obj l q = (Inr x, q') \<and> queues q' (F(l \<mapsto> xs))"
proof -
  obtain N where b: "boxes q F N" using q by (auto simp: queues_def)
  have "length (N l) = Suc (length xs)" using boxesD(3) [OF b l] by simp
  then obtain us a where N: "N l = us @ [a]" by (metis length_0_conv nat.distinct(1) rev_exhaust)
  from pop_run [OF boxesD(1) [OF b l, unfolded N]] obtain q1 n where
    q1: "pop_element_from_tail (Some l) q = (Inr (Some a), q1)" "queue_wf q1 l us"
      "qframe l (insert a (set us)) q q1" "nodes q1 a = Some n" by blast
  have ob: "objs q1 (us @ [a]) = objs q (us @ [a])" by (rule qframe_objs [OF q1(3)])
  then have "obj n # rev (objs q1 us) = map Some (x # xs)"
    using boxesD(2) [OF b l] q1(4) N by (simp add: objs_append objs_Cons)
  then have on: "obj n = Some x" "rev (objs q1 us) = map Some xs" by auto
  have dj: "\<forall>m \<in> dom F. m \<noteq> l \<longrightarrow> set (N m) \<inter> insert a (set us) = {}"
  proof (intro ballI impI)
    fix m assume "m \<in> dom F" "m \<noteq> l"
    moreover have "l \<in> dom F" using l by auto
    ultimately have "set (N m) \<inter> set (N l) = {}" using b unfolding boxes_def by blast
    then show "set (N m) \<inter> insert a (set us) = {}" using N by auto
  qed
  have b1: "boxes q1 (F(l \<mapsto> xs)) (N(l := us))"
    by (rule boxes_step [OF b l q1(3,2) on(2) dj]) auto
  have "a \<notin> set us" using queue_wf_distinct [OF boxesD(1) [OF b l]] N by simp
  then have "boxes (q1\<lparr>nodes := (nodes q1)(a := None)\<rparr>) (F(l \<mapsto> xs)) (N(l := us))"
    using dj by (intro boxes_free_node [OF b1]) auto
  moreover have "take_obj l q = (Inr x, q1\<lparr>nodes := (nodes q1)(a := None)\<rparr>)"
    using q1(1,4) on(1) by (simp add: take_obj_def bnd_run sq_def free_node_def)
  ultimately show ?thesis by (auto simp: queues_def)
qed

lemma take_obj_empty:
  assumes "queues q F" and l: "F l = Some []"
  shows "take_obj l q = (Inl Blocked, q)"
proof -
  obtain N where b: "boxes q F N" using assms by (auto simp: queues_def)
  have "N l = []" using boxesD(3) [OF b l] by simp
  with pop_blocks boxesD(1) [OF b l] show ?thesis by (simp add: take_obj_def bnd_run)
qed

text \<open>A new list is empty and the others stay as they are.\<close>

lemma initList_run:
  assumes q: "queues q F"
  shows "\<exists>q'. initList q = (Inr (Some (lfresh q)), q') \<and> queues q' (F(lfresh q \<mapsto> [])) \<and>
    lfresh q \<notin> dom F"
proof -
  obtain N where b: "boxes q F N" using q by (auto simp: queues_def)
  let ?l = "lfresh q"
  let ?q = "q\<lparr>lfresh := Suc ?l, lists := (lists q)(?l \<mapsto>
    \<lparr>listCond = 0, listLock = False, number_of_nodes = 0, tail = None, list_head = None\<rparr>)\<rparr>"
  have new: "?l \<notin> dom F" using b by (auto simp: boxes_def)
  have lib: "libc_ok (qlibc q)" "small_ok (qlibc q)" using b by (simp_all add: boxes_def)
  have run: "initList q = (Inr (Some ?l), ?q)"
    using lib small_okD [of "qlibc q" sizeof_List] by (simp add: initList_def bnd_run sq_def)
  have "queue_wf ?q m (N m) \<and> rev (objs ?q (N m)) = map Some xs" if m: "F m = Some xs" for m xs
  proof -
    have "m \<noteq> ?l" using m new by auto
    moreover have "\<forall>a \<ge> nfresh q. nodes q a = None" using b by (simp add: boxes_def)
    ultimately show ?thesis
      using queue_wf_frame [OF boxesD(1) [OF b m], of ?q] boxesD(2) [OF b m] by simp
  qed
  moreover have "queue_wf ?q ?l []" using b lib by (simp add: queue_wf_nil boxes_def)
  ultimately have "boxes ?q (F(?l \<mapsto> [])) (N(?l := []))"
    using b new by (auto simp: boxes_def objs_def less_Suc_eq)
  with run new show ?thesis by (auto simp: queues_def)
qed

interpretation mb: mailboxes queues send_obj take_obj list_cap
  by unfold_locales (rule send_obj_run take_obj_run take_obj_empty; assumption)+

end
