(* ===== verification/Workers.thy ===== *)
theory Workers
  imports Utils
begin

text \<open>
  \<^verbatim>\<open>src/server_utils.c\<close>: the count of live workers, which \<open>main\<close> waits on before it cleans
  up, and the signal masks.
\<close>

section \<open>The worker counter\<close>

record workers =
  workerCounter :: u32
  workerCounterLock :: bool
  waitOnworkers :: nat
  wlibc :: libc

type_synonym 'a wcmd = "(workers, 'a) cmd"

abbreviation lock_counter :: "unit wcmd" where
  "lock_counter \<equiv> safe_pthread_mutex_lock wlibc workerCounterLock workerCounterLock_update"

abbreviation unlock_counter :: "unit wcmd" where
  "unlock_counter \<equiv> safe_pthread_mutex_unlock wlibc workerCounterLock_update"

abbreviation signal_workers :: "unit wcmd" where
  "signal_workers \<equiv> safe_pthread_cond_signal wlibc waitOnworkers_update"

definition worker_add :: "unit wcmd" where
  "worker_add =
     sq lock_counter
     (sq (modify (workerCounter_update (\<lambda>n. n + 1)))
     unlock_counter)"

definition worker_sub :: "unit wcmd" where
  "worker_sub =
     sq lock_counter
     (bnd (gets workerCounter) (\<lambda>n.
       if n = 0 then sq signal_workers unlock_counter
       else
         sq (modify (workerCounter_update (\<lambda>n. n - 1)))
         (bnd (gets workerCounter) (\<lambda>n.
          sq (if n = 0 then signal_workers else ret ()) unlock_counter))))"

definition get_worker_number :: "i32 wcmd" where
  "get_worker_number =
     sq lock_counter (bnd (gets workerCounter) (\<lambda>counter. sq unlock_counter (ret counter)))"

definition wait_on_worker_number :: "unit wcmd" where
  "wait_on_worker_number =
     sq lock_counter
     (bnd (gets workerCounter) (\<lambda>n.
       if n \<noteq> 0 then safe_pthread_cond_wait wlibc workerCounterLock_update
       else unlock_counter))"

text \<open>Free, with no failing call.\<close>

definition workers_wf :: "workers \<Rightarrow> bool" where
  "workers_wf w \<longleftrightarrow> \<not> workerCounterLock w \<and> libc_ok (wlibc w)"

lemma counter_release [simp]: "\<not> workerCounterLock w \<Longrightarrow> w\<lparr>workerCounterLock := False\<rparr> = w"
  by (cases w) simp

lemma workers_wf_upd [simp]:
  "workers_wf (w\<lparr>workerCounter := n\<rparr>) = workers_wf w"
  "workers_wf (w\<lparr>waitOnworkers := k\<rparr>) = workers_wf w"
  by (simp_all add: workers_wf_def)

lemma worker_add_run:
  assumes "workers_wf w"
  shows "worker_add w = (Inr (), w\<lparr>workerCounter := workerCounter w + 1\<rparr>)"
proof -
  have "worker_add w = (Inr (), workerCounter_update (\<lambda>n. n + 1) w)"
    using assms by (simp add: worker_add_def sq_def bnd_run workers_wf_def)
  then show ?thesis by simp
qed

lemma worker_sub_run:
  assumes "workers_wf w" and "workerCounter w \<noteq> 0"
  shows "worker_sub w = (Inr (), w\<lparr>workerCounter := workerCounter w - 1,
    waitOnworkers := (if workerCounter w = 1 then Suc (waitOnworkers w) else waitOnworkers w)\<rparr>)"
proof -
  have "worker_sub w = (Inr (), (if workerCounter w = 1
      then waitOnworkers_update Suc (workerCounter_update (\<lambda>n. n - 1) w)
      else workerCounter_update (\<lambda>n. n - 1) w))"
    using assms by (simp add: worker_sub_def sq_def bnd_run workers_wf_def)
  then show ?thesis by simp
qed

lemma get_worker_number_run:
  "workers_wf w \<Longrightarrow> get_worker_number w = (Inr (workerCounter w), w)"
  by (simp add: get_worker_number_def sq_def bnd_run workers_wf_def)

lemma wait_returns:
  "workers_wf w \<Longrightarrow> wait_on_worker_number w = (if workerCounter w = 0 then Inr () else Inl Blocked, w)"
  by (simp add: wait_on_worker_number_def sq_def bnd_run workers_wf_def)

section \<open>Signal masks\<close>

text \<open>
  A signal set is an object of the caller that C passes by value: what a function does to
  its parameter is gone when it returns. The state is the mask of the calling thread; the
  parameters come back unchanged because they are not part of it.
\<close>

datatype sig = SIGHUP | SIGINT | SIGQUIT | SIGPIPE

text \<open>\<open>pthread_sigmask(SIG_BLOCK, set, old)\<close>: the new mask and the value stored in \<open>*old\<close>.\<close>

definition sig_block :: "sig set \<Rightarrow> (sig set, sig set) cmd" where
  "sig_block set' = bnd (gets id) (\<lambda>old. sq (modify (\<lambda>m. m \<union> set')) (ret old))"

definition block_PIPE_SIGINT_SIGQUIT_SIGUP :: "sig set \<Rightarrow> sig set \<Rightarrow> (sig set, unit) cmd" where
  "block_PIPE_SIGINT_SIGQUIT_SIGUP set' old =
     bnd (sig_block (insert SIGPIPE (insert SIGHUP (insert SIGINT (insert SIGQUIT {})))))
       (\<lambda>old'. ret ())"

definition add_SIGPIPE_BLOCK :: "sig set \<Rightarrow> (sig set, unit) cmd" where
  "add_SIGPIPE_BLOCK sigs = (let sigs' = insert SIGPIPE sigs in ret ())"

text \<open>
  The masks \<open>main\<close> sets up: its own thread's mask, which the threads it creates inherit,
  and the mask \<open>pselect\<close> waits with, the variable \<open>oldmask\<close> that was zeroed and then
  passed by value.
\<close>

definition main_masks :: "sig set \<Rightarrow> (fault + unit) \<times> sig set \<times> sig set" where
  "main_masks start =
     (let sigs = {}; oldmask = {} in
      case sq (block_PIPE_SIGINT_SIGQUIT_SIGUP sigs oldmask) (add_SIGPIPE_BLOCK oldmask) start of
        (r, tmask) \<Rightarrow> (r, tmask, oldmask))"

lemma main_masks_run:
  "main_masks start = (Inr (), start \<union> {SIGHUP, SIGINT, SIGQUIT, SIGPIPE}, {})"
  by (auto simp: main_masks_def Let_def sq_def bnd_run block_PIPE_SIGINT_SIGQUIT_SIGUP_def
      add_SIGPIPE_BLOCK_def sig_block_def)

end
