(* ===== verification/Prot.thy ===== *)
theory Prot
  imports Utils
begin

text \<open>
  \<^verbatim>\<open>src/prot.c\<close> and \<^verbatim>\<open>headers/prot.h\<close>: the wire protocol shared by the server and the
  client. A number is the eight bytes of an \<open>unsigned long\<close> as they lie in memory, low
  byte first; a message is its length as a number and then its bytes.
\<close>

section \<open>Operation codes and answers\<close>

abbreviation O_CREATE :: i32 where "O_CREATE \<equiv> 0x01"

abbreviation OPEN_FILE :: i32 where "OPEN_FILE \<equiv> 0x05"
abbreviation CLOSE_FILE :: i32 where "CLOSE_FILE \<equiv> 0x06"
abbreviation READ_FILE :: i32 where "READ_FILE \<equiv> 0x07"
abbreviation WRITE_FILE :: i32 where "WRITE_FILE \<equiv> 0x08"
abbreviation READN_FILE :: i32 where "READN_FILE \<equiv> 0x09"
abbreviation APPEND_FILE :: i32 where "APPEND_FILE \<equiv> 0x0A"
abbreviation REMOVE_FILE :: i32 where "REMOVE_FILE \<equiv> 0x0B"
abbreviation CLOSE_CONNECTION :: i32 where "CLOSE_CONNECTION \<equiv> 0x0C"

abbreviation OK :: i32 where "OK \<equiv> 0x01"
abbreviation NOT_OK :: i32 where "NOT_OK \<equiv> 0x00"
abbreviation INITED :: i32 where "INITED \<equiv> 0x123"
abbreviation CONTINUE :: i32 where "CONTINUE \<equiv> 0x321"
abbreviation NO_CONTINUE :: i32 where "NO_CONTINUE \<equiv> 0x432"

section \<open>Numbers as bytes\<close>

fun le_bytes :: "nat \<Rightarrow> nat \<Rightarrow> char list" where
  "le_bytes 0 n = []"
| "le_bytes (Suc k) n = char_of (n mod 256) # le_bytes k (n div 256)"

fun le_val :: "char list \<Rightarrow> nat" where
  "le_val [] = 0"
| "le_val (c # cs) = of_char c + 256 * le_val cs"

definition num_bytes :: "u64 \<Rightarrow> char list" where
  "num_bytes w = le_bytes 8 (unat w)"

definition bytes_num :: "char list \<Rightarrow> u64" where
  "bytes_num bs = of_nat (le_val bs)"

lemma length_le_bytes [simp]: "length (le_bytes k n) = k"
  by (induction k arbitrary: n) auto

lemma le_val_le_bytes: "le_val (le_bytes k n) = n mod 256 ^ k"
proof (induction k arbitrary: n)
  case 0
  then show ?case by simp
next
  case (Suc k)
  have "of_char (char_of (n mod 256) :: char) = n mod 256" by simp
  with Suc show ?case by (simp add: mod_mult2_eq)
qed

lemma length_num_bytes [simp]: "length (num_bytes w) = 8"
  by (simp add: num_bytes_def)

lemma num_bytes_nonempty [simp]: "num_bytes w \<noteq> []"
  by (metis length_num_bytes list.size(3) zero_neq_numeral)

lemma bytes_num_bytes [simp]: "bytes_num (num_bytes w) = w"
proof -
  have "unat w < 256 ^ 8" using unsigned_less [of w, where ?'a = nat] by simp
  then have "le_val (num_bytes w) = unat w" by (simp add: num_bytes_def le_val_le_bytes)
  then show ?thesis by (simp add: bytes_num_def)
qed

lemma of_char_byte: "(of_char c :: nat) < 256"
  by (metis of_char_mod_256 mod_less_divisor zero_less_numeral)

lemma le_val_less: "le_val cs < 256 ^ length cs"
proof (induction cs)
  case (Cons c cs)
  have "Suc (le_val cs) \<le> 256 ^ length cs" using Cons by simp
  then have le: "256 * Suc (le_val cs) \<le> 256 * 256 ^ length cs" by (rule mult_le_mono2)
  have "of_char c + 256 * le_val cs < 256 * Suc (le_val cs)" using add_strict_right_mono [OF of_char_byte [of c], of "256 * le_val cs"]
    by (simp only: mult_Suc_right)
  then have "of_char c + 256 * le_val cs < 256 * 256 ^ length cs" using le by (rule less_le_trans)
  then show ?case by (simp only: le_val.simps length_Cons power_Suc)
qed simp

lemma le_val_inj: "length us = length vs \<Longrightarrow> le_val us = le_val vs \<Longrightarrow> us = vs"
proof (induction us vs rule: list_induct2)
  case (Cons x us y vs)
  have d: "le_val (c # cs) mod 256 = of_char c" "le_val (c # cs) div 256 = le_val cs" for c cs
    unfolding le_val.simps using of_char_byte [of c] by (simp_all only: mod_mult_self2 mod_less div_mult_self2 div_less)
  have "of_char x = (of_char y :: nat)" "le_val us = le_val vs" using d [of x us] d [of y vs] Cons.prems by metis+
  then show ?case using Cons.IH by simp
qed simp

lemma bytes_num_inj:
  assumes "length us = 8" and "length vs = 8" and "bytes_num us = bytes_num vs"
  shows "us = vs"
proof -
  have "le_val us < 2 ^ 64" "le_val vs < 2 ^ 64" using le_val_less [of us] le_val_less [of vs] assms(1,2) by simp_all
  then have "le_val us = le_val vs" using assms(3)
    by (metis bytes_num_def unat_of_nat_small)
  then show ?thesis using le_val_inj assms(1,2) by simp
qed

section \<open>Sending and receiving\<close>

text \<open>\<open>send\<close> is a write to the socket; the byte count it returns is compared with -1 only.\<close>

definition send_number :: "u64 \<Rightarrow> (sock, int) cmd" where
  "send_number number =
     bnd (sys_write (num_bytes number)) (\<lambda>err.
       case err of None \<Rightarrow> ret (-1) | Some k \<Rightarrow> ret (int k))"

text \<open>
  \<open>recv\<close> may return fewer than eight bytes, or none at the end of the stream; the rest of
  \<open>msg\<close> is then whatever the uninitialised variable held.
\<close>

definition recv_number :: "(sock, u64) cmd" where
  "recv_number =
     bnd (sys_read 8) (\<lambda>got.
       case got of
         None \<Rightarrow> ret 0
       | Some bs \<Rightarrow> bnd (gets junk) (\<lambda>j. ret (bytes_num (take 8 (bs @ drop (length bs) j)))))"

definition send_message :: "char list \<Rightarrow> u64 \<Rightarrow> (sock, int) cmd" where
  "send_message message msg_size =
     bnd (send_number msg_size) (\<lambda>err.
       if err = -1 then stop Exit_failure
       else if length message < unat msg_size then stop Out_of_bounds
       else bnd (writen (take (unat msg_size) message)) (\<lambda>wroteBytes.
         if wroteBytes \<noteq> int (unat msg_size) then ret (-1) else ret 0))"

text \<open>
  \<open>recv_message\<close>: the returned buffer has \<open>msgSize + 1\<close> zeroed bytes, of which the
  first \<open>msgSize\<close> are overwritten with what was read.
\<close>

definition recv_message :: "(sock, char list option) cmd" where
  "recv_message =
     bnd recv_number (\<lambda>msgSize.
       if sint msgSize = -1 then ret None
       else sq (safe_malloc slibc (msgSize + 1))
        (bnd (readn (unat msgSize)) (\<lambda>(byteRead, got).
          if byteRead \<noteq> sint msgSize then ret None
          else ret (Some (got @ [NUL])))))"

text \<open>The text for an error number, and the value assigned to \<open>errno\<close> for an unknown one.\<close>

definition error_to_str :: "i32 \<Rightarrow> string \<times> i32 option" where
  "error_to_str err =
     (if err = ENOENT then (''No file has been found'' @ [CHR 0x0A], None)
      else if err = EEXIST then (''File already exists'' @ [CHR 0x0A], None)
      else if err = EFAULT then (''Buffer not received fully'' @ [CHR 0x0A], None)
      else if err = EACCES then (''File is not open'' @ [CHR 0x0A], None)
      else if err = ENODATA then (''There aren'' @ [CHR 0x27] @ ''t enough files in server'' @ [CHR 0x0A], None)
      else if err = E2BIG then (''File is to big to be wrote in server memory'' @ [CHR 0x0A], None)
      else (''Uncommented error'' @ [CHR 0x0A], Some err))"

section \<open>Round trips\<close>

text \<open>What one end sends when its writes do not fail.\<close>

definition message_segments :: "char list \<Rightarrow> char list list" where
  "message_segments bs = num_bytes (of_nat (length bs)) # (if bs = [] then [] else [bs])"

lemma send_number_run [simp]:
  "wrs s = [] \<Longrightarrow> send_number n s = (Inr 8, s\<lparr>outp := outp s @ [num_bytes n]\<rparr>)"
  by (simp add: send_number_def bnd_run sys_write_def)

lemma send_number_fails [simp]:
  "wrs s = None # ws \<Longrightarrow> send_number n s = (Inr (-1), s\<lparr>wrs := ws\<rparr>)"
  by (simp add: send_number_def bnd_run sys_write_def)

lemma recv_number_run [simp]:
  "inp s = Data (num_bytes n) # es \<Longrightarrow> recv_number s = (Inr n, s\<lparr>inp := es\<rparr>)"
  by (simp add: recv_number_def bnd_run sys_read_def)

lemma recv_number_blocked [simp]:
  "inp s = [] \<Longrightarrow> \<not> peer_closed s \<Longrightarrow> recv_number s = (Inl Blocked, s)"
  by (simp add: recv_number_def bnd_run sys_read_def)

lemma recv_number_error [simp]:
  "inp s = Read_error # es \<Longrightarrow> recv_number s = (Inr 0, s\<lparr>inp := es\<rparr>)"
  by (simp add: recv_number_def bnd_run sys_read_def)

lemma recv_number_eof [simp]:
  "inp s = [] \<Longrightarrow> peer_closed s \<Longrightarrow> recv_number s = (Inr (bytes_num (take 8 (junk s))), s)"
  by (simp add: recv_number_def bnd_run sys_read_def)

lemma send_message_run [simp]:
  assumes "wrs s = []" and "length bs < 2 ^ 64" and "n = of_nat (length bs)"
  shows "send_message bs n s = (Inr 0, s\<lparr>outp := outp s @ message_segments bs\<rparr>)"
proof -
  have "unat n = length bs" using assms(2,3) by (simp add: unat_of_nat)
  with assms show ?thesis
    by (simp add: send_message_def bnd_run writen_all message_segments_def)
qed

lemma recv_message_run:
  assumes "inp s = map Data (message_segments bs) @ es" and "length bs < 2 ^ 63"
    and "malloc_ok (slibc s) (of_nat (length bs) + 1)"
  shows "recv_message s = (Inr (Some (bs @ [NUL])), s\<lparr>inp := es\<rparr>)"
proof -
  let ?n = "of_nat (length bs) :: u64"
  have n: "unat ?n = length bs" using assms(2) by (simp add: unat_of_nat)
  have si: "sint ?n = int (length bs)"
    using assms(2) by (simp add: signed_of_nat signed_take_bit_int_eq_self)
  show ?thesis
  proof (cases "bs = []")
    case True
    with assms(1,3) show ?thesis
      by (simp add: recv_message_def bnd_run sq_def message_segments_def)
  next
    case False
    let ?s = "s\<lparr>inp := Data bs # es\<rparr>"
    have "recv_number s = (Inr ?n, ?s)"
      using assms(1) False by (simp add: message_segments_def)
    moreover have "readn (length bs) ?s = (Inr (int (length bs), bs), s\<lparr>inp := es\<rparr>)"
      using False by (simp add: readn_whole)
    ultimately show ?thesis
      using assms(3) by (simp add: recv_message_def bnd_run sq_def n si)
  qed
qed

end
