(* ===== verification/Server.thy ===== *)
theory Server
  imports Cache_Alg Mailbox Workers Prot
begin

text \<open>
  \<^verbatim>\<open>src/server.c\<close>: the jobs, the worker threads that serve them one operation per case of
  the switch, the client threads that turn requests into jobs and answers into bytes, and
  \<open>main\<close>. A function is one thread's run; the interleavings of the threads are in
  \<open>Threads\<close>.
\<close>

section \<open>Jobs and the server's state\<close>

record Job =
  op :: i32
  flags :: i32
  jfilename :: string
  client_queue :: "addr option"
  jerr :: i32
  status_request :: i32
  client_fd :: nat

text \<open>
  Threads that were created: a client thread is handed a pointer to the variable \<open>args\<close>
  of \<open>main\<close>'s loop and reads it when it starts to run.
\<close>

datatype thread = Worker_thread | Client_thread

text \<open>
  \<open>args_slot\<close> is that variable, which has the same place in every round of the loop.
  \<open>masks\<close> are the signal mask of the threads and the one \<open>pselect\<close> waits with.
  The globals, the heaps of jobs and lists, and one socket per descriptor. \<open>errno\<close> is per
  thread in the code; the one in \<open>mem\<close> is that of the thread that runs, and every operation
  sets it before reading it.
\<close>

record srv =
  mem :: mem_state
  qs :: qheap
  jobs :: "addr \<rightharpoonup> Job"
  jfresh :: addr
  socks :: "nat \<Rightarrow> sock"
  conf :: config_t
  workList :: "addr option"
  serverMode :: i32
  wk :: workers
  args_slot :: "nat \<times> addr option"
  threads :: "thread list"
  masks :: "sig set \<times> sig set"

type_synonym 'a scmd = "(srv, 'a) cmd"

abbreviation ON :: i32 where "ON \<equiv> 0x01"
abbreviation OFF :: i32 where "OFF \<equiv> 0x00"
abbreviation GRACEFUL :: i32 where "GRACEFUL \<equiv> 0x02"
abbreviation END_WORKER :: i32 where "END_WORKER \<equiv> 0x987"

abbreviation in_mem :: "'a mcmd \<Rightarrow> 'a scmd" where "in_mem \<equiv> zoom mem mem_update"
abbreviation in_qs :: "'a qcmd \<Rightarrow> 'a scmd" where "in_qs \<equiv> zoom qs qs_update"
abbreviation in_wk :: "'a wcmd \<Rightarrow> 'a scmd" where "in_wk \<equiv> zoom wk wk_update"

definition on_sock :: "nat \<Rightarrow> (sock, 'a) cmd \<Rightarrow> 'a scmd" where
  "on_sock fd m = (\<lambda>s. case m (socks s fd) of (r, t) \<Rightarrow> (r, s\<lparr>socks := (socks s)(fd := t)\<rparr>))"

abbreviation slog :: "string \<Rightarrow> log_arg list \<Rightarrow> unit scmd" where
  "slog format args \<equiv> in_mem (mlog format args)"

text \<open>\<open>send_number\<close> clears \<open>errno\<close> first; \<open>error_handling_minus\<close> ends the process on -1.\<close>

definition s_send_number :: "nat \<Rightarrow> u64 \<Rightarrow> int scmd" where
  "s_send_number fd n = sq (in_mem (set_errno 0)) (on_sock fd (send_number n))"

definition s_send_message :: "nat \<Rightarrow> char list \<Rightarrow> u64 \<Rightarrow> int scmd" where
  "s_send_message fd bs n = sq (in_mem (set_errno 0)) (on_sock fd (send_message bs n))"

definition error_handling_minus :: "int \<Rightarrow> unit scmd" where
  "error_handling_minus e = (if e = -1 then stop Exit_failure else ret ())"

abbreviation send_checked :: "nat \<Rightarrow> u64 \<Rightarrow> unit scmd" where
  "send_checked fd n \<equiv> bnd (s_send_number fd n) error_handling_minus"

definition jderef :: "addr option \<Rightarrow> Job scmd" where
  "jderef p =
     (case p of
        None \<Rightarrow> stop Null_deref
      | Some j \<Rightarrow> bnd (gets jobs) (\<lambda>h. case h j of None \<Rightarrow> stop Use_after_free | Some w \<Rightarrow> ret w))"

definition jput :: "addr option \<Rightarrow> (Job \<Rightarrow> Job) \<Rightarrow> unit scmd" where
  "jput p u = bnd (jderef p) (\<lambda>w. modify (jobs_update (\<lambda>h. h(the p \<mapsto> u w))))"

definition free_job :: "addr option \<Rightarrow> unit scmd" where
  "free_job p = (case p of None \<Rightarrow> ret () | Some j \<Rightarrow> modify (jobs_update (\<lambda>h. h(j := None))))"

section \<open>Creating work and answering\<close>

abbreviation sizeof_Job :: u64 where "sizeof_Job \<equiv> 288"

text \<open>
  \<open>jobInit\<close> copies the characters of the name into zeroed memory. \<open>name\<close> is the buffer a
  message was received into; the string in it ends at the first NUL.
\<close>

definition jobInit :: "i32 \<Rightarrow> i32 \<Rightarrow> char list option \<Rightarrow> addr option \<Rightarrow> nat \<Rightarrow> addr option scmd" where
  "jobInit opc flgs name queue fd =
     (case name of
        None \<Rightarrow> ret None
      | Some nm \<Rightarrow>
          if queue = None then ret None
          else sq (safe_malloc (\<lambda>s. qlibc (qs s)) sizeof_Job)
           (if length (cstr nm) \<ge> MAXNAME then ret None
            else bnd (gets jfresh) (\<lambda>j.
              sq (modify (\<lambda>s. s\<lparr>jfresh := Suc j, jobs := (jobs s)(j \<mapsto>
                   \<lparr>op = opc, flags = flgs, jfilename = cstr nm, client_queue = queue, jerr = INITED,
                    status_request = INITED, client_fd = fd\<rparr>)\<rparr>))
              (ret (Some j)))))"

definition create_work :: "addr option \<Rightarrow> addr option scmd" where
  "create_work job = (if job = None then ret None else in_qs (create_node job))"

fun flood_list :: "addr option \<Rightarrow> nat \<Rightarrow> unit scmd" where
  "flood_list list 0 = ret ()"
| "flood_list list (Suc n) =
     bnd (jobInit END_WORKER 0 (Some ''Nop'') list 123) (\<lambda>job.
     bnd (create_work job) (\<lambda>work.
     bnd (in_qs (push_node_to_list list work)) (\<lambda>_.
     flood_list list n)))"

definition send_response :: "addr option \<Rightarrow> i32 scmd" where
  "send_response resp =
     bnd (jderef resp) (\<lambda>w.
     bnd (s_send_number (client_fd w) (widen (status_request w))) (\<lambda>err.
       if err < 0 then ret (-1)
       else bnd (s_send_number (client_fd w) (widen (jerr w))) (\<lambda>err.
         if err < 0 then ret (-1) else ret 0)))"

text \<open>How a case of the switch ends: with \<open>continue\<close>, or with the thread's exit.\<close>

datatype wctl = Next_job | Exit_thread

definition set_response_for_client_and_push :: "addr option \<Rightarrow> i32 \<Rightarrow> i32 \<Rightarrow> unit scmd" where
  "set_response_for_client_and_push job error status =
     sq (jput job (\<lambda>w. w\<lparr>jerr := error, status_request := status\<rparr>))
     (bnd (create_work job) (\<lambda>resp_to.
      bnd (jderef job) (\<lambda>w.
      bnd (in_qs (push_node_to_list (client_queue w) resp_to)) (\<lambda>_. ret ()))))"

abbreviation answer :: "addr option \<Rightarrow> i32 \<Rightarrow> i32 \<Rightarrow> wctl scmd" where
  "answer job error status \<equiv> sq (set_response_for_client_and_push job error status) (ret Next_job)"

section \<open>The cases of the worker's switch\<close>

definition case_open_create :: "addr option \<Rightarrow> Job \<Rightarrow> wctl scmd" where
  "case_open_create job w =
     sq (slog (line ''Requested create file from client!'') [])
     (bnd (in_mem (inMem (Some (jfilename w)))) (\<lambda>r.
       if r = 1 then answer job EEXIST NOT_OK
       else
         sq (in_mem (cache_algorithm 1 0))
         (bnd (gets (\<lambda>s. errno (mem s))) (\<lambda>e.
          sq (if e = ECANCELED
              then slog (line ''Action is legal, cache algorithm not initiated'') [] else ret ())
          (bnd (in_mem (create_file (jfilename w))) (\<lambda>file.
            if file = None then stop Exit_failure
            else
              bnd (in_mem (add_file_to_memory file)) (\<lambda>_.
              bnd (in_mem (deref file)) (\<lambda>f.
              sq (slog (line ''File %s has been created'') [LS (filename f)])
              (sq (in_mem (set_file_open file))
              (answer job 0 OK))))))))))"

definition case_open :: "addr option \<Rightarrow> Job \<Rightarrow> wctl scmd" where
  "case_open job w =
     (if flags w = O_CREATE then case_open_create job w
      else
        sq (slog (line ''Requested open file from client! File : %s'') [LS (jfilename w)])
        (bnd (in_mem (inMem (Some (jfilename w)))) (\<lambda>r.
          if r = 0 then answer job ENOENT NOT_OK
          else
            bnd (gets conf) (\<lambda>c.
            bnd (in_mem (find_file (Some (jfilename w)) (policy c))) (\<lambda>file.
            sq (in_mem (set_file_open file))
            (answer job 0 OK))))))"

text \<open>
  The file's bytes go out under its lock; \<open>_IO_buf_base\<close> is the buffer of the memory
  stream, the written content.
\<close>

definition case_read :: "addr option \<Rightarrow> Job \<Rightarrow> wctl scmd" where
  "case_read job w =
     bnd (gets conf) (\<lambda>c.
     bnd (in_mem (find_file (Some (jfilename w)) (policy c))) (\<lambda>file.
       if file = None then
         sq (send_checked (client_fd w) (widen NO_CONTINUE))
         (answer job ENOENT NOT_OK)
       else
         sq (slog (line ''Request to read file from client %s'') [LS (jfilename w)])
         (sq (send_checked (client_fd w) (widen CONTINUE))
         (bnd (in_mem (deref file)) (\<lambda>f.
           if isOpen f \<noteq> 0 then
             sq (send_checked (client_fd w) (widen CONTINUE))
             (sq (send_checked (client_fd w) (usedMemory f))
             (sq (in_mem (lock_file file))
             (bnd (in_mem (deref file)) (\<lambda>f.
             bnd (s_send_message (client_fd w) (buffer f) (usedMemory f)) (\<lambda>err.
             sq (in_mem (unlock_file file))
             (sq (slog (line ''Sent %zu bytes to client, filename : %s'') [LN (usedMemory f), LS (filename f)])
             (sq (error_handling_minus err)
             (answer job 0 OK))))))))
           else
             sq (send_checked (client_fd w) (widen NO_CONTINUE))
             (answer job EACCES NOT_OK))))))"

text \<open>The case has no \<open>continue\<close> at its end and runs into the next one.\<close>

definition case_close :: "addr option \<Rightarrow> Job \<Rightarrow> wctl scmd" where
  "case_close job w =
     bnd (gets conf) (\<lambda>c.
     bnd (in_mem (find_file (Some (jfilename w)) (policy c))) (\<lambda>file.
       if file = None then answer job ENOENT NOT_OK
       else
         sq (in_mem (set_file_close file))
         (bnd (in_mem (deref file)) (\<lambda>f.
         sq (slog (line ''File %s has been closed'') [LS (filename f)])
         (sq (set_response_for_client_and_push job 0 OK)
         (case_read job w))))))"

definition case_write :: "addr option \<Rightarrow> Job \<Rightarrow> wctl scmd" where
  "case_write job w =
     bnd (gets conf) (\<lambda>c.
     bnd (in_mem (find_file (Some (jfilename w)) (policy c))) (\<lambda>file.
     sq (slog (line ''Requested write file from client File : %s'') [LS (jfilename w)])
     (if file = None then
        sq (send_checked (client_fd w) (widen NOT_OK))
        (answer job ENONET NOT_OK)
      else
        sq (send_checked (client_fd w) (widen CONTINUE))
        (bnd (on_sock (client_fd w) recv_number) (\<lambda>byteToWrite.
         sq (in_mem (cache_algorithm 0 byteToWrite))
         (bnd (gets (\<lambda>s. errno (mem s))) (\<lambda>e.
           if e = E2BIG then
             sq (send_checked (client_fd w) (widen NO_CONTINUE))
             (answer job E2BIG NOT_OK)
           else
             sq (send_checked (client_fd w) (widen CONTINUE))
             (bnd (on_sock (client_fd w) recv_message) (\<lambda>msg.
               case msg of
                 None \<Rightarrow> answer job EFAULT NOT_OK
               | Some buf \<Rightarrow>
                   bnd (in_mem (find_file (Some (jfilename w)) FIFO)) (\<lambda>file.
                     if file = None then
                       sq (send_checked (client_fd w) (widen NOT_OK))
                       (answer job ENOENT NOT_OK)
                     else
                       bnd (s_send_number (client_fd w) (widen CONTINUE)) (\<lambda>_.
                       bnd (in_mem (write_to_file file buf byteToWrite)) (\<lambda>_.
                       bnd (in_mem (deref file)) (\<lambda>f.
                       sq (slog (line ''Wrote %zu bytes to server, filename: %s'')
                            [LN (usedMemory f), LS (filename f)])
                       (answer job 0 OK))))))))))))))"

definition case_append :: "addr option \<Rightarrow> Job \<Rightarrow> wctl scmd" where
  "case_append job w =
     bnd (gets conf) (\<lambda>c.
     bnd (in_mem (find_file (Some (jfilename w)) (policy c))) (\<lambda>file.
     if file = None then
       sq (send_checked (client_fd w) (widen NOT_OK))
       (answer job ENONET NOT_OK)
     else
       sq (send_checked (client_fd w) (widen CONTINUE))
       (bnd (on_sock (client_fd w) recv_number) (\<lambda>byteToWrite.
        sq (in_mem (cache_algorithm 0 byteToWrite))
        (bnd (gets (\<lambda>s. errno (mem s))) (\<lambda>e.
          if e = E2BIG then
            sq (send_checked (client_fd w) (widen NO_CONTINUE))
            (answer job E2BIG NOT_OK)
          else
            bnd (on_sock (client_fd w) recv_message) (\<lambda>msg.
              case msg of
                None \<Rightarrow> answer job EFAULT NOT_OK
              | Some buf \<Rightarrow>
                  bnd (in_mem (write_to_file file buf byteToWrite)) (\<lambda>_.
                  bnd (in_mem (deref file)) (\<lambda>f.
                  sq (slog (line ''Wrote %zu bytes to server, filename: %s'')
                       [LN (usedMemory f), LS (filename f)])
                  (answer job 0 OK))))))))))"

text \<open>\<open>readn_files\<close>: the loop of \<open>READN_FILE\<close> with the rounds that are left.\<close>

fun readn_files :: "nat \<Rightarrow> nat \<Rightarrow> addr option \<Rightarrow> unit scmd" where
  "readn_files 0 fd file = ret ()"
| "readn_files (Suc k) fd file =
     bnd (in_mem (deref file)) (\<lambda>f.
     sq (bnd (s_send_message fd (buffer f) (usedMemory f)) error_handling_minus)
     (sq (send_checked fd (usedMemory f))
     (sq (slog (line ''Sent %zu bytes to client, filename : %s'') [LN (usedMemory f), LS (filename f)])
     (bnd (in_mem (next_file file)) (readn_files k fd)))))"

text \<open>
  The comparison of the \<open>int\<close> with the \<open>unsigned int\<close> is unsigned; sending the latter
  as an \<open>unsigned long\<close> extends it with zeros, the former with its sign.
\<close>

definition readn_send_count :: "Job \<Rightarrow> u32 \<Rightarrow> i32 scmd" where
  "readn_send_count w actual_files =
     (if flags w > actual_files
      then sq (send_checked (client_fd w) (ucast actual_files)) (ret actual_files)
      else let n = (if flags w = 0 then actual_files else flags w)
           in sq (send_checked (client_fd w) (widen n)) (ret n))"

definition case_readn :: "addr option \<Rightarrow> Job \<Rightarrow> wctl scmd" where
  "case_readn job w =
     bnd (in_mem get_actual_files) (\<lambda>actual_files.
       if actual_files = 0 then
         sq (send_checked (client_fd w) (widen NO_CONTINUE))
         (answer job ENODATA NOT_OK)
       else
         bnd (readn_send_count w actual_files) (\<lambda>number_of_files.
         bnd (in_mem get_head) (\<lambda>file.
           if file = None then
             sq (slog (line ''Trying to get head ,but there is no head'') [])
             (sq (send_checked (client_fd w) (widen NO_CONTINUE))
             (answer job ENODATA NOT_OK))
           else
             sq (send_checked (client_fd w) (widen CONTINUE))
             (sq (readn_files (nat (sint number_of_files)) (client_fd w) file)
             (answer job 0 OK)))))"

definition case_remove :: "addr option \<Rightarrow> Job \<Rightarrow> wctl scmd" where
  "case_remove job w =
     bnd (gets conf) (\<lambda>c.
     bnd (in_mem (find_file (Some (jfilename w)) (policy c))) (\<lambda>file.
       if file = None then bnd (gets (\<lambda>s. errno (mem s))) (\<lambda>e. answer job e NOT_OK)
       else
         bnd (in_mem (deref file)) (\<lambda>f.
         sq (slog (line ''Removing file %s '') [LS (filename f)])
         (bnd (in_mem (remove_generic_file file)) (\<lambda>err.
         sq (error_handling_minus (sint err))
         (answer job 0 OK))))))"

definition case_close_connection :: "addr option \<Rightarrow> wctl scmd" where
  "case_close_connection job =
     sq (set_response_for_client_and_push job 0 OK)
     (sq (slog (line ''Closing client connection!'') [])
     (ret Next_job))"

definition case_end_worker :: "addr option \<Rightarrow> wctl scmd" where
  "case_end_worker job = sq (free_job job) (sq (in_wk worker_sub) (ret Exit_thread))"

text \<open>An operation code with no case leaves the switch, and the thread ends.\<close>

definition serve :: "addr option \<Rightarrow> wctl scmd" where
  "serve job =
     bnd (jderef job) (\<lambda>w.
       if op w = OPEN_FILE then case_open job w
       else if op w = CLOSE_FILE then case_close job w
       else if op w = READ_FILE then case_read job w
       else if op w = WRITE_FILE then case_write job w
       else if op w = APPEND_FILE then case_append job w
       else if op w = READN_FILE then case_readn job w
       else if op w = REMOVE_FILE then case_remove job w
       else if op w = CLOSE_CONNECTION then case_close_connection job
       else if op w = END_WORKER then case_end_worker job
       else sq (in_wk worker_sub) (ret Exit_thread))"

section \<open>The threads\<close>

text \<open>
  The worker's loop: it takes the oldest job of the work list, or finds that it has to end;
  it serves the job; and the loop with the rounds it may still make. Between the two halves
  of a round the job is in the worker's hands only.
\<close>

definition worker_take :: "addr option scmd" where
  "worker_take =
     bnd (gets serverMode) (\<lambda>mode.
       if mode = OFF then ret None
       else
         bnd (gets workList) (\<lambda>wl.
         bnd (in_qs (pop_element_from_tail wl)) (\<lambda>node.
           if node = None then sq (in_wk worker_sub) (ret None)
           else
             bnd (gets serverMode) (\<lambda>mode.
               if mode \<noteq> OFF then
                 bnd (in_qs (nderef node)) (\<lambda>n.
                   if obj n = None then stop Exit_failure
                   else sq (in_qs (free_node node)) (ret (obj n)))
               else sq (in_wk worker_sub) (ret None)))))"

definition worker_round :: "wctl scmd" where
  "worker_round = bnd worker_take (\<lambda>job. if job = None then ret Exit_thread else serve job)"

fun worker_loop :: "nat \<Rightarrow> unit scmd" where
  "worker_loop 0 = stop Diverges"
| "worker_loop (Suc k) =
     bnd worker_round (\<lambda>c. case c of Exit_thread \<Rightarrow> ret () | Next_job \<Rightarrow> worker_loop k)"

definition worker_thread :: "nat \<Rightarrow> unit scmd" where
  "worker_thread fuel =
     sq (in_wk worker_add)
     (bnd (gets workList) (\<lambda>wl. if wl = None then stop Exit_failure else worker_loop fuel))"

text \<open>
  A client thread up to the push of the job, and from the answer on. \<open>client_request\<close>
  returns whether a job was pushed; \<open>client_response\<close> whether the thread goes on.
\<close>

definition client_request :: "nat \<Rightarrow> addr option \<Rightarrow> bool scmd" where
  "client_request fd list =
     bnd (on_sock fd recv_number) (\<lambda>opc.
     bnd (on_sock fd recv_message) (\<lambda>msg.
     bnd (on_sock fd recv_number) (\<lambda>flgs.
       if msg = None then ret False
       else
         bnd (jobInit (narrow opc) (narrow flgs) msg list fd) (\<lambda>job.
         bnd (create_work job) (\<lambda>work.
         bnd (gets workList) (\<lambda>wl.
         bnd (in_qs (push_node_to_list wl work)) (\<lambda>err.
           if sint err < 0 then stop Exit_failure else ret True)))))))"

definition client_response :: "addr option \<Rightarrow> bool scmd" where
  "client_response list =
     bnd (in_qs (pop_element_from_tail list)) (\<lambda>done'.
     bnd (in_qs (nderef done')) (\<lambda>n.
     bnd (jderef (obj n)) (\<lambda>w.
     bnd (send_response (obj n)) (\<lambda>err.
     sq (if sint err < 0
         then slog (line ''Error sending response to client %d, OP : %d failed'')
                [LN (of_nat (client_fd w)), LN (widen (op w))]
         else ret ())
     (sq (in_qs (free_node done'))
     (sq (free_job (obj n))
     (if op w = CLOSE_CONNECTION
      then sq (in_qs (free_list list)) (ret False)
      else ret True)))))))"

fun client_loop :: "nat \<Rightarrow> nat \<Rightarrow> addr option \<Rightarrow> unit scmd" where
  "client_loop 0 fd list = stop Diverges"
| "client_loop (Suc k) fd list =
     bnd (gets serverMode) (\<lambda>mode.
       if mode = OFF then ret ()
       else
         bnd (client_request fd list) (\<lambda>pushed.
           if \<not> pushed then client_loop k fd list
           else bnd (client_response list) (\<lambda>go. if go then client_loop k fd list else ret ())))"

definition client_thread :: "nat \<Rightarrow> nat \<Rightarrow> addr option \<Rightarrow> unit scmd" where
  "client_thread fuel fd queue_of_response = client_loop fuel fd queue_of_response"

section \<open>Signals, start and end\<close>

definition handle_graceful :: "unit scmd" where
  "handle_graceful = modify (serverMode_update (\<lambda>_. GRACEFUL))"

definition handle_shutdown :: "unit scmd" where
  "handle_shutdown = modify (serverMode_update (\<lambda>_. OFF))"

text \<open>
  \<open>main\<close> up to the loop. \<open>fopen_r\<close> and \<open>fopen_w\<close> are the file system, the three
  flags whether \<open>socket\<close>, \<open>bind\<close> and \<open>listen\<close> succeed. The result is the status
  \<open>main\<close> returns with when it ends early.
\<close>

fun create_workers :: "nat \<Rightarrow> unit scmd" where
  "create_workers 0 = ret ()"
| "create_workers (Suc n) =
     sq (safe_pthread_create (\<lambda>s. qlibc (qs s)) (threads_update (\<lambda>ts. ts @ [Worker_thread])) True)
     (create_workers n)"

definition main_config :: "(string \<Rightarrow> (string \<times> bool) option) \<Rightarrow> (string \<Rightarrow> bool) \<Rightarrow> string list \<Rightarrow> unit scmd" where
  "main_config fopen_r fopen_w argv =
     (if length argv > 2 then stop Exit_failure
      else
        bnd (gets conf) (\<lambda>c0.
          case get_config fopen_r (if length argv = 1 then ''config.txt'' else argv ! 1) c0 of (r, c) \<Rightarrow>
          sq (modify (conf_update (\<lambda>_. c)))
          (if r = -1 then stop Exit_failure
           else
             bnd (zoom mem mem_update (zoom logst logst_update (initLogfile fopen_w (Some (log_path c))))) (\<lambda>err.
               if err = -1 then stop Exit_failure
               else
                 sq (slog (line ''Logging started successfully'') [])
                 (sq (slog (if policy c = LRU then line ''LRU Policy has been chosen''
                            else line ''FIFO Policy has been chosen'') [])
                 (sq (in_mem (initMemory c))
                 (bnd (in_qs initList) (\<lambda>l. modify (workList_update (\<lambda>_. l))))))))))"

definition main_socket :: "i32 \<Rightarrow> bool \<Rightarrow> bool \<Rightarrow> bool \<Rightarrow> i32 option scmd" where
  "main_socket pid socket_ok bind_ok listen_ok =
     (if \<not> socket_ok
      then sq (slog ''Closing server : Cannot create socket'' []) (stop Exit_failure)
      else
        sq (slog (line ''Setting up socket...'') [])
        (if \<not> bind_ok then ret (Some (-1))
         else
           sq (slog (line ''Binded socket!'') [])
           (if \<not> listen_ok then sq (slog (line ''Error listening on socket'') []) (stop Exit_failure)
            else
              sq (modify (masks_update (\<lambda>m. snd (main_masks (fst m)))))
              (bnd (gets conf) (\<lambda>c.
              sq (create_workers (unat (Nslaves c)))
              (sq (in_mem (printf (line ''%d'') [LN (widen pid)]))
              (ret None)))))))"

text \<open>
  A round of \<open>main\<close>'s loop in mode \<open>ON\<close> waits in \<open>pselect\<close>. It comes back because a
  client can be accepted (\<open>accept\<close> gives a descriptor or fails), because a signal
  interrupted it, whose handler has then run, or with another error.
\<close>

datatype pevent = Ready "nat option" | Interrupted sig | Select_error

definition signal_handler :: "sig \<Rightarrow> unit scmd" where
  "signal_handler g =
     (case g of SIGHUP \<Rightarrow> handle_graceful | SIGINT \<Rightarrow> handle_shutdown | SIGQUIT \<Rightarrow> handle_shutdown
      | SIGPIPE \<Rightarrow> stop Exit_failure)"

definition main_accept :: "nat option \<Rightarrow> unit scmd" where
  "main_accept accepted =
     (case accepted of
        None \<Rightarrow> stop Exit_failure
      | Some fd \<Rightarrow>
          sq (slog ''Client connected!'' [])
          (bnd (in_qs initList) (\<lambda>l.
          sq (modify (args_slot_update (\<lambda>_. (fd, l))))
          (safe_pthread_create (\<lambda>s. qlibc (qs s)) (threads_update (\<lambda>ts. ts @ [Client_thread])) True))))"

text \<open>The jobs that end the workers go behind the work that is already in the list.\<close>

definition main_flood :: "unit scmd" where
  "main_flood =
     sq (slog (line ''Arrived SIGHUP!'') [])
     (bnd (gets workList) (\<lambda>wl. bnd (gets conf) (\<lambda>c.
     sq (flood_list wl (unat (Nslaves c)))
     (in_qs (wake_up_all_readers wl)))))"

text \<open>A round returns whether the loop is left by \<open>break\<close>.\<close>

definition main_round :: "pevent \<Rightarrow> bool scmd" where
  "main_round ev =
     sq (case ev of
           Ready _ \<Rightarrow> ret () | Interrupted g \<Rightarrow> signal_handler g | Select_error \<Rightarrow> stop Exit_failure)
     (bnd (gets serverMode) (\<lambda>mode.
      sq (if mode = ON
          then main_accept (case ev of Ready a \<Rightarrow> a | Interrupted _ \<Rightarrow> None | Select_error \<Rightarrow> None)
          else ret ())
      (bnd (gets serverMode) (\<lambda>mode.
       if mode = GRACEFUL then sq main_flood (sq (in_wk wait_on_worker_number) (ret True))
       else ret False))))"

definition main_finish :: "i32 \<Rightarrow> unit scmd" where
  "main_finish pid =
     sq (in_mem printFiles)
     (sq (in_mem (print_server_general pid))
     (sq (in_mem clean_cache)
     (bnd (in_mem (zoom logst logst_update closeLog)) (\<lambda>_.
     bnd (gets workList) (\<lambda>wl.
     sq (in_qs (free_list wl))
     (modify (workList_update (\<lambda>_. None))))))))"

fun main_loop :: "pevent list \<Rightarrow> unit scmd" where
  "main_loop [] = bnd (gets serverMode) (\<lambda>mode. if mode = OFF then ret () else stop Blocked)"
| "main_loop (ev # evs) =
     bnd (gets serverMode) (\<lambda>mode.
       if mode = OFF then ret ()
       else bnd (main_round ev) (\<lambda>left. if left then ret () else main_loop evs))"

text \<open>A client thread that starts to run reads \<open>args\<close>.\<close>

definition client_start :: "(nat \<times> addr option) scmd" where
  "client_start = gets args_slot"

end
