(* ===== verification/Store.thy ===== *)
theory Store
  imports Cache_Alg
begin

text \<open>
  The file cache as its callers in \<^verbatim>\<open>src/server.c\<close> see it: a list of named files, newest
  first, and operations on a file reached by its name. The laws of the operations are the
  locale \<open>file_store\<close>, interpreted on the functions of \<open>Memory\<close>; what the server's
  operations do to the list of files is proved from the laws.
\<close>

section \<open>The list of files\<close>

definition has_file :: "string \<Rightarrow> cfile list \<Rightarrow> bool" where
  "has_file nm fs \<longleftrightarrow> nm \<in> cname ` set fs"

text \<open>Using a file moves it to the front under \<open>LRU\<close>.\<close>

definition touch :: "cache_policy_t \<Rightarrow> string \<Rightarrow> cfile list \<Rightarrow> cfile list" where
  "touch pol nm fs =
     (case pol of
        FIFO \<Rightarrow> fs
      | LRU \<Rightarrow> filter (\<lambda>c. cname c = nm) fs @ filter (\<lambda>c. cname c \<noteq> nm) fs)"

definition edit :: "string \<Rightarrow> (cfile \<Rightarrow> cfile) \<Rightarrow> cfile list \<Rightarrow> cfile list" where
  "edit nm u fs = map (\<lambda>c. if cname c = nm then u c else c) fs"

definition without :: "string \<Rightarrow> cfile list \<Rightarrow> cfile list" where
  "without nm fs = filter (\<lambda>c. cname c \<noteq> nm) fs"

text \<open>The file of that name.\<close>

definition lookup_file :: "string \<Rightarrow> cfile list \<Rightarrow> cfile option" where
  "lookup_file nm fs = find (\<lambda>c. cname c = nm) fs"

lemma has_file_touch [simp]: "has_file x (touch pol nm fs) = has_file x fs"
  by (cases pol) (auto simp: has_file_def touch_def)

lemma content_bytes_touch [simp]: "content_bytes (touch pol nm fs) = content_bytes fs"
proof -
  have "sum_list (map f (filter P fs @ filter (\<lambda>x. \<not> P x) fs)) = sum_list (map f fs)"
    for f :: "cfile \<Rightarrow> nat" and P by (induction fs) auto
  then show ?thesis by (simp add: content_bytes_def touch_def split: cache_policy_t.split)
qed

lemma length_touch [simp]: "length (touch pol nm fs) = length fs"
  using sum_length_filter_compl [of "\<lambda>c. cname c = nm" fs] by (simp add: touch_def split: cache_policy_t.split)

lemma set_touch [simp]: "set (touch pol nm fs) = set fs"
  by (auto simp: touch_def split: cache_policy_t.split)

lemma length_edit [simp]: "length (edit nm u fs) = length fs"
  by (simp add: edit_def)

lemma edit_absent: "\<not> has_file nm fs \<Longrightarrow> edit nm u fs = fs"
  by (induction fs) (auto simp: edit_def has_file_def)

lemma lookup_file_iff: "has_file nm fs \<longleftrightarrow> lookup_file nm fs \<noteq> None"
  by (auto simp: has_file_def lookup_file_def find_None_iff)

lemma lookup_Some: "lookup_file nm fs = Some c \<Longrightarrow> c \<in> set fs \<and> cname c = nm"
  by (auto simp: lookup_file_def find_Some_iff)

lemma lookup_unique:
  assumes "distinct (map cname fs)" and "c \<in> set fs"
  shows "lookup_file (cname c) fs = Some c"
  using assms unfolding lookup_file_def by (induction fs) (auto simp: rev_image_eqI)

lemma lookup_touch [simp]: "lookup_file x (touch pol nm fs) = lookup_file x fs"
proof -
  have 1: "find P (filter Q fs) = find P fs" if "\<And>c. P c \<Longrightarrow> Q c" for P Q :: "cfile \<Rightarrow> bool"
    using that by (induction fs) auto
  have 2: "find P (gs @ hs) = (case find P gs of None \<Rightarrow> find P hs | Some c \<Rightarrow> Some c)" for P and gs hs :: "cfile list"
    by (induction gs) auto
  have 3: "find P (filter Q fs) = None" if "\<And>c. P c \<Longrightarrow> \<not> Q c" for P Q :: "cfile \<Rightarrow> bool"
    using that by (auto simp: find_None_iff)
  show ?thesis
  proof (cases "x = nm")
    case True
    have "find (\<lambda>c. cname c = nm) (filter (\<lambda>c. cname c = nm) fs) = find (\<lambda>c. cname c = nm) fs" by (rule 1)
    moreover have "find (\<lambda>c. cname c = nm) (filter (\<lambda>c. cname c \<noteq> nm) fs) = None" by (rule 3) simp
    ultimately show ?thesis
      using True by (simp add: touch_def lookup_file_def 2 split: cache_policy_t.split option.split)
  next
    case False
    have "find (\<lambda>c. cname c = x) (filter (\<lambda>c. cname c = nm) fs) = None" by (rule 3) (use False in auto)
    moreover have "find (\<lambda>c. cname c = x) (filter (\<lambda>c. cname c \<noteq> nm) fs) = find (\<lambda>c. cname c = x) fs"
      by (rule 1) (use False in auto)
    ultimately show ?thesis by (simp add: touch_def lookup_file_def 2 split: cache_policy_t.split)
  qed
qed

lemma lookup_edit: "(\<And>c. cname (u c) = cname c) \<Longrightarrow>
    lookup_file x (edit nm u fs) = map_option (\<lambda>c. if cname c = nm then u c else c) (lookup_file x fs)"
  by (induction fs) (auto simp: lookup_file_def edit_def)

lemma lookup_without: "lookup_file x (without nm fs) = (if x = nm then None else lookup_file x fs)"
  by (induction fs) (auto simp: lookup_file_def without_def)

section \<open>Reaching a file by name\<close>

definition stores :: "mem_state \<Rightarrow> cfile list \<Rightarrow> bool" where
  "stores s fs \<longleftrightarrow> (\<exists>as. mem_wf s as \<and> view s as = fs)"

definition file_at :: "mem_state \<Rightarrow> addr \<Rightarrow> string \<Rightarrow> bool" where
  "file_at s a nm \<longleftrightarrow> (\<exists>as. mem_wf s as \<and> a \<in> set as \<and> filename (file_of s a) = nm)"

text \<open>What no operation changes: the limits and the behaviour of the library.\<close>

definition keeps :: "mem_state \<Rightarrow> mem_state \<Rightarrow> bool" where
  "keeps s s' \<longleftrightarrow> MaxMemory s' = MaxMemory s \<and> MaxFiles s' = MaxFiles s \<and> mlibc s' = mlibc s"

lemma keeps_refl [simp]: "keeps s s"
  by (simp add: keeps_def)

lemma keeps_trans: "keeps s t \<Longrightarrow> keeps t u \<Longrightarrow> keeps s u"
  by (simp add: keeps_def)

lemma keeps_limits: "keeps s s' \<Longrightarrow> limits s mf mx \<Longrightarrow> limits s' mf mx"
  by (simp add: keeps_def limits_def)

lemma storesI: "mem_wf s as \<Longrightarrow> stores s (view s as)"
  by (auto simp: stores_def)

lemma stores_names:
  assumes "stores s fs"
  shows "distinct (map cname fs)" and "length fs < 2 ^ 31" and "\<And>c. c \<in> set fs \<Longrightarrow> nul_free (cname c)"
    and "\<And>c. c \<in> set fs \<Longrightarrow> length (cname c) < MAXNAME"
proof -
  obtain as where wf: "mem_wf s as" and fs: "view s as = fs" using assms by (auto simp: stores_def)
  show "distinct (map cname fs)" using mem_wfD(4) [OF wf] fs by (simp add: names_view)
  show "length fs < 2 ^ 31" using mem_wfD(5) [OF wf] fs by (metis length_view)
  have "\<And>a. a \<in> set as \<Longrightarrow> nul_free (filename (file_of s a)) \<and> length (filename (file_of s a)) < MAXNAME"
    using mem_wfD(3) [OF wf] by (simp add: file_wf_def)
  then show "\<And>c. c \<in> set fs \<Longrightarrow> nul_free (cname c)" "\<And>c. c \<in> set fs \<Longrightarrow> length (cname c) < MAXNAME"
    using fs by (auto simp: view_def)
qed

lemma stores_unlocked: "stores s fs \<Longrightarrow> unlocked s"
  by (auto simp: stores_def mem_wf_unlocked)

lemma stores_unique: "stores s fs \<Longrightarrow> stores s gs \<Longrightarrow> fs = gs"
  by (auto simp: stores_def dest: mem_wf_unique)

lemma stores_frame [simp]:
  "stores (s\<lparr>errno := e\<rparr>) fs = stores s fs"
  "stores (s\<lparr>logst := (logst s)\<lparr>entries := es\<rparr>\<rparr>) fs = stores s fs"
  "stores (s\<lparr>errno := e, logst := (logst s)\<lparr>entries := es\<rparr>\<rparr>) fs = stores s fs"
  by (simp_all add: stores_def view_def mem_wf_def unlocked_def names_def bytes_used_def)

lemma file_at_frame [simp]:
  "file_at (s\<lparr>errno := e\<rparr>) a nm = file_at s a nm"
  "file_at (s\<lparr>logst := (logst s)\<lparr>entries := es\<rparr>\<rparr>) a nm = file_at s a nm"
  by (simp_all add: file_at_def)

lemma has_file_view: "has_file nm (view s as) \<longleftrightarrow> nm \<in> set (names s as)"
  by (auto simp: has_file_def names_view)

lemma view_touched:
  assumes wf: "mem_wf s as" and a: "a \<in> set as" and nm: "nm = filename (file_of s a)"
  shows "view s (touched pol a as) = touch pol nm (view s as)"
proof -
  have eq: "filename (file_of s x) = nm \<longleftrightarrow> x = a" if "x \<in> set as" for x
    using names_inj [OF wf that a] nm by blast
  have d: "distinct as" by (rule mem_wf_distinct [OF wf])
  have f1: "filter (\<lambda>x. x = a) as = [a]" using d a by (induction as) (auto simp: filter_empty_conv)
  have "filter (\<lambda>x. filename (file_of s x) = nm) as = filter (\<lambda>x. x = a) as"
    by (rule filter_cong [OF refl]) (rule eq)
  moreover have "filter (\<lambda>x. filename (file_of s x) \<noteq> nm) as = remove1 a as"
    using eq d by (auto simp: distinct_remove1_removeAll removeAll_filter_not_eq intro: filter_cong)
  ultimately show ?thesis
    using f1 by (simp add: touched_def touch_def view_def filter_map o_def split: cache_policy_t.split)
qed

lemma store_find_present:
  assumes st: "stores s fs" and nm: "has_file nm fs"
  shows "\<exists>a s'. find_file (Some nm) pol s = (Inr (Some a), s') \<and> stores s' (touch pol nm fs) \<and>
    file_at s' a nm \<and> keeps s s' \<and> errno s' = 0"
proof -
  obtain as where wf: "mem_wf s as" and fs: "view s as = fs" using st by (auto simp: stores_def)
  from nm fs obtain a where a: "a \<in> set as" "nm = filename (file_of s a)"
    by (auto simp: has_file_view names_def)
  from find_file_present [OF wf a, of pol] obtain h p where
    run: "find_file (Some nm) pol s = (Inr (Some a), s\<lparr>errno := 0, heap := h, memory := p\<rparr>)"
    and sd: "same_data (heap s) h"
    and wf': "mem_wf (s\<lparr>errno := 0, heap := h, memory := p\<rparr>) (touched pol a as)" by blast
  let ?s = "s\<lparr>errno := 0, heap := h, memory := p\<rparr>"
  have "view ?s (touched pol a as) = view s (touched pol a as)" by (rule view_same) (simp add: sd)
  also have "\<dots> = touch pol nm fs" using view_touched [OF wf a] fs by simp
  finally have "stores ?s (touch pol nm fs)" using wf' by (auto simp: stores_def)
  moreover have "filename (file_of ?s a) = nm" using same_data_fields(1) [OF sd] a by simp
  then have "file_at ?s a nm"
    using wf' a mem_wf_distinct [OF wf] unfolding file_at_def by (intro exI [of _ "touched pol a as"]) simp
  moreover have "keeps s ?s" by (simp add: keeps_def)
  moreover have "errno ?s = 0" by simp
  ultimately show ?thesis using run by blast
qed

lemma store_find_absent:
  assumes st: "stores s fs" and nm: "\<not> has_file nm fs" and "nul_free nm"
  shows "\<exists>s'. find_file (Some nm) pol s = (Inr None, s') \<and> stores s' fs \<and> keeps s s' \<and> errno s' = ENOENT"
proof -
  obtain as where wf: "mem_wf s as" and fs: "view s as = fs" using st by (auto simp: stores_def)
  have out: "nm \<notin> set (names s as)" using nm fs by (auto simp: has_file_view)
  have "stores (s\<lparr>errno := ENOENT, logst := (logst s)\<lparr>entries := es\<rparr>\<rparr>) fs" for es
    using st by simp
  moreover have "keeps s (s\<lparr>errno := ENOENT, logst := (logst s)\<lparr>entries := es\<rparr>\<rparr>)" for es
    by (simp add: keeps_def)
  ultimately show ?thesis unfolding find_file_absent [OF wf assms(3) out] by fastforce
qed

lemma store_inMem:
  assumes "stores s fs" and "nul_free nm"
  shows "inMem (Some nm) s = (Inr (if has_file nm fs then 1 else 0), s)"
  using assms inMem_run by (auto simp: stores_def has_file_view)

text \<open>The file behind a handle.\<close>

lemma file_at_live:
  assumes "file_at s a nm" and "stores s fs"
  shows "\<exists>f. heap s a = Some f \<and> filename f = nm \<and> abs_file f \<in> set fs \<and> lookup_file nm fs = Some (abs_file f) \<and>
    usedMemory f = of_nat (length (buffer f)) \<and> \<not> lockFile f \<and> fopened f"
proof -
  obtain as where wf: "mem_wf s as" and a: "a \<in> set as" and nm: "filename (file_of s a) = nm"
    using assms(1) by (auto simp: file_at_def)
  have fs: "fs = view s as" by (rule stores_unique [OF assms(2) storesI [OF wf]])
  have "heap s a = Some (file_of s a)" by (rule mem_wf_live(1) [OF wf a])
  moreover have "file_wf (file_of s a)" by (rule mem_wf_live(3) [OF wf a])
  moreover have m: "abs_file (file_of s a) \<in> set fs" using a fs by (simp add: view_def)
  moreover have "lookup_file nm fs = Some (abs_file (file_of s a))"
    using lookup_unique [OF stores_names(1) [OF assms(2)] m] nm by simp
  ultimately show ?thesis using nm by (intro exI [of _ "file_of s a"]) (simp add: file_wf_def)
qed

end
