(* ===== verification/Store_Ops.thy ===== *)
theory Store_Ops
  imports Store
begin

text \<open>
  The operations of the file cache as functions on the list of files, the contract they
  form (\<open>file_store\<close>), and its consequences for a caller that names its files.
\<close>

section \<open>Each operation on the list\<close>

lemma stores_edit:
  assumes st: "stores s fs" and at: "file_at s a nm" and g: "file_wf g" "filename g = nm"
    and link: "fnext g = fnext (file_of s a)" and buf: "buffer g = buffer (file_of s a)"
    and ab: "abs_file g = u (abs_file (file_of s a))"
  shows "stores (s\<lparr>heap := (heap s)(a \<mapsto> g)\<rparr>) (edit nm u fs)"
    and "file_at (s\<lparr>heap := (heap s)(a \<mapsto> g)\<rparr>) a nm"
proof -
  obtain as where wf: "mem_wf s as" and a: "a \<in> set as" and nm: "filename (file_of s a) = nm"
    using at by (auto simp: file_at_def)
  have fs: "fs = view s as" by (rule stores_unique [OF st storesI [OF wf]])
  have wf': "mem_wf (s\<lparr>heap := (heap s)(a \<mapsto> g)\<rparr>) as"
    using mem_wf_file_upd_same [OF wf a g(1) link _ buf] g(2) nm by simp
  then show "stores (s\<lparr>heap := (heap s)(a \<mapsto> g)\<rparr>) (edit nm u fs)"
    using view_file_upd [where u = u, OF wf a ab] nm fs by (auto simp: stores_def edit_def)
  show "file_at (s\<lparr>heap := (heap s)(a \<mapsto> g)\<rparr>) a nm"
    using wf' a g(2) by (auto simp: file_at_def)
qed

lemma file_at_file:
  assumes "file_at s a nm"
  obtains f where "heap s a = Some f" and "file_wf f" and "filename f = nm" and "mutex_ok (mlibc s)"
proof -
  obtain as where wf: "mem_wf s as" and a: "a \<in> set as" and nm: "filename (file_of s a) = nm"
    using assms by (auto simp: file_at_def)
  show thesis
    using mem_wf_live [OF wf a] nm unlockedD(5) [OF mem_wf_unlocked [OF wf]] by (intro that) auto
qed

lemma store_open:
  assumes st: "stores s fs" and at: "file_at s a nm"
  shows "\<exists>s'. set_file_open (Some a) s = (Inr (), s') \<and> stores s' (edit nm (\<lambda>c. c\<lparr>copen := True\<rparr>) fs) \<and>
    file_at s' a nm \<and> keeps s s' \<and> errno s' = errno s"
proof -
  obtain f where f: "heap s a = Some f" "file_wf f" "filename f = nm" "mutex_ok (mlibc s)"
    using at by (rule file_at_file)
  let ?s = "s\<lparr>heap := (heap s)(a \<mapsto> f\<lparr>isOpen := 1\<rparr>)\<rparr>"
  have "set_file_open (Some a) s = (Inr (), ?s)"
    using f by (intro set_file_open_run) (auto simp: file_wf_def)
  moreover have "stores ?s (edit nm (\<lambda>c. c\<lparr>copen := True\<rparr>) fs)" "file_at ?s a nm"
    by (rule stores_edit [OF st at]; use f in \<open>simp add: abs_file_def\<close>)+
  ultimately show ?thesis by (intro exI [of _ ?s]) (simp add: keeps_def)
qed

lemma store_close:
  assumes st: "stores s fs" and at: "file_at s a nm"
  shows "\<exists>s'. set_file_close (Some a) s = (Inr (), s') \<and> stores s' (edit nm (\<lambda>c. c\<lparr>copen := False\<rparr>) fs) \<and>
    file_at s' a nm \<and> keeps s s' \<and> errno s' = errno s"
proof -
  obtain f where f: "heap s a = Some f" "file_wf f" "filename f = nm" "mutex_ok (mlibc s)"
    using at by (rule file_at_file)
  let ?s = "s\<lparr>heap := (heap s)(a \<mapsto> f\<lparr>isOpen := 0\<rparr>)\<rparr>"
  have "set_file_close (Some a) s = (Inr (), ?s)"
    using f by (intro set_file_close_run) (auto simp: file_wf_def)
  moreover have "stores ?s (edit nm (\<lambda>c. c\<lparr>copen := False\<rparr>) fs)" "file_at ?s a nm"
    by (rule stores_edit [OF st at]; use f in \<open>simp add: abs_file_def\<close>)+
  ultimately show ?thesis by (intro exI [of _ ?s]) (simp add: keeps_def)
qed

lemma store_create:
  assumes st: "stores s fs" and nm: "nul_free nm" "length nm < MAXNAME" "\<not> has_file nm fs"
    and len: "Suc (length fs) < 2 ^ 31" and mal: "malloc_ok (mlibc s) sizeof_FileMemory"
  shows "\<exists>a t s'. create_file nm s = (Inr (Some a), t) \<and> add_file_to_memory (Some a) t = (Inr (Some a), s') \<and>
    stores s' (\<lparr>cname = nm, ccontent = [], copen = False\<rparr> # fs) \<and> file_at s' a nm \<and> keeps s s' \<and> errno s' = 0"
proof -
  obtain as where wf: "mem_wf s as" and fs: "view s as = fs" using st by (auto simp: stores_def)
  let ?a = "fresh s"
  let ?t = "s\<lparr>fresh := Suc ?a, heap := (heap s)(?a \<mapsto> new_file nm)\<rparr>"
  have u: "libc_ok (mlibc s)" using unlockedD(3) [OF mem_wf_unlocked [OF wf]] .
  note fresh = mem_wf_fresh(1) [OF wf, of "new_file nm"] mem_wf_fresh(2) [OF wf, of "new_file nm"]
    mem_wf_fresh(3) [OF wf]
  have nn: "nm \<notin> set (names ?t as)" using nm(3) fs fresh(2) by (simp add: has_file_view [symmetric])
  have la: "Suc (length as) < 2 ^ 31" using len fs by (metis length_view)
  from add_file_run [OF fresh(1), of ?a "new_file nm"] nm nn la fresh(3) obtain h where
    add: "add_file_to_memory (Some ?a) ?t = (Inr (Some ?a), ?t\<lparr>errno := 0, heap := h, memory := Some ?a, nCurrentFile := nCurrentFile ?t + 1\<rparr>)"
    and sd: "same_data (heap ?t) h"
    and wf': "mem_wf (?t\<lparr>errno := 0, heap := h, memory := Some ?a, nCurrentFile := nCurrentFile ?t + 1\<rparr>) (?a # as)"
    and vw: "view (?t\<lparr>errno := 0, heap := h, memory := Some ?a, nCurrentFile := nCurrentFile ?t + 1\<rparr>) (?a # as) =
      abs_file (new_file nm) # view ?t as" by (auto simp: file_wf_def)
  let ?s = "?t\<lparr>errno := 0, heap := h, memory := Some ?a, nCurrentFile := nCurrentFile ?t + 1\<rparr>"
  have "stores ?s (\<lparr>cname = nm, ccontent = [], copen = False\<rparr> # fs)"
    using wf' vw fresh(2) fs unfolding stores_def by (intro exI [of _ "?a # as"]) (simp add: abs_file_def)
  moreover have "filename (file_of ?s ?a) = nm" using same_data_fields(1) [OF sd, of ?a] by simp
  then have "file_at ?s ?a nm" using wf' by (auto simp: file_at_def)
  moreover have "keeps s ?s" by (simp add: keeps_def)
  moreover have "errno ?s = 0" by simp
  moreover have "create_file nm s = (Inr (Some ?a), ?t)" by (rule create_file_run [OF u mal nm(2)])
  ultimately show ?thesis using add by blast
qed

lemma store_remove:
  assumes st: "stores s fs" and at: "file_at s a nm"
  shows "\<exists>s'. remove_generic_file (Some a) s = (Inr 1, s') \<and> stores s' (without nm fs) \<and> keeps s s' \<and> heap s' a = None"
proof -
  obtain as where wf: "mem_wf s as" and a: "a \<in> set as" and nm: "filename (file_of s a) = nm"
    using at by (auto simp: file_at_def)
  have fs: "fs = view s as" by (rule stores_unique [OF st storesI [OF wf]])
  from remove_generic_file_run [OF wf a] obtain h p where
    run: "remove_generic_file (Some a) s = (Inr 1, (freed s a h p)\<lparr>errno := 0\<rparr>)"
    and wf': "mem_wf ((freed s a h p)\<lparr>errno := 0\<rparr>) (remove1 a as)"
    and vw: "view ((freed s a h p)\<lparr>errno := 0\<rparr>) (remove1 a as) = view s (remove1 a as)"
    and gone: "heap (freed s a h p) a = None" by blast
  have "filter (\<lambda>x. filename (file_of s x) \<noteq> nm) as = remove1 a as"
  proof -
    have "filename (file_of s x) = nm \<longleftrightarrow> x = a" if "x \<in> set as" for x
      using names_inj [OF wf that a] nm by auto
    then show ?thesis
      using mem_wf_distinct [OF wf]
      by (auto simp: distinct_remove1_removeAll removeAll_filter_not_eq intro: filter_cong)
  qed
  then have "view s (remove1 a as) = without nm fs" by (simp add: fs without_def view_def filter_map o_def)
  then have "stores ((freed s a h p)\<lparr>errno := 0\<rparr>) (without nm fs)" using wf' vw by (auto simp: stores_def)
  moreover have "keeps s ((freed s a h p)\<lparr>errno := 0\<rparr>)" by (simp add: keeps_def freed_def)
  moreover have "heap ((freed s a h p)\<lparr>errno := 0\<rparr>) a = None" using gone by simp
  ultimately show ?thesis using run by blast
qed

lemma store_write:
  assumes st: "stores s fs" and at: "file_at s a nm" and n: "n < 2 ^ 31" "n \<le> length buf"
  shows "\<exists>s'. write_to_file (Some a) buf (of_nat n) s = (Inr (of_nat n), s') \<and>
    stores s' (edit nm (\<lambda>c. c\<lparr>ccontent := ccontent c @ take n buf\<rparr>) fs) \<and> file_at s' a nm \<and> keeps s s' \<and>
    errno s' = errno s"
proof -
  obtain as where wf: "mem_wf s as" and a: "a \<in> set as" and nm: "filename (file_of s a) = nm"
    using at by (auto simp: file_at_def)
  have fs: "fs = view s as" by (rule stores_unique [OF st storesI [OF wf]])
  note w = write_to_file_run [OF wf a n]
  let ?f = "(file_of s a)\<lparr>buffer := buffer (file_of s a) @ take n buf,
    usedMemory := of_nat (length (buffer (file_of s a)) + n)\<rparr>"
  let ?s = "s\<lparr>heap := (heap s)(a \<mapsto> ?f), nCurrentMemoryUsed := nCurrentMemoryUsed s + of_nat n\<rparr>"
  have "stores ?s (edit nm (\<lambda>c. c\<lparr>ccontent := ccontent c @ take n buf\<rparr>) fs)"
    using w(2,3) nm fs unfolding stores_def edit_def by blast
  moreover have "file_at ?s a nm"
    using w(2) a nm unfolding file_at_def by (intro exI [of _ as]) simp
  moreover have "keeps s ?s" "errno ?s = errno s" by (simp_all add: keeps_def)
  ultimately show ?thesis using w(1) by blast
qed

text \<open>
  \<open>cache_result\<close>: the files left after the replacement algorithm was asked for room for
  \<open>k\<close> files and \<open>amt\<close> bytes. A request beyond the limits themselves changes nothing.
\<close>

definition cache_result :: "nat \<Rightarrow> nat \<Rightarrow> nat \<Rightarrow> nat \<Rightarrow> cfile list \<Rightarrow> cfile list" where
  "cache_result k amt mf mx fs = (if mf < k \<or> mx < amt then fs else room k amt mf mx fs)"

lemma room_fits: "length fs + k \<le> mf \<Longrightarrow> content_bytes fs + amt \<le> mx \<Longrightarrow> room k amt mf mx fs = fs"
  by (simp add: room_def after_file_round_def)

lemma room_take: "room k amt mf mx fs = take (length (room k amt mf mx fs)) fs"
proof -
  define gs where "gs = after_file_round k mf fs"
  have gs: "gs = take (length gs) fs" by (simp add: gs_def after_file_round_def min_def)
  have "keep c gs = take (length (keep c gs)) fs" for c
  proof -
    have "keep c gs = take (length (keep c gs)) gs" by (rule keep_take)
    also have "\<dots> = take (length (keep c gs)) fs"
      by (subst (2) gs) (simp add: min_absorb1 length_keep)
    finally show ?thesis .
  qed
  with gs show ?thesis unfolding room_def Let_def gs_def [symmetric] by presburger
qed

text \<open>A handle to a file stays good if the file stays, and dangles if it was evicted.\<close>

definition handles_follow :: "mem_state \<Rightarrow> mem_state \<Rightarrow> cfile list \<Rightarrow> bool" where
  "handles_follow s s' gs \<longleftrightarrow>
     (\<forall>a nm. file_at s a nm \<longrightarrow> (if has_file nm gs then file_at s' a nm else heap s' a = None))"

lemma file_at_has: "file_at s a nm \<Longrightarrow> stores s fs \<Longrightarrow> has_file nm fs"
  using file_at_live [of s a nm fs] by (auto simp: lookup_file_iff)

lemma handles_follow_same:
  assumes "stores s fs" and "\<And>as. mem_wf s as \<Longrightarrow> mem_wf s' as" and "heap s' = heap s"
  shows "handles_follow s s' fs"
  using assms file_at_has unfolding handles_follow_def file_at_def by metis

lemma handles_follow_evicts:
  assumes wf: "mem_wf s as" and ev: "evicts s as n s'"
  shows "handles_follow s s' (take n (view s as))"
  unfolding handles_follow_def
proof (intro allI impI)
  fix a nm assume "file_at s a nm"
  then have a: "a \<in> set as" "filename (file_of s a) = nm"
    using mem_wf_unique [OF wf] by (auto simp: file_at_def)
  have e: "mem_wf s' (take n as)" "\<And>a. a \<in> set (drop n as) \<Longrightarrow> heap s' a = None"
      "\<And>a. a \<notin> set (drop n as) \<Longrightarrow> map_option strip (heap s' a) = map_option strip (heap s a)"
    using ev by (auto simp: evicts_def)
  have as: "set as = set (take n as) \<union> set (drop n as)" by (metis append_take_drop_id set_append)
  have d: "set (take n as) \<inter> set (drop n as) = {}"
    using mem_wf_distinct [OF wf] by (rule set_take_disj_set_drop_if_distinct) simp
  show "if has_file nm (take n (view s as)) then file_at s' a nm else heap s' a = None"
  proof (cases "a \<in> set (take n as)")
    case True
    have "heap s' a \<noteq> None" using mem_wf_live(1) [OF e(1) True] by (metis option.distinct(1))
    with True d e(3) [of a] have "strip (file_of s' a) = strip (file_of s a)"
      by (cases "heap s a"; cases "heap s' a") auto
    then have "filename (file_of s' a) = nm" using strip_eqD(1) a(2) by metis
    then have "file_at s' a nm" using e(1) True by (auto simp: file_at_def)
    moreover have "has_file nm (take n (view s as))"
      using True a(2) by (force simp: has_file_def view_def take_map)
    ultimately show ?thesis by simp
  next
    case False
    with a as have "heap s' a = None" using e(2) by blast
    moreover have "\<not> has_file nm (take n (view s as))"
    proof
      assume "has_file nm (take n (view s as))"
      then obtain b where b: "b \<in> set (take n as)" "filename (file_of s b) = nm"
        by (auto simp: has_file_def view_def take_map)
      have "b \<in> set as" using b(1) by (rule in_set_takeD)
      then have "b = a" by (rule names_inj [OF wf _ a(1)]) (simp only: b(2) a(2))
      with b(1) False show False by simp
    qed
    ultimately show ?thesis by simp
  qed
qed

lemma zero_neq_numeral_word7: "(0 :: i32) \<noteq> E2BIG"
  by simp

lemma zero_neq_numeral_word125: "(0 :: i32) \<noteq> ECANCELED"
  by simp

lemma store_cache:
  assumes st: "stores s fs" and lim: "limits s mf mx" and k: "length fs + k < 2 ^ 31"
    and amt: "amt < 2 ^ 31" "content_bytes fs + amt < 2 ^ 31 + mx"
  shows "\<exists>s'. cache_algorithm (of_nat k) (of_nat amt) s = (Inr (), s') \<and>
    stores s' (cache_result k amt mf mx fs) \<and> keeps s s' \<and> (errno s' = E2BIG \<longleftrightarrow> mf < k \<or> mx < amt) \<and>
    (errno s' = ECANCELED \<longleftrightarrow> length fs + k \<le> mf \<and> content_bytes fs + amt \<le> mx) \<and>
    handles_follow s s' (cache_result k amt mf mx fs)"
proof -
  obtain as where wf: "mem_wf s as" and fs: "view s as = fs" using st by (auto simp: stores_def)
  have la: "length as = length fs" using fs by (metis length_view)
  show ?thesis
  proof (cases "mf < k \<or> mx < amt")
    case True
    then have "cache_algorithm (of_nat k) (of_nat amt) s = (Inr (), s\<lparr>errno := E2BIG\<rparr>)"
      using cache_algorithm_too_big [OF wf lim] k amt(1) sum_small [OF lim amt(2)] fs la by simp
    moreover have "stores (s\<lparr>errno := E2BIG\<rparr>) (cache_result k amt mf mx fs)"
      using True st by (simp add: cache_result_def)
    moreover have "handles_follow s (s\<lparr>errno := E2BIG\<rparr>) (cache_result k amt mf mx fs)"
      using True handles_follow_same [OF st, of "s\<lparr>errno := E2BIG\<rparr>"] by (simp add: cache_result_def)
    ultimately show ?thesis using True by (intro exI [of _ "s\<lparr>errno := E2BIG\<rparr>"]) (auto simp: keeps_def)
  next
    case big: False
    show ?thesis
    proof (cases "length fs + k \<le> mf \<and> content_bytes fs + amt \<le> mx")
      case True
      let ?s = "(marked (of_nat k) (of_nat amt) (s\<lparr>errno := 0\<rparr>))\<lparr>errno := ECANCELED\<rparr>"
      have "cache_algorithm (of_nat k) (of_nat amt) s = (Inr (), ?s)"
        using cache_algorithm_legal [OF wf lim] k amt fs la True by simp
      moreover have "stores ?s (cache_result k amt mf mx fs)"
        using True wf fs big by (auto simp: stores_def cache_result_def room_fits view_def)
      moreover have "keeps s ?s" by (simp add: keeps_def marked_def Let_def)
      moreover have "handles_follow s ?s (cache_result k amt mf mx fs)"
        using True big handles_follow_same [OF st, of ?s] by (simp add: cache_result_def room_fits)
      ultimately show ?thesis using big True by (intro exI [of _ ?s]) auto
    next
      case over: False
      define t where "t = (if triggered k amt mf mx (view s as) then counted (s\<lparr>errno := 0\<rparr>) else s\<lparr>errno := 0\<rparr>)"
      have p: "length as + k < 2 ^ 31" "content_bytes (view s as) + amt < 2 ^ 31 + mx"
          "mx < content_bytes (view s as) + amt \<or> mf < length as + k" "k \<le> mf" "amt \<le> mx"
        using k amt(2) big over unfolding fs la by linarith+
      obtain s' where
        run: "cache_algorithm (of_nat k) (of_nat amt) s = (Inr (), s')"
        and ev: "evicts t as (length (room k amt mf mx (view s as))) s'"
        using cache_algorithm_evicts [OF wf lim p(1) amt(1) p(2-5)] unfolding t_def by blast
      have t: "view t as = fs" "keeps s t" "errno t = 0"
        using fs by (auto simp: t_def counted_def view_def keeps_def)
      have "view s' (take (length (room k amt mf mx fs)) as) = room k amt mf mx fs"
        using ev t fs room_take [of k amt mf mx fs] by (simp add: evicts_def)
      then have st': "stores s' (cache_result k amt mf mx fs)"
        using ev fs big unfolding evicts_def stores_def cache_result_def by auto
      have ks: "keeps t s'" and e0: "errno s' = 0"
        using ev t by (simp_all add: evicts_def same_fields_def keeps_def)
      have ks': "keeps s s'" by (rule keeps_trans [OF t(2) ks])
      have e1: "errno s' = E2BIG \<longleftrightarrow> mf < k \<or> mx < amt"
        unfolding e0 using big zero_neq_numeral_word7 by blast
      have e2: "errno s' = ECANCELED \<longleftrightarrow> length fs + k \<le> mf \<and> content_bytes fs + amt \<le> mx"
        unfolding e0 using over zero_neq_numeral_word125 by blast
      have "handles_follow t s' (room k amt mf mx fs)"
        using handles_follow_evicts [OF _ ev] wf fs t(1) room_take [of k amt mf mx fs] by (simp add: t_def)
      then have hf: "handles_follow s s' (cache_result k amt mf mx fs)"
      proof -
        have "file_at t a nm = file_at s a nm" for a nm
          by (simp add: t_def file_at_def)
        with \<open>handles_follow t s' (room k amt mf mx fs)\<close> show ?thesis
          using big by (simp add: handles_follow_def cache_result_def)
      qed
      show ?thesis by (rule exI [of _ s']) (intro conjI run st' ks' e1 e2 hf)
    qed
  qed
qed

section \<open>The contract\<close>

text \<open>
  What a caller that reaches files by name may rely on: a file is found exactly when one of
  that name is held, finding it may reorder the list by the policy and nothing else, and an
  operation through the handle changes that file only.
\<close>

locale file_store =
  fixes holds :: "'s \<Rightarrow> cfile list \<Rightarrow> bool"
    and refers :: "'s \<Rightarrow> 'h \<Rightarrow> string \<Rightarrow> bool"
    and find_named :: "cache_policy_t \<Rightarrow> string \<Rightarrow> ('s, 'h option) cmd"
    and open_at :: "'h \<Rightarrow> ('s, unit) cmd"
    and close_at :: "'h \<Rightarrow> ('s, unit) cmd"
    and append_at :: "'h \<Rightarrow> char list \<Rightarrow> u64 \<Rightarrow> ('s, u64) cmd"
    and remove_at :: "'h \<Rightarrow> ('s, i32) cmd"
  assumes find_present: "holds s fs \<Longrightarrow> has_file nm fs \<Longrightarrow>
      \<exists>h s'. find_named pol nm s = (Inr (Some h), s') \<and> holds s' (touch pol nm fs) \<and> refers s' h nm"
    and find_absent: "holds s fs \<Longrightarrow> \<not> has_file nm fs \<Longrightarrow> nul_free nm \<Longrightarrow>
      \<exists>s'. find_named pol nm s = (Inr None, s') \<and> holds s' fs"
    and open_law: "holds s fs \<Longrightarrow> refers s h nm \<Longrightarrow>
      \<exists>s'. open_at h s = (Inr (), s') \<and> holds s' (edit nm (\<lambda>c. c\<lparr>copen := True\<rparr>) fs)"
    and close_law: "holds s fs \<Longrightarrow> refers s h nm \<Longrightarrow>
      \<exists>s'. close_at h s = (Inr (), s') \<and> holds s' (edit nm (\<lambda>c. c\<lparr>copen := False\<rparr>) fs)"
    and append_law: "holds s fs \<Longrightarrow> refers s h nm \<Longrightarrow> n < 2 ^ 31 \<Longrightarrow> n \<le> length buf \<Longrightarrow>
      \<exists>s'. append_at h buf (of_nat n) s = (Inr (of_nat n), s') \<and>
        holds s' (edit nm (\<lambda>c. c\<lparr>ccontent := ccontent c @ take n buf\<rparr>) fs)"
    and remove_law: "holds s fs \<Longrightarrow> refers s h nm \<Longrightarrow>
      \<exists>s' r. remove_at h s = (Inr r, s') \<and> holds s' (without nm fs)"

text \<open>Operations by name, as commands and as functions on the map from names to files.\<close>

datatype fop = Open_named string | Close_named string | Append_named string "char list" | Remove_named string

fun fop_name :: "fop \<Rightarrow> string" where
  "fop_name (Open_named nm) = nm"
| "fop_name (Close_named nm) = nm"
| "fop_name (Append_named nm bs) = nm"
| "fop_name (Remove_named nm) = nm"

fun fop_ok :: "fop \<Rightarrow> bool" where
  "fop_ok (Append_named nm bs) \<longleftrightarrow> nul_free nm \<and> length bs < 2 ^ 31"
| "fop_ok p \<longleftrightarrow> nul_free (fop_name p)"

fun fop_at :: "('h \<Rightarrow> ('s, unit) cmd) \<Rightarrow> ('h \<Rightarrow> ('s, unit) cmd) \<Rightarrow> ('h \<Rightarrow> char list \<Rightarrow> u64 \<Rightarrow> ('s, u64) cmd) \<Rightarrow>
    ('h \<Rightarrow> ('s, i32) cmd) \<Rightarrow> fop \<Rightarrow> 'h \<Rightarrow> ('s, unit) cmd" where
  "fop_at opn cls app rem (Open_named nm) h = opn h"
| "fop_at opn cls app rem (Close_named nm) h = cls h"
| "fop_at opn cls app rem (Append_named nm bs) h = bnd (app h bs (of_nat (length bs))) (\<lambda>_. ret ())"
| "fop_at opn cls app rem (Remove_named nm) h = bnd (rem h) (\<lambda>_. ret ())"

fun fop_edit :: "fop \<Rightarrow> cfile \<Rightarrow> cfile option" where
  "fop_edit (Open_named nm) c = Some (c\<lparr>copen := True\<rparr>)"
| "fop_edit (Close_named nm) c = Some (c\<lparr>copen := False\<rparr>)"
| "fop_edit (Append_named nm bs) c = Some (c\<lparr>ccontent := ccontent c @ bs\<rparr>)"
| "fop_edit (Remove_named nm) c = None"

definition fop_map :: "fop \<Rightarrow> (string \<rightharpoonup> cfile) \<Rightarrow> (string \<rightharpoonup> cfile)" where
  "fop_map p m = m(fop_name p := Option.bind (m (fop_name p)) (fop_edit p))"

definition by_name :: "(cache_policy_t \<Rightarrow> string \<Rightarrow> ('s, 'h option) cmd) \<Rightarrow> (fop \<Rightarrow> 'h \<Rightarrow> ('s, unit) cmd) \<Rightarrow>
    cache_policy_t \<Rightarrow> fop \<Rightarrow> ('s, unit) cmd" where
  "by_name fnd act pol p =
     bnd (fnd pol (fop_name p)) (\<lambda>h. case h of None \<Rightarrow> ret () | Some a \<Rightarrow> act p a)"

fun by_names :: "(cache_policy_t \<Rightarrow> string \<Rightarrow> ('s, 'h option) cmd) \<Rightarrow> (fop \<Rightarrow> 'h \<Rightarrow> ('s, unit) cmd) \<Rightarrow>
    cache_policy_t \<Rightarrow> fop list \<Rightarrow> ('s, unit) cmd" where
  "by_names fnd act pol [] = ret ()"
| "by_names fnd act pol (p # ps) = sq (by_name fnd act pol p) (by_names fnd act pol ps)"

context file_store
begin

lemma fop_at_law:
  assumes "holds s fs" and "refers s h (fop_name p)" and "fop_ok p"
  shows "\<exists>s' fs'. fop_at open_at close_at append_at remove_at p h s = (Inr (), s') \<and> holds s' fs' \<and>
    (\<lambda>x. lookup_file x fs') = fop_map p (\<lambda>x. lookup_file x fs)"
proof -
  have ed: "(\<lambda>x. lookup_file x (edit nm u fs)) =
      (\<lambda>x. lookup_file x fs)(nm := map_option u (lookup_file nm fs))" if "\<And>c. cname (u c) = cname c" for nm u
  proof (rule ext)
    fix x
    have "lookup_file x (edit nm u fs) = map_option (\<lambda>c. if cname c = nm then u c else c) (lookup_file x fs)"
      by (rule lookup_edit) (rule that)
    then show "lookup_file x (edit nm u fs) = ((\<lambda>x. lookup_file x fs)(nm := map_option u (lookup_file nm fs))) x"
      using lookup_Some [of x fs] by (cases "lookup_file x fs") auto
  qed
  have fin: ?thesis if "fop_at open_at close_at append_at remove_at p h s = (Inr (), s')"
    "holds s' (edit (fop_name p) u fs)" "\<And>c. cname (u c) = cname c" "\<And>c. fop_edit p c = Some (u c)" for s' u
  proof -
    have "fop_map p (\<lambda>x. lookup_file x fs) = (\<lambda>x. lookup_file x (edit (fop_name p) u fs))"
      unfolding ed [OF that(3)] by (cases "lookup_file (fop_name p) fs") (auto simp: fop_map_def that(4))
    with that(1,2) show ?thesis by auto
  qed
  show ?thesis
  proof (cases p)
    case (Open_named nm)
    with open_law [OF assms(1), of h nm] assms(2) obtain s' where
      "open_at h s = (Inr (), s')" "holds s' (edit nm (\<lambda>c. c\<lparr>copen := True\<rparr>) fs)" by auto
    with Open_named show ?thesis by (intro fin [of s' "\<lambda>c. c\<lparr>copen := True\<rparr>"]) auto
  next
    case (Close_named nm)
    with close_law [OF assms(1), of h nm] assms(2) obtain s' where
      "close_at h s = (Inr (), s')" "holds s' (edit nm (\<lambda>c. c\<lparr>copen := False\<rparr>) fs)" by auto
    with Close_named show ?thesis by (intro fin [of s' "\<lambda>c. c\<lparr>copen := False\<rparr>"]) auto
  next
    case (Append_named nm bs)
    with append_law [OF assms(1), of h nm "length bs" bs] assms(2,3) obtain s' where
      "append_at h bs (of_nat (length bs)) s = (Inr (of_nat (length bs)), s')"
      "holds s' (edit nm (\<lambda>c. c\<lparr>ccontent := ccontent c @ bs\<rparr>) fs)" by auto
    with Append_named show ?thesis
      by (intro fin [of s' "\<lambda>c. c\<lparr>ccontent := ccontent c @ bs\<rparr>"]) (auto simp: bnd_run)
  next
    case (Remove_named nm)
    with remove_law [OF assms(1), of h nm] assms(2) obtain s' r where
      r: "remove_at h s = (Inr r, s')" "holds s' (without nm fs)" by auto
    have "(\<lambda>x. lookup_file x (without nm fs)) = fop_map p (\<lambda>x. lookup_file x fs)"
      using Remove_named by (cases "lookup_file nm fs") (auto simp: fop_map_def lookup_without)
    with r Remove_named show ?thesis by (auto simp: bnd_run)
  qed
qed

lemma by_name_law:
  assumes "holds s fs" and "fop_ok p"
  shows "\<exists>s' fs'. by_name find_named (fop_at open_at close_at append_at remove_at) pol p s = (Inr (), s') \<and> holds s' fs' \<and>
    (\<lambda>x. lookup_file x fs') = fop_map p (\<lambda>x. lookup_file x fs)"
proof (cases "has_file (fop_name p) fs")
  case True
  from find_present [OF assms(1) True, of pol] obtain h t where
    t: "find_named pol (fop_name p) s = (Inr (Some h), t)" "holds t (touch pol (fop_name p) fs)"
      "refers t h (fop_name p)" by blast
  with fop_at_law [OF t(2,3) assms(2)] show ?thesis by (auto simp: by_name_def bnd_run)
next
  case False
  have "nul_free (fop_name p)" using assms(2) by (cases p) auto
  from find_absent [OF assms(1) False this, of pol] obtain s' where
    s': "find_named pol (fop_name p) s = (Inr None, s')" "holds s' fs" by blast
  have "lookup_file (fop_name p) fs = None" using False by (simp add: lookup_file_iff)
  then have "fop_map p (\<lambda>x. lookup_file x fs) = (\<lambda>x. lookup_file x fs)" by (auto simp: fop_map_def)
  with s' show ?thesis by (auto simp: by_name_def bnd_run)
qed

text \<open>Operations by name compute the map, whatever the policy does to the order.\<close>

lemma by_names_law:
  assumes "holds s fs" and "\<forall>p \<in> set ps. fop_ok p"
  shows "\<exists>s' fs'. by_names find_named (fop_at open_at close_at append_at remove_at) pol ps s = (Inr (), s') \<and> holds s' fs' \<and>
    (\<lambda>x. lookup_file x fs') = fold fop_map ps (\<lambda>x. lookup_file x fs)"
  using assms
proof (induction ps arbitrary: s fs)
  case Nil
  then show ?case by auto
next
  case (Cons p ps)
  from by_name_law [OF Cons.prems(1), of p pol] Cons.prems(2) obtain t gs where
    t: "by_name find_named (fop_at open_at close_at append_at remove_at) pol p s = (Inr (), t)" "holds t gs"
      "(\<lambda>x. lookup_file x gs) = fop_map p (\<lambda>x. lookup_file x fs)" by auto
  from Cons.IH [OF t(2)] Cons.prems(2) t show ?case by (auto simp: sq_Inr)
qed

end

text \<open>The functions of \<^verbatim>\<open>src/memory.c\<close> keep the contract.\<close>

interpretation store: file_store stores file_at "\<lambda>pol nm. find_file (Some nm) pol"
  "\<lambda>a. set_file_open (Some a)" "\<lambda>a. set_file_close (Some a)" "\<lambda>a. write_to_file (Some a)"
  "\<lambda>a. remove_generic_file (Some a)"
proof
  show "\<exists>h s'. find_file (Some nm) pol s = (Inr (Some h), s') \<and> stores s' (touch pol nm fs) \<and> file_at s' h nm"
    if "stores s fs" "has_file nm fs" for s fs nm pol using store_find_present [OF that] by blast
  show "\<exists>s'. find_file (Some nm) pol s = (Inr None, s') \<and> stores s' fs"
    if "stores s fs" "\<not> has_file nm fs" "nul_free nm" for s fs nm pol using store_find_absent [OF that] by blast
  show "\<exists>s'. set_file_open (Some h) s = (Inr (), s') \<and> stores s' (edit nm (\<lambda>c. c\<lparr>copen := True\<rparr>) fs)"
    if "stores s fs" "file_at s h nm" for s fs h nm using store_open [OF that] by blast
  show "\<exists>s'. set_file_close (Some h) s = (Inr (), s') \<and> stores s' (edit nm (\<lambda>c. c\<lparr>copen := False\<rparr>) fs)"
    if "stores s fs" "file_at s h nm" for s fs h nm using store_close [OF that] by blast
  show "\<exists>s'. write_to_file (Some h) buf (of_nat n) s = (Inr (of_nat n), s') \<and>
      stores s' (edit nm (\<lambda>c. c\<lparr>ccontent := ccontent c @ take n buf\<rparr>) fs)"
    if "stores s fs" "file_at s h nm" "n < 2 ^ 31" "n \<le> length buf" for s fs h nm n and buf :: "char list"
    using store_write [OF that] by blast
  show "\<exists>s' r. remove_generic_file (Some h) s = (Inr r, s') \<and> stores s' (without nm fs)"
    if "stores s fs" "file_at s h nm" for s fs h nm using store_remove [OF that] by blast
qed

text \<open>The same operations on the cache itself.\<close>

abbreviation cache_find :: "cache_policy_t \<Rightarrow> string \<Rightarrow> addr option mcmd" where
  "cache_find \<equiv> (\<lambda>pol nm. find_file (Some nm) pol)"

abbreviation cache_act :: "fop \<Rightarrow> addr \<Rightarrow> unit mcmd" where
  "cache_act \<equiv> fop_at (\<lambda>a. set_file_open (Some a)) (\<lambda>a. set_file_close (Some a))
     (\<lambda>a. write_to_file (Some a)) (\<lambda>a. remove_generic_file (Some a))"

end
