(* ===== verification/Server_Spec.thy ===== *)
theory Server_Spec
  imports Server Store_Ops
begin

text \<open>
  What the cases of the worker's switch promise: for each operation, the bytes sent to the
  client, the error and status of the answer, and the list of files afterwards, as a
  function of the job and the list of files before; and the proof that the code of the case
  computes it.
\<close>

section \<open>The specification of the operations\<close>

record reply_spec =
  wire :: "char list list"
  err :: i32
  status :: i32
  files :: "cfile list"

abbreviation num :: "u64 \<Rightarrow> char list" where "num n \<equiv> num_bytes n"

definition spec_create :: "nat \<Rightarrow> nat \<Rightarrow> string \<Rightarrow> cfile list \<Rightarrow> reply_spec" where
  "spec_create mf mx nm fs =
     (if has_file nm fs then \<lparr>wire = [], err = EEXIST, status = NOT_OK, files = fs\<rparr>
      else \<lparr>wire = [], err = 0, status = OK,
             files = \<lparr>cname = nm, ccontent = [], copen = True\<rparr> # cache_result 1 0 mf mx fs\<rparr>)"

definition spec_open :: "cache_policy_t \<Rightarrow> string \<Rightarrow> cfile list \<Rightarrow> reply_spec" where
  "spec_open pol nm fs =
     (if has_file nm fs
      then \<lparr>wire = [], err = 0, status = OK, files = edit nm (\<lambda>c. c\<lparr>copen := True\<rparr>) (touch pol nm fs)\<rparr>
      else \<lparr>wire = [], err = ENOENT, status = NOT_OK, files = fs\<rparr>)"

definition spec_read :: "cache_policy_t \<Rightarrow> string \<Rightarrow> cfile list \<Rightarrow> reply_spec" where
  "spec_read pol nm fs =
     (case lookup_file nm fs of
        None \<Rightarrow> \<lparr>wire = [num (widen NO_CONTINUE)], err = ENOENT, status = NOT_OK, files = fs\<rparr>
      | Some c \<Rightarrow>
          if copen c then
            \<lparr>wire = [num (widen CONTINUE), num (widen CONTINUE), num (of_nat (length (ccontent c)))] @
                message_segments (ccontent c),
             err = 0, status = OK, files = touch pol nm fs\<rparr>
          else
            \<lparr>wire = [num (widen CONTINUE), num (widen NO_CONTINUE)],
             err = EACCES, status = NOT_OK, files = touch pol nm fs\<rparr>)"

definition spec_remove :: "cache_policy_t \<Rightarrow> string \<Rightarrow> cfile list \<Rightarrow> reply_spec" where
  "spec_remove pol nm fs =
     (if has_file nm fs then \<lparr>wire = [], err = 0, status = OK, files = without nm fs\<rparr>
      else \<lparr>wire = [], err = ENOENT, status = NOT_OK, files = fs\<rparr>)"

text \<open>
  The files \<open>READN_FILE\<close> sends: all of them when the client asks for 0, for more than there
  are or for a negative number, the first ones of the list otherwise.
\<close>

definition readn_count :: "i32 \<Rightarrow> nat \<Rightarrow> nat" where
  "readn_count n have' = (if n = 0 then have' else min (unat n) have')"

definition file_segments :: "cfile \<Rightarrow> char list list" where
  "file_segments c = message_segments (ccontent c) @ [num (of_nat (length (ccontent c)))]"

definition spec_readn :: "i32 \<Rightarrow> cfile list \<Rightarrow> reply_spec" where
  "spec_readn n fs =
     (if fs = [] then \<lparr>wire = [num (widen NO_CONTINUE)], err = ENODATA, status = NOT_OK, files = fs\<rparr>
      else let k = readn_count n (length fs) in
        \<lparr>wire = [num (of_nat k), num (widen CONTINUE)] @ concat (map file_segments (take k fs)),
         err = 0, status = OK, files = fs\<rparr>)"

text \<open>
  A write of \<open>n\<close> announced bytes with the message \<open>bs\<close>: room is made first, which can
  evict the file that is to be written.
\<close>

definition spec_write :: "cache_policy_t \<Rightarrow> nat \<Rightarrow> nat \<Rightarrow> string \<Rightarrow> nat \<Rightarrow> char list \<Rightarrow> cfile list \<Rightarrow> reply_spec" where
  "spec_write pol mf mx nm n bs fs =
     (if \<not> has_file nm fs
      then \<lparr>wire = [num (widen NOT_OK)], err = ENONET, status = NOT_OK, files = fs\<rparr>
      else if mx < n
      then \<lparr>wire = [num (widen CONTINUE), num (widen NO_CONTINUE)], err = E2BIG, status = NOT_OK,
            files = touch pol nm fs\<rparr>
      else let gs = cache_result 0 n mf mx (touch pol nm fs) in
        if \<not> has_file nm gs
        then \<lparr>wire = [num (widen CONTINUE), num (widen CONTINUE), num (widen NOT_OK)],
              err = ENOENT, status = NOT_OK, files = gs\<rparr>
        else \<lparr>wire = [num (widen CONTINUE), num (widen CONTINUE), num (widen CONTINUE)],
              err = 0, status = OK, files = edit nm (\<lambda>c. c\<lparr>ccontent := ccontent c @ bs\<rparr>) gs\<rparr>)"

section \<open>Stepping through a case\<close>

definition srv_ok :: "srv \<Rightarrow> cfile list \<Rightarrow> (addr \<rightharpoonup> addr list) \<Rightarrow> bool" where
  "srv_ok s fs F \<longleftrightarrow>
     stores (mem s) fs \<and> queues (qs s) F \<and> workers_wf (wk s) \<and> small_ok (mlibc (mem s)) \<and>
     (\<forall>j \<ge> jfresh s. jobs s j = None)"

text \<open>A job whose answer can be delivered: its list is live and not full.\<close>

definition job_ok :: "srv \<Rightarrow> (addr \<rightharpoonup> addr list) \<Rightarrow> addr \<Rightarrow> Job \<Rightarrow> bool" where
  "job_ok s F j w \<longleftrightarrow>
     jobs s j = Some w \<and> nul_free (jfilename w) \<and> length (jfilename w) < MAXNAME \<and>
     wrs (socks s (client_fd w)) = [] \<and>
     (\<exists>l xs. client_queue w = Some l \<and> F l = Some xs \<and> length xs < list_cap)"

definition delivered :: "(addr \<rightharpoonup> addr list) \<Rightarrow> addr \<Rightarrow> Job \<Rightarrow> (addr \<rightharpoonup> addr list)" where
  "delivered F j w = F(the (client_queue w) \<mapsto> the (F (the (client_queue w))) @ [j])"

text \<open>
  The state after a case that answered: the job carries the answer, the job is in the list
  of its client, the socket of the client has the bytes; nothing else changed but the cache.
\<close>

definition reply :: "srv \<Rightarrow> addr \<Rightarrow> Job \<Rightarrow> i32 \<Rightarrow> i32 \<Rightarrow> mem_state \<Rightarrow> qheap \<Rightarrow> sock \<Rightarrow> srv" where
  "reply s j w e st m q k =
     s\<lparr>mem := m, qs := q, jobs := (jobs s)(j \<mapsto> w\<lparr>jerr := e, status_request := st\<rparr>),
       socks := (socks s)(client_fd w := k)\<rparr>"

definition sends :: "sock \<Rightarrow> rd_event list \<Rightarrow> char list list \<Rightarrow> sock" where
  "sends k es segs = k\<lparr>inp := es, outp := outp k @ segs\<rparr>"

definition answers :: "wctl scmd \<Rightarrow> srv \<Rightarrow> (addr \<rightharpoonup> addr list) \<Rightarrow> addr \<Rightarrow> Job \<Rightarrow> rd_event list \<Rightarrow> reply_spec \<Rightarrow> bool" where
  "answers c s F j w es r \<longleftrightarrow>
     (\<exists>m q. c s = (Inr Next_job, reply s j w (err r) (status r) m q (sends (socks s (client_fd w)) es (wire r))) \<and>
        stores m (files r) \<and> keeps (mem s) m \<and> queues q (delivered F j w))"

lemma in_mem_run: "m (mem s) = (r, t) \<Longrightarrow> in_mem m s = (r, s\<lparr>mem := t\<rparr>)"
  by (simp add: zoom_run)

lemma in_qs_run: "m (qs s) = (r, t) \<Longrightarrow> in_qs m s = (r, s\<lparr>qs := t\<rparr>)"
  by (simp add: zoom_run)

lemma on_sock_run: "m (socks s fd) = (r, k) \<Longrightarrow> on_sock fd m s = (r, s\<lparr>socks := (socks s)(fd := k)\<rparr>)"
  by (simp add: on_sock_def)

lemma in_mem_same: "m (mem s) = (r, mem s) \<Longrightarrow> in_mem m s = (r, s)"
  by (simp add: zoom_run)

lemma send_checked_run:
  assumes "wrs (socks s fd) = []"
  shows "send_checked fd n s = (Inr (), s\<lparr>mem := (mem s)\<lparr>errno := 0\<rparr>,
    socks := (socks s)(fd := sends (socks s fd) (inp (socks s fd)) [num n])\<rparr>)"
  using assms by (simp add: s_send_number_def bnd_run sq_def zoom_run on_sock_def error_handling_minus_def sends_def)

lemma send_number_srv_run:
  assumes "wrs (socks s fd) = []"
  shows "s_send_number fd n s = (Inr 8, s\<lparr>mem := (mem s)\<lparr>errno := 0\<rparr>,
    socks := (socks s)(fd := sends (socks s fd) (inp (socks s fd)) [num n])\<rparr>)"
  using assms by (simp add: s_send_number_def bnd_run sq_def zoom_run on_sock_def sends_def)

lemma send_message_srv_run:
  assumes "wrs (socks s fd) = []" and "length bs < 2 ^ 64" and "n = of_nat (length bs)"
  shows "s_send_message fd bs n s = (Inr 0, s\<lparr>mem := (mem s)\<lparr>errno := 0\<rparr>,
    socks := (socks s)(fd := sends (socks s fd) (inp (socks s fd)) (message_segments bs))\<rparr>)"
  using assms by (simp add: s_send_message_def bnd_run sq_def zoom_run on_sock_def sends_def)

lemma sends_sends [simp]: "sends (sends k es segs) es' segs' = sends k es' (segs @ segs')"
  by (simp add: sends_def)

lemma sends_sel [simp]: "wrs (sends k es segs) = wrs k" "inp (sends k es segs) = es"
  "outp (sends k es segs) = outp k @ segs" "slibc (sends k es segs) = slibc k"
  "peer_closed (sends k es segs) = peer_closed k"
  by (simp_all add: sends_def)

lemma sends_none [simp]: "sends k (inp k) [] = k"
  by (simp add: sends_def)

lemma slog_run: "stores (mem s) fs \<Longrightarrow> slog f as s =
    (Inr (), s\<lparr>mem := (mem s)\<lparr>logst := (logst (mem s))\<lparr>entries := entries (logst (mem s)) @ [(f, as)]\<rparr>\<rparr>\<rparr>)"
  using unlockedD(4) [OF stores_unlocked] by (intro in_mem_run mlog_run)

lemma set_response_run:
  assumes "jobs s j = Some w" and "client_queue w = Some l" and "send_obj l j (qs s) = (Inr 0, q)"
    and "small_ok (qlibc (qs s))"
  shows "set_response_for_client_and_push (Some j) e st s =
    (Inr (), s\<lparr>jobs := (jobs s)(j \<mapsto> w\<lparr>jerr := e, status_request := st\<rparr>), qs := q\<rparr>)"
  using assms small_okD [of "qlibc (qs s)" sizeof_Node]
  by (simp add: set_response_for_client_and_push_def sq_def bnd_run jput_def jderef_def create_work_def
      zoom_run send_obj_def create_node_run)

lemma queues_small: "queues q F \<Longrightarrow> small_ok (qlibc q)"
  by (auto simp: queues_def boxes_def)

text \<open>
  The end of every case: from the state it is reached in, the answer goes to the client's
  list.
\<close>

lemma answer_run:
  assumes ok: "srv_ok s fs F" and job: "job_ok s F j w"
    and st: "stores m gs" "keeps (mem s) m"
  shows "\<exists>q. answer (Some j) e st (s\<lparr>mem := m, socks := (socks s)(client_fd w := k)\<rparr>) =
      (Inr Next_job, reply s j w e st m q k) \<and> queues q (delivered F j w)"
proof -
  obtain l xs where l: "client_queue w = Some l" "F l = Some xs" "length xs < list_cap"
    using job by (auto simp: job_ok_def)
  have q: "queues (qs s) F" using ok by (simp add: srv_ok_def)
  from mb.put [OF q l(2,3), of j] obtain q' where
    q': "send_obj l j (qs s) = (Inr 0, q')" "queues q' (F(l \<mapsto> xs @ [j]))" by blast
  let ?s = "s\<lparr>mem := m, socks := (socks s)(client_fd w := k)\<rparr>"
  have "set_response_for_client_and_push (Some j) e st ?s =
      (Inr (), ?s\<lparr>jobs := (jobs ?s)(j \<mapsto> w\<lparr>jerr := e, status_request := st\<rparr>), qs := q'\<rparr>)"
    using job q'(1) queues_small [OF q] l(1)
    by (intro set_response_run) (simp_all add: job_ok_def)
  with q'(2) l show ?thesis
    by (intro exI [of _ q']) (simp add: sq_def bnd_run reply_def delivered_def)
qed

lemma answersI:
  assumes ok: "srv_ok s fs F" and job: "job_ok s F j w"
    and c: "c s = answer (Some j) (err r) (status r)
      (s\<lparr>mem := m, socks := (socks s)(client_fd w := sends (socks s (client_fd w)) es (wire r))\<rparr>)"
    and st: "stores m (files r)" "keeps (mem s) m"
  shows "answers c s F j w es r"
  using answer_run [OF ok job st, of "err r" "status r" "sends (socks s (client_fd w)) es (wire r)"] c st
  unfolding answers_def by metis

end
