(* ===== verification/Server_Cases.thy ===== *)
theory Server_Cases
  imports Server_Spec
begin

text \<open>
  The proofs that each case of the worker's switch computes its specification. A case moves
  through states that differ from the first in the cache and in the client's socket only;
  \<open>stt s fd m k\<close> is such a state.
\<close>

section \<open>States inside a case\<close>

definition stt :: "srv \<Rightarrow> nat \<Rightarrow> mem_state \<Rightarrow> sock \<Rightarrow> srv" where
  "stt s fd m k = s\<lparr>mem := m, socks := (socks s)(fd := k)\<rparr>"

definition logged :: "string \<Rightarrow> log_arg list \<Rightarrow> mem_state \<Rightarrow> mem_state" where
  "logged f as m = m\<lparr>logst := (logst m)\<lparr>entries := entries (logst m) @ [(f, as)]\<rparr>\<rparr>"

definition cleared :: "mem_state \<Rightarrow> mem_state" where
  "cleared m = m\<lparr>errno := 0\<rparr>"

lemma stt_start: "s = stt s fd (mem s) (socks s fd)"
  by (simp add: stt_def)

lemma stt_sel [simp]: "conf (stt s fd m k) = conf s" "mem (stt s fd m k) = m"
  by (simp_all add: stt_def)

lemma in_mem_stt [simp]: "in_mem f (stt s fd m k) = (case f m of (r, m') \<Rightarrow> (r, stt s fd m' k))"
  by (cases "f m") (simp add: stt_def zoom_run)

lemma on_sock_stt [simp]: "on_sock fd f (stt s fd m k) = (case f k of (r, k') \<Rightarrow> (r, stt s fd m k'))"
  by (cases "f k") (simp add: stt_def on_sock_def)

lemma mlog_stores [simp]: "stores m fs \<Longrightarrow> mlog f as m = (Inr (), logged f as m)"
  using unlockedD(4) [OF stores_unlocked, of m fs] by (simp add: logged_def)

lemma set_errno_stt [simp]: "set_errno 0 m = (Inr (), cleared m)"
  by (simp add: cleared_def)

lemma send_checked_stt [simp]:
  "wrs k = [] \<Longrightarrow> send_checked fd n (stt s fd m k) = (Inr (), stt s fd (cleared m) (sends k (inp k) [num n]))"
  by (simp add: send_checked_run stt_def cleared_def)

lemma send_number_stt [simp]:
  "wrs k = [] \<Longrightarrow> s_send_number fd n (stt s fd m k) = (Inr 8, stt s fd (cleared m) (sends k (inp k) [num n]))"
  by (simp add: send_number_srv_run stt_def cleared_def)

lemma send_message_stt [simp]:
  "wrs k = [] \<Longrightarrow> length bs < 2 ^ 64 \<Longrightarrow> n = of_nat (length bs) \<Longrightarrow>
    s_send_message fd bs n (stt s fd m k) = (Inr 0, stt s fd (cleared m) (sends k (inp k) (message_segments bs)))"
  by (simp add: send_message_srv_run stt_def cleared_def)

lemma no_error [simp]: "e \<noteq> -1 \<Longrightarrow> error_handling_minus e = ret ()"
  by (simp add: error_handling_minus_def)

lemma logged_simps [simp]:
  "stores (logged f as m) fs = stores m fs" "keeps m' (logged f as m) = keeps m' m"
  "keeps (logged f as m) m' = keeps m m'" "heap (logged f as m) = heap m"
  "file_at (logged f as m) a nm = file_at m a nm" "mlibc (logged f as m) = mlibc m"
  "errno (logged f as m) = errno m" "limits (logged f as m) mf mx = limits m mf mx"
  by (simp_all add: logged_def keeps_def limits_def)

lemma cleared_simps [simp]:
  "stores (cleared m) fs = stores m fs" "keeps m' (cleared m) = keeps m' m"
  "keeps (cleared m) m' = keeps m m'" "heap (cleared m) = heap m"
  "file_at (cleared m) a nm = file_at m a nm" "mlibc (cleared m) = mlibc m"
  "limits (cleared m) mf mx = limits m mf mx"
  by (simp_all add: cleared_def keeps_def limits_def)

text \<open>How a case ends, in these terms.\<close>

lemma answers_stt:
  assumes "srv_ok s fs F" and "job_ok s F j w"
    and "c (stt s (client_fd w) (mem s) (socks s (client_fd w))) = answer (Some j) (err r) (status r)
      (stt s (client_fd w) m (sends (socks s (client_fd w)) es (wire r)))"
    and "stores m (files r)" and "keeps (mem s) m"
  shows "answers c s F j w es r"
  by (rule answersI [where m = m, OF assms(1,2) _ assms(4,5)]) (use assms(3) stt_start in \<open>simp add: stt_def\<close>)

lemmas case_simps = sq_def bnd_run

section \<open>Opening and creating\<close>

lemma case_open_run:
  assumes ok: "srv_ok s fs F" and job: "job_ok s F j w" and fl: "flags w \<noteq> O_CREATE"
  shows "answers (case_open (Some j) w) s F j w (inp (socks s (client_fd w)))
    (spec_open (policy (conf s)) (jfilename w) fs)"
proof -
  let ?nm = "jfilename w" and ?fd = "client_fd w"
  let ?m1 = "logged (line ''Requested open file from client! File : %s'') [LS ?nm] (mem s)"
  let ?k = "socks s ?fd"
  have st: "stores (mem s) fs" and nul: "nul_free ?nm" using ok job by (simp_all add: srv_ok_def job_ok_def)
  then have st1: "stores ?m1 fs" by simp
  note inm = store_inMem [OF st1 nul]
  show ?thesis
  proof (cases "has_file ?nm fs")
    case True
    from store_find_present [OF st1 True, of "policy (conf s)"] obtain a m2 where
      m2: "find_file (Some ?nm) (policy (conf s)) ?m1 = (Inr (Some a), m2)"
        "stores m2 (touch (policy (conf s)) ?nm fs)" "file_at m2 a ?nm" "keeps ?m1 m2" by blast
    from store_open [OF m2(2,3)] obtain m3 where
      m3: "set_file_open (Some a) m2 = (Inr (), m3)"
        "stores m3 (edit ?nm (\<lambda>c. c\<lparr>copen := True\<rparr>) (touch (policy (conf s)) ?nm fs))" "keeps m2 m3" by blast
    note steps = inm m2(1) m3(1)
    show ?thesis
    proof (rule answers_stt [where m = m3, OF ok job])
      show "case_open (Some j) w (stt s ?fd (mem s) ?k) =
        answer (Some j) (err (spec_open (policy (conf s)) ?nm fs)) (status (spec_open (policy (conf s)) ?nm fs))
          (stt s ?fd m3 (sends ?k (inp ?k) (wire (spec_open (policy (conf s)) ?nm fs))))"
        using fl st True by (simp add: case_open_def case_simps steps spec_open_def)
      show "stores m3 (files (spec_open (policy (conf s)) ?nm fs))" using m3(2) True by (simp add: spec_open_def)
      show "keeps (mem s) m3" using keeps_trans [OF m2(4) m3(3)] by simp
    qed
  next
    case False
    show ?thesis
    proof (rule answers_stt [where m = ?m1, OF ok job])
      show "case_open (Some j) w (stt s ?fd (mem s) ?k) =
        answer (Some j) (err (spec_open (policy (conf s)) ?nm fs)) (status (spec_open (policy (conf s)) ?nm fs))
          (stt s ?fd ?m1 (sends ?k (inp ?k) (wire (spec_open (policy (conf s)) ?nm fs))))"
        using fl st False by (simp add: case_open_def case_simps inm spec_open_def)
      show "stores ?m1 (files (spec_open (policy (conf s)) ?nm fs))" using st1 False by (simp add: spec_open_def)
      show "keeps (mem s) ?m1" by simp
    qed
  qed
qed

lemma cache_result_names: "has_file nm (cache_result k amt mf mx fs) \<Longrightarrow> has_file nm fs"
  using room_take [of k amt mf mx fs] unfolding cache_result_def has_file_def
  by (auto split: if_splits) (metis image_eqI in_set_takeD)

lemma cache_result_length: "length (cache_result k amt mf mx fs) \<le> length fs"
  using room_take [of k amt mf mx fs] unfolding cache_result_def
  by (metis (full_types) length_take min.cobounded1 order_refl)

lemma edit_new: "\<not> has_file nm fs \<Longrightarrow>
    edit nm u (\<lparr>cname = nm, ccontent = c, copen = b\<rparr> # fs) = u \<lparr>cname = nm, ccontent = c, copen = b\<rparr> # fs"
  using edit_absent [of nm fs u] by (simp add: edit_def)

lemma case_open_create_run:
  assumes ok: "srv_ok s fs F" and job: "job_ok s F j w" and fl: "flags w = O_CREATE"
    and lim: "limits (mem s) mf mx" and sz: "Suc (length fs) < 2 ^ 31" "content_bytes fs < 2 ^ 31"
  shows "answers (case_open (Some j) w) s F j w (inp (socks s (client_fd w)))
    (spec_create mf mx (jfilename w) fs)"
proof -
  let ?nm = "jfilename w" and ?fd = "client_fd w"
  let ?m1 = "logged (line ''Requested create file from client!'') [] (mem s)"
  let ?k = "socks s ?fd"
  have st: "stores (mem s) fs" and nul: "nul_free ?nm" and len: "length ?nm < MAXNAME"
    using ok job by (simp_all add: srv_ok_def job_ok_def)
  then have st1: "stores ?m1 fs" by simp
  note inm = store_inMem [OF st1 nul]
  show ?thesis
  proof (cases "has_file ?nm fs")
    case True
    show ?thesis
    proof (rule answers_stt [where m = ?m1, OF ok job])
      show "case_open (Some j) w (stt s ?fd (mem s) ?k) =
        answer (Some j) (err (spec_create mf mx ?nm fs)) (status (spec_create mf mx ?nm fs))
          (stt s ?fd ?m1 (sends ?k (inp ?k) (wire (spec_create mf mx ?nm fs))))"
        using fl st True by (simp add: case_open_def case_open_create_def case_simps inm spec_create_def)
      show "stores ?m1 (files (spec_create mf mx ?nm fs))" using st1 True by (simp add: spec_create_def)
      show "keeps (mem s) ?m1" by simp
    qed
  next
    case False
    let ?gs = "cache_result 1 0 mf mx fs"
    have lim1: "limits ?m1 mf mx" using lim by simp
    from store_cache [OF st1 lim1, of 1 0] sz obtain m2 where
      m2: "cache_algorithm 1 0 ?m1 = (Inr (), m2)" "stores m2 ?gs" "keeps ?m1 m2"
      by auto
    define m3 where "m3 = (if errno m2 = ECANCELED
      then logged (line ''Action is legal, cache algorithm not initiated'') [] m2 else m2)"
    have m3: "stores m3 ?gs" "keeps m2 m3" using m2(2) by (simp_all add: m3_def)
    have out: "\<not> has_file ?nm ?gs" using False cache_result_names by blast
    have lg: "Suc (length ?gs) < 2 ^ 31" using cache_result_length [of 1 0 mf mx fs] sz(1) by linarith
    have "keeps (mem s) m3" using keeps_trans [OF m2(3) m3(2)] by simp
    then have "small_ok (mlibc m3)" using ok by (simp add: srv_ok_def keeps_def)
    then have "malloc_ok (mlibc m3) sizeof_FileMemory" by (rule small_okD) simp
    from store_create [OF m3(1) nul len out lg this] obtain a t m4 where
      m4: "create_file ?nm m3 = (Inr (Some a), t)" "add_file_to_memory (Some a) t = (Inr (Some a), m4)"
        "stores m4 (\<lparr>cname = ?nm, ccontent = [], copen = False\<rparr> # ?gs)" "file_at m4 a ?nm" "keeps m3 m4" by blast
    from file_at_live [OF m4(4,3)] obtain f where f: "heap m4 a = Some f" "filename f = ?nm" by blast
    let ?m5 = "logged (line ''File %s has been created'') [LS ?nm] m4"
    have at5: "stores ?m5 (\<lparr>cname = ?nm, ccontent = [], copen = False\<rparr> # ?gs)" "file_at ?m5 a ?nm"
      using m4 by simp_all
    from store_open [OF at5] edit_new [OF out] obtain m6 where
      m6: "set_file_open (Some a) ?m5 = (Inr (), m6)"
        "stores m6 (\<lparr>cname = ?nm, ccontent = [], copen = True\<rparr> # ?gs)" "keeps ?m5 m6" by auto
    have log3: "(if errno m2 = ECANCELED
        then slog (line ''Action is legal, cache algorithm not initiated'') [] else ret ()) (stt s ?fd m2 ?k) =
        (Inr (), stt s ?fd m3 ?k)" using m2(2) by (simp add: m3_def)
    show ?thesis
    proof (rule answers_stt [where m = m6, OF ok job])
      show "case_open (Some j) w (stt s ?fd (mem s) ?k) =
        answer (Some j) (err (spec_create mf mx ?nm fs)) (status (spec_create mf mx ?nm fs))
          (stt s ?fd m6 (sends ?k (inp ?k) (wire (spec_create mf mx ?nm fs))))"
        using fl st False f m4(3) by (simp add: case_open_def case_open_create_def case_simps inm m2(1) log3 m4(1,2) m6(1) spec_create_def)
      show "stores m6 (files (spec_create mf mx ?nm fs))" using m6(2) False by (simp add: spec_create_def)
      show "keeps (mem s) m6" 
        using keeps_trans [OF \<open>keeps (mem s) m3\<close> keeps_trans [OF m4(5)]] m6(3) by simp
    qed
  qed
qed

section \<open>Removing and closing the connection\<close>

lemma case_remove_run:
  assumes ok: "srv_ok s fs F" and job: "job_ok s F j w"
  shows "answers (case_remove (Some j) w) s F j w (inp (socks s (client_fd w)))
    (spec_remove (policy (conf s)) (jfilename w) fs)"
proof -
  let ?nm = "jfilename w" and ?fd = "client_fd w" and ?pol = "policy (conf s)"
  let ?k = "socks s ?fd"
  have st: "stores (mem s) fs" and nul: "nul_free ?nm" using ok job by (simp_all add: srv_ok_def job_ok_def)
  show ?thesis
  proof (cases "has_file ?nm fs")
    case True
    from store_find_present [OF st True, of ?pol] obtain a m1 where
      m1: "find_file (Some ?nm) ?pol (mem s) = (Inr (Some a), m1)"
        "stores m1 (touch ?pol ?nm fs)" "file_at m1 a ?nm" "keeps (mem s) m1" by blast
    from file_at_live [OF m1(3,2)] obtain f where f: "heap m1 a = Some f" "filename f = ?nm" by blast
    let ?m2 = "logged (line ''Removing file %s '') [LS ?nm] m1"
    have at2: "stores ?m2 (touch ?pol ?nm fs)" "file_at ?m2 a ?nm" using m1 by simp_all
    from store_remove [OF at2] obtain m3 where
      m3: "remove_generic_file (Some a) ?m2 = (Inr 1, m3)" "stores m3 (without ?nm (touch ?pol ?nm fs))" "keeps ?m2 m3"
      by blast
    have wt: "without ?nm (touch ?pol ?nm fs) = without ?nm fs"
      by (auto simp: without_def touch_def filter_empty_conv split: cache_policy_t.split)
    show ?thesis
    proof (rule answers_stt [where m = m3, OF ok job])
      show "case_remove (Some j) w (stt s ?fd (mem s) ?k) =
        answer (Some j) (err (spec_remove ?pol ?nm fs)) (status (spec_remove ?pol ?nm fs))
          (stt s ?fd m3 (sends ?k (inp ?k) (wire (spec_remove ?pol ?nm fs))))"
        using True f m1(2) by (simp add: case_remove_def case_simps m1(1) m3(1) spec_remove_def error_handling_minus_def)
      show "stores m3 (files (spec_remove ?pol ?nm fs))" using m3(2) True wt by (simp add: spec_remove_def)
      show "keeps (mem s) m3" using keeps_trans [OF m1(4)] m3(3) by simp
    qed
  next
    case False
    from store_find_absent [OF st False nul, of ?pol] obtain m1 where
      m1: "find_file (Some ?nm) ?pol (mem s) = (Inr None, m1)" "stores m1 fs" "keeps (mem s) m1" "errno m1 = ENOENT"
      by blast
    show ?thesis
    proof (rule answers_stt [where m = m1, OF ok job])
      show "case_remove (Some j) w (stt s ?fd (mem s) ?k) =
        answer (Some j) (err (spec_remove ?pol ?nm fs)) (status (spec_remove ?pol ?nm fs))
          (stt s ?fd m1 (sends ?k (inp ?k) (wire (spec_remove ?pol ?nm fs))))"
        using False m1(4) by (simp add: case_remove_def case_simps m1(1) spec_remove_def)
      show "stores m1 (files (spec_remove ?pol ?nm fs))" using m1(2) False by (simp add: spec_remove_def)
      show "keeps (mem s) m1" by (rule m1(3))
    qed
  qed
qed

section \<open>Reading\<close>

lemma case_read_run:
  assumes ok: "srv_ok s fs F" and job: "job_ok s F j w" and sz: "content_bytes fs < 2 ^ 31"
  shows "answers (case_read (Some j) w) s F j w (inp (socks s (client_fd w)))
    (spec_read (policy (conf s)) (jfilename w) fs)"
proof -
  let ?nm = "jfilename w" and ?fd = "client_fd w" and ?pol = "policy (conf s)"
  let ?k = "socks s ?fd" and ?r = "spec_read (policy (conf s)) (jfilename w) fs"
  have st: "stores (mem s) fs" and nul: "nul_free ?nm" and wr: "wrs ?k = []"
    using ok job by (simp_all add: srv_ok_def job_ok_def)
  show ?thesis
  proof (cases "lookup_file ?nm fs")
    case None
    then have no: "\<not> has_file ?nm fs" by (simp add: lookup_file_iff)
    from store_find_absent [OF st no nul, of ?pol] obtain m1 where
      m1: "find_file (Some ?nm) ?pol (mem s) = (Inr None, m1)" "stores m1 fs" "keeps (mem s) m1" by blast
    show ?thesis
    proof (rule answers_stt [where m = "cleared m1", OF ok job])
      show "case_read (Some j) w (stt s ?fd (mem s) ?k) = answer (Some j) (err ?r) (status ?r)
          (stt s ?fd (cleared m1) (sends ?k (inp ?k) (wire ?r)))"
        using None wr by (simp add: case_read_def case_simps m1(1) spec_read_def)
    qed (use m1 None in \<open>simp_all add: spec_read_def\<close>)
  next
    case (Some c)
    then have yes: "has_file ?nm fs" by (simp add: lookup_file_iff)
    from store_find_present [OF st yes, of ?pol] obtain a m1 where
      m1: "find_file (Some ?nm) ?pol (mem s) = (Inr (Some a), m1)"
        "stores m1 (touch ?pol ?nm fs)" "file_at m1 a ?nm" "keeps (mem s) m1" by blast
    from file_at_live [OF m1(3,2)] Some obtain f where
      f: "heap m1 a = Some f" "filename f = ?nm" "c = abs_file f" "usedMemory f = of_nat (length (buffer f))"
        "\<not> lockFile f" by auto
    have lb: "length (buffer f) < 2 ^ 64"
    proof -
      have "c \<in> set fs" using lookup_Some [OF Some] by simp
      then have "length (ccontent c) \<le> content_bytes fs"
        unfolding content_bytes_def by (intro member_le_sum_list) auto
      with sz f(3) show ?thesis by simp
    qed
    let ?m2 = "logged (line ''Request to read file from client %s'') [LS ?nm] m1"
    have mx2: "mutex_ok (mlibc m1)" using unlockedD(5) [OF stores_unlocked [OF m1(2)]] .
    show ?thesis
    proof (cases "copen c")
      case False
      show ?thesis
      proof (rule answers_stt [where m = "cleared (cleared ?m2)", OF ok job])
        show "case_read (Some j) w (stt s ?fd (mem s) ?k) = answer (Some j) (err ?r) (status ?r)
            (stt s ?fd (cleared (cleared ?m2)) (sends ?k (inp ?k) (wire ?r)))"
          using Some False wr f m1(2) by (simp add: case_read_def case_simps m1(1) spec_read_def)
      qed (use m1 Some False in \<open>simp_all add: spec_read_def\<close>)
    next
      case True
      let ?m3 = "cleared (cleared (cleared ?m2))"
      let ?m4 = "logged (line ''Sent %zu bytes to client, filename : %s'') [LN (usedMemory f), LS ?nm] (cleared ?m3)"
      have lk: "lock_file (Some a) ?m3 = (Inr (), ?m3\<lparr>heap := (heap m1)(a \<mapsto> f\<lparr>lockFile := True\<rparr>)\<rparr>)"
        using lock_file_run [of ?m3 a f] f mx2 by simp
      have un: "unlock_file (Some a) (cleared (?m3\<lparr>heap := (heap m1)(a \<mapsto> f\<lparr>lockFile := True\<rparr>)\<rparr>)) = (Inr (), cleared ?m3)"
      proof -
        let ?t = "cleared (?m3\<lparr>heap := (heap m1)(a \<mapsto> f\<lparr>lockFile := True\<rparr>)\<rparr>)"
        have "unlock_file (Some a) ?t = (Inr (), ?t\<lparr>heap := (heap ?t)(a \<mapsto> (f\<lparr>lockFile := True\<rparr>)\<lparr>lockFile := False\<rparr>)\<rparr>)"
          by (rule unlock_file_run) (use mx2 in \<open>simp_all add: cleared_def logged_def\<close>)
        also have "(f\<lparr>lockFile := True\<rparr>)\<lparr>lockFile := False\<rparr> = f" using f(5) by simp
        also have "?t\<lparr>heap := (heap ?t)(a \<mapsto> f)\<rparr> = cleared ?m3"
          using f(1) by (simp add: cleared_def logged_def fun_upd_idem)
        finally show ?thesis .
      qed
      show ?thesis
      proof (rule answers_stt [where m = ?m4, OF ok job])
        show "case_read (Some j) w (stt s ?fd (mem s) ?k) = answer (Some j) (err ?r) (status ?r)
            (stt s ?fd ?m4 (sends ?k (inp ?k) (wire ?r)))"
          using Some True wr f m1(2) lb by (simp add: case_read_def case_simps m1(1) spec_read_def lk un error_handling_minus_def)
      qed (use m1 Some True in \<open>simp_all add: spec_read_def\<close>)
    qed
  qed
qed

end
