(* ===== verification/Server_Writes.thy ===== *)
theory Server_Writes
  imports Server_Cases
begin

text \<open>
  The cases that move files over the wire in the other direction or in number
  (\<open>WRITE_FILE\<close>, \<open>APPEND_FILE\<close>, \<open>READN_FILE\<close>), and \<open>CLOSE_FILE\<close>.
\<close>

section \<open>Writing\<close>

lemma sends_inp [simp]: "(sends k es segs)\<lparr>inp := es'\<rparr> = sends k es' segs"
  by (simp add: sends_def)

lemma recv_message_sends:
  assumes "inp k = map Data (message_segments bs) @ es" and "length bs < 2 ^ 63"
    and "malloc_ok (slibc k) (of_nat (length bs) + 1)"
  shows "recv_message k = (Inr (Some (bs @ [NUL])), sends k es [])"
  using recv_message_run [OF assms] by (simp add: sends_def)

lemma write_room:
  assumes st: "stores m fs" and lim: "limits m mf mx" and n: "n < 2 ^ 31" and b: "content_bytes fs < 2 ^ 31"
  shows "\<exists>m'. cache_algorithm 0 (of_nat n) m = (Inr (), m') \<and> stores m' (cache_result 0 n mf mx fs) \<and>
    keeps m m' \<and> (errno m' = E2BIG \<longleftrightarrow> mx < n) \<and> handles_follow m m' (cache_result 0 n mf mx fs)"
proof (cases "mx < n")
  case False
  then have "content_bytes fs + n < 2 ^ 31 + mx" using b by simp
  with store_cache [OF st lim, of 0 n] n stores_names(2) [OF st] show ?thesis by auto
next
  case True
  obtain as where wf: "mem_wf m as" and fs: "view m as = fs" using st by (auto simp: stores_def)
  have "cache_algorithm 0 (of_nat n) m = (Inr (), m\<lparr>errno := E2BIG\<rparr>)"
    using cache_algorithm_too_big [OF wf lim, of 0 n] mem_wfD(5) [OF wf] n b fs True by simp
  then show ?thesis
    using True handles_follow_same [OF st, of "m\<lparr>errno := E2BIG\<rparr>"] st
    by (intro exI [of _ "m\<lparr>errno := E2BIG\<rparr>"]) (simp add: cache_result_def keeps_def)
qed

lemma case_write_absent:
  assumes ok: "srv_ok s fs F" and job: "job_ok s F j w" and no: "\<not> has_file (jfilename w) fs"
  shows "answers (case_write (Some j) w) s F j w (inp (socks s (client_fd w)))
    (spec_write (policy (conf s)) mf mx (jfilename w) n bs fs)"
proof -
  let ?nm = "jfilename w" and ?fd = "client_fd w" and ?pol = "policy (conf s)"
  let ?k = "socks s ?fd" and ?r = "spec_write (policy (conf s)) mf mx (jfilename w) n bs fs"
  have st: "stores (mem s) fs" and nul: "nul_free ?nm" and wr: "wrs ?k = []"
    using ok job by (simp_all add: srv_ok_def job_ok_def)
  from store_find_absent [OF st no nul, of ?pol] obtain m1 where
    m1: "find_file (Some ?nm) ?pol (mem s) = (Inr None, m1)" "stores m1 fs" "keeps (mem s) m1" by blast
  let ?m2 = "cleared (logged (line ''Requested write file from client File : %s'') [LS ?nm] m1)"
  show ?thesis
  proof (rule answers_stt [where m = ?m2, OF ok job])
    show "case_write (Some j) w (stt s ?fd (mem s) ?k) = answer (Some j) (err ?r) (status ?r)
        (stt s ?fd ?m2 (sends ?k (inp ?k) (wire ?r)))"
      using no wr m1(2) by (simp add: case_write_def case_simps m1(1) spec_write_def)
  qed (use m1 no in \<open>simp_all add: spec_write_def\<close>)
qed

lemma case_write_big:
  assumes ok: "srv_ok s fs F" and job: "job_ok s F j w" and has: "has_file (jfilename w) fs"
    and lim: "limits (mem s) mf mx" and n: "n < 2 ^ 31" "mx < n" and b: "content_bytes fs < 2 ^ 31"
    and inp: "inp (socks s (client_fd w)) = Data (num (of_nat n)) # es"
  shows "answers (case_write (Some j) w) s F j w es
    (spec_write (policy (conf s)) mf mx (jfilename w) n bs fs)"
proof -
  let ?nm = "jfilename w" and ?fd = "client_fd w" and ?pol = "policy (conf s)"
  let ?k = "socks s ?fd" and ?r = "spec_write (policy (conf s)) mf mx (jfilename w) n bs fs"
  have st: "stores (mem s) fs" and wr: "wrs ?k = []"
    using ok job by (simp_all add: srv_ok_def job_ok_def)
  from store_find_present [OF st has, of ?pol] obtain a m1 where
    m1: "find_file (Some ?nm) ?pol (mem s) = (Inr (Some a), m1)"
      "stores m1 (touch ?pol ?nm fs)" "file_at m1 a ?nm" "keeps (mem s) m1" by blast
  let ?m2 = "cleared (logged (line ''Requested write file from client File : %s'') [LS ?nm] m1)"
  have st2: "stores ?m2 (touch ?pol ?nm fs)" using m1(2) by simp
  have lim2: "limits ?m2 mf mx" using keeps_limits [OF m1(4) lim] by simp
  from write_room [OF st2 lim2 n(1)] b n(2) obtain m3 where
    m3: "cache_algorithm 0 (of_nat n) ?m2 = (Inr (), m3)" "stores m3 (cache_result 0 n mf mx (touch ?pol ?nm fs))"
      "keeps ?m2 m3" "errno m3 = E2BIG" by auto
  show ?thesis
  proof (rule answers_stt [where m = "cleared m3", OF ok job])
    show "case_write (Some j) w (stt s ?fd (mem s) ?k) = answer (Some j) (err ?r) (status ?r)
        (stt s ?fd (cleared m3) (sends ?k es (wire ?r)))"
      using has wr n(2) inp m1(2) m3(4) by (simp add: case_write_def case_simps m1(1) m3(1) spec_write_def)
    show "stores (cleared m3) (files ?r)" using m3(2) has n(2) by (simp add: spec_write_def cache_result_def)
    show "keeps (mem s) (cleared m3)" using keeps_trans [OF m1(4)] m3(3) by simp
  qed
qed

lemma case_write_run:
  assumes ok: "srv_ok s fs F" and job: "job_ok s F j w" and has: "has_file (jfilename w) fs"
    and lim: "limits (mem s) mf mx" and n: "length bs < 2 ^ 31" "length bs \<le> mx" and b: "content_bytes fs < 2 ^ 31"
    and inp: "inp (socks s (client_fd w)) = Data (num (of_nat (length bs))) # map Data (message_segments bs) @ es"
    and mal: "malloc_ok (slibc (socks s (client_fd w))) (of_nat (length bs) + 1)"
  shows "answers (case_write (Some j) w) s F j w es
    (spec_write (policy (conf s)) mf mx (jfilename w) (length bs) bs fs)"
proof -
  let ?nm = "jfilename w" and ?fd = "client_fd w" and ?pol = "policy (conf s)"
  let ?k = "socks s ?fd" and ?r = "spec_write (policy (conf s)) mf mx (jfilename w) (length bs) bs fs"
  let ?gs = "cache_result 0 (length bs) mf mx (touch ?pol ?nm fs)"
  have st: "stores (mem s) fs" and wr: "wrs ?k = []" and nul: "nul_free ?nm"
    using ok job by (simp_all add: srv_ok_def job_ok_def)
  from store_find_present [OF st has, of ?pol] obtain a m1 where
    m1: "find_file (Some ?nm) ?pol (mem s) = (Inr (Some a), m1)"
      "stores m1 (touch ?pol ?nm fs)" "file_at m1 a ?nm" "keeps (mem s) m1" by blast
  let ?m2 = "cleared (logged (line ''Requested write file from client File : %s'') [LS ?nm] m1)"
  have st2: "stores ?m2 (touch ?pol ?nm fs)" using m1(2) by simp
  have lim2: "limits ?m2 mf mx" using keeps_limits [OF m1(4) lim] by simp
  from write_room [OF st2 lim2 n(1)] b n(2) obtain m3 where
    m3: "cache_algorithm 0 (of_nat (length bs)) ?m2 = (Inr (), m3)" "stores m3 ?gs"
      "keeps ?m2 m3" "errno m3 \<noteq> E2BIG" by auto
  have k3: "keeps (mem s) m3" using keeps_trans [OF m1(4)] m3(3) by simp
  let ?k3 = "sends ?k (map Data (message_segments bs) @ es) [num (widen CONTINUE), num (widen CONTINUE)]"
  have rm: "recv_message ?k3 = (Inr (Some (bs @ [NUL])), sends ?k es [num (widen CONTINUE), num (widen CONTINUE)])"
    using recv_message_sends [of ?k3 bs es] n(1) mal by simp
  have st3: "stores (cleared m3) ?gs" using m3(2) by simp
  show ?thesis
  proof (cases "has_file ?nm ?gs")
    case False
    from store_find_absent [OF st3 False nul, of FIFO] obtain m4 where
      m4: "find_file (Some ?nm) FIFO (cleared m3) = (Inr None, m4)" "stores m4 ?gs" "keeps (cleared m3) m4" by blast
    show ?thesis
    proof (rule answers_stt [where m = "cleared m4", OF ok job])
      show "case_write (Some j) w (stt s ?fd (mem s) ?k) = answer (Some j) (err ?r) (status ?r)
          (stt s ?fd (cleared m4) (sends ?k es (wire ?r)))"
        using has False wr n(2) inp m1(2) m3(4) rm
        by (simp add: case_write_def case_simps m1(1) m3(1) m4(1) spec_write_def)
      show "stores (cleared m4) (files ?r)" using m4(2) has n(2) False by (simp add: spec_write_def)
      show "keeps (mem s) (cleared m4)" using keeps_trans [OF k3] m4(3) by simp
    qed
  next
    case True
    from store_find_present [OF st3 True, of FIFO] obtain b m4 where
      m4: "find_file (Some ?nm) FIFO (cleared m3) = (Inr (Some b), m4)" "stores m4 ?gs"
        "file_at m4 b ?nm" "keeps (cleared m3) m4" by (auto simp: touch_def)
    let ?m5 = "cleared m4"
    have at5: "stores ?m5 ?gs" "file_at ?m5 b ?nm" using m4 by simp_all
    from store_write [OF at5 n(1), of "bs @ [NUL]"] obtain m6 where
      m6: "write_to_file (Some b) (bs @ [NUL]) (of_nat (length bs)) ?m5 = (Inr (of_nat (length bs)), m6)"
        "stores m6 (edit ?nm (\<lambda>c. c\<lparr>ccontent := ccontent c @ bs\<rparr>) ?gs)" "file_at m6 b ?nm" "keeps ?m5 m6" by auto
    from file_at_live [OF m6(3,2)] obtain f where f: "heap m6 b = Some f" "filename f = ?nm" by blast
    let ?m7 = "logged (line ''Wrote %zu bytes to server, filename: %s'') [LN (usedMemory f), LS ?nm] m6"
    show ?thesis
    proof (rule answers_stt [where m = ?m7, OF ok job])
      show "case_write (Some j) w (stt s ?fd (mem s) ?k) = answer (Some j) (err ?r) (status ?r)
          (stt s ?fd ?m7 (sends ?k es (wire ?r)))"
        using has True wr n(2) inp m1(2) m3(4) rm f m6(2)
        by (simp add: case_write_def case_simps m1(1) m3(1) m4(1) m6(1) spec_write_def)
      show "stores ?m7 (files ?r)" using m6(2) has n(2) True by (simp add: spec_write_def)
      show "keeps (mem s) ?m7" using keeps_trans [OF k3 keeps_trans [OF _ m6(4)]] m4(4) by simp
    qed
  qed
qed

section \<open>Appending\<close>

text \<open>
  \<open>APPEND_FILE\<close> keeps the pointer it found before room was made. It answers like a write
  that gets one go-ahead less, as long as the file itself is not evicted.
\<close>

definition spec_append :: "cache_policy_t \<Rightarrow> nat \<Rightarrow> nat \<Rightarrow> string \<Rightarrow> char list \<Rightarrow> cfile list \<Rightarrow> reply_spec" where
  "spec_append pol mf mx nm bs fs =
     (if \<not> has_file nm fs
      then \<lparr>wire = [num (widen NOT_OK)], err = ENONET, status = NOT_OK, files = fs\<rparr>
      else if mx < length bs
      then \<lparr>wire = [num (widen CONTINUE), num (widen NO_CONTINUE)], err = E2BIG, status = NOT_OK,
            files = touch pol nm fs\<rparr>
      else \<lparr>wire = [num (widen CONTINUE)], err = 0, status = OK,
            files = edit nm (\<lambda>c. c\<lparr>ccontent := ccontent c @ bs\<rparr>)
              (cache_result 0 (length bs) mf mx (touch pol nm fs))\<rparr>)"

lemma case_append_absent:
  assumes ok: "srv_ok s fs F" and job: "job_ok s F j w" and no: "\<not> has_file (jfilename w) fs"
  shows "answers (case_append (Some j) w) s F j w (inp (socks s (client_fd w)))
    (spec_append (policy (conf s)) mf mx (jfilename w) bs fs)"
proof -
  let ?nm = "jfilename w" and ?fd = "client_fd w" and ?pol = "policy (conf s)"
  let ?k = "socks s ?fd" and ?r = "spec_append (policy (conf s)) mf mx (jfilename w) bs fs"
  have st: "stores (mem s) fs" and nul: "nul_free ?nm" and wr: "wrs ?k = []"
    using ok job by (simp_all add: srv_ok_def job_ok_def)
  from store_find_absent [OF st no nul, of ?pol] obtain m1 where
    m1: "find_file (Some ?nm) ?pol (mem s) = (Inr None, m1)" "stores m1 fs" "keeps (mem s) m1" by blast
  let ?m2 = "cleared m1"
  show ?thesis
  proof (rule answers_stt [where m = ?m2, OF ok job])
    show "case_append (Some j) w (stt s ?fd (mem s) ?k) = answer (Some j) (err ?r) (status ?r)
        (stt s ?fd ?m2 (sends ?k (inp ?k) (wire ?r)))"
      using no wr m1(2) by (simp add: case_append_def case_simps m1(1) spec_append_def)
  qed (use m1 no in \<open>simp_all add: spec_append_def\<close>)
qed

lemma case_append_big:
  assumes ok: "srv_ok s fs F" and job: "job_ok s F j w" and has: "has_file (jfilename w) fs"
    and lim: "limits (mem s) mf mx" and n: "length bs < 2 ^ 31" "mx < length bs" and b: "content_bytes fs < 2 ^ 31"
    and inp: "inp (socks s (client_fd w)) = Data (num (of_nat (length bs))) # es"
  shows "answers (case_append (Some j) w) s F j w es
    (spec_append (policy (conf s)) mf mx (jfilename w) bs fs)"
proof -
  let ?nm = "jfilename w" and ?fd = "client_fd w" and ?pol = "policy (conf s)"
  let ?k = "socks s ?fd" and ?r = "spec_append (policy (conf s)) mf mx (jfilename w) bs fs"
  have st: "stores (mem s) fs" and wr: "wrs ?k = []"
    using ok job by (simp_all add: srv_ok_def job_ok_def)
  from store_find_present [OF st has, of ?pol] obtain a m1 where
    m1: "find_file (Some ?nm) ?pol (mem s) = (Inr (Some a), m1)"
      "stores m1 (touch ?pol ?nm fs)" "file_at m1 a ?nm" "keeps (mem s) m1" by blast
  let ?m2 = "cleared m1"
  have st2: "stores ?m2 (touch ?pol ?nm fs)" using m1(2) by simp
  have lim2: "limits ?m2 mf mx" using keeps_limits [OF m1(4) lim] by simp
  from write_room [OF st2 lim2 n(1)] b n(2) obtain m3 where
    m3: "cache_algorithm 0 (of_nat (length bs)) ?m2 = (Inr (), m3)" "stores m3 (cache_result 0 (length bs) mf mx (touch ?pol ?nm fs))"
      "keeps ?m2 m3" "errno m3 = E2BIG" by auto
  show ?thesis
  proof (rule answers_stt [where m = "cleared m3", OF ok job])
    show "case_append (Some j) w (stt s ?fd (mem s) ?k) = answer (Some j) (err ?r) (status ?r)
        (stt s ?fd (cleared m3) (sends ?k es (wire ?r)))"
      using has wr n(2) inp m1(2) m3(4) by (simp add: case_append_def case_simps m1(1) m3(1) spec_append_def)
    show "stores (cleared m3) (files ?r)" using m3(2) has n(2) by (simp add: spec_append_def cache_result_def)
    show "keeps (mem s) (cleared m3)" using keeps_trans [OF m1(4)] m3(3) by simp
  qed
qed

lemma case_append_prefix:
  assumes ok: "srv_ok s fs F" and job: "job_ok s F j w" and has: "has_file (jfilename w) fs"
    and lim: "limits (mem s) mf mx" and n: "length bs < 2 ^ 31" "length bs \<le> mx" and b: "content_bytes fs < 2 ^ 31"
    and inp: "inp (socks s (client_fd w)) = Data (num (of_nat (length bs))) # map Data (message_segments bs) @ es"
    and mal: "malloc_ok (slibc (socks s (client_fd w))) (of_nat (length bs) + 1)"
  defines "gs \<equiv> cache_result 0 (length bs) mf mx (touch (policy (conf s)) (jfilename w) fs)"
  shows "\<exists>a m. case_append (Some j) w (stt s (client_fd w) (mem s) (socks s (client_fd w))) =
      bnd (in_mem (write_to_file (Some a) (bs @ [NUL]) (of_nat (length bs)))) (\<lambda>_.
      bnd (in_mem (deref (Some a))) (\<lambda>f.
      sq (slog (line ''Wrote %zu bytes to server, filename: %s'') [LN (usedMemory f), LS (filename f)])
      (answer (Some j) 0 OK)))
      (stt s (client_fd w) m (sends (socks s (client_fd w)) es [num (widen CONTINUE)])) \<and>
    stores m gs \<and> keeps (mem s) m \<and> (if has_file (jfilename w) gs then file_at m a (jfilename w) else heap m a = None)"
proof -
  let ?nm = "jfilename w" and ?fd = "client_fd w" and ?pol = "policy (conf s)"
  let ?k = "socks s ?fd"
  have st: "stores (mem s) fs" and wr: "wrs ?k = []"
    using ok job by (simp_all add: srv_ok_def job_ok_def)
  from store_find_present [OF st has, of ?pol] obtain a m1 where
    m1: "find_file (Some ?nm) ?pol (mem s) = (Inr (Some a), m1)"
      "stores m1 (touch ?pol ?nm fs)" "file_at m1 a ?nm" "keeps (mem s) m1" by blast
  let ?m2 = "cleared m1"
  have st2: "stores ?m2 (touch ?pol ?nm fs)" using m1(2) by simp
  have lim2: "limits ?m2 mf mx" using keeps_limits [OF m1(4) lim] by simp
  from write_room [OF st2 lim2 n(1)] b n(2) obtain m3 where
    m3: "cache_algorithm 0 (of_nat (length bs)) ?m2 = (Inr (), m3)" "stores m3 gs"
      "keeps ?m2 m3" "errno m3 \<noteq> E2BIG" "handles_follow ?m2 m3 gs" unfolding gs_def by auto
  let ?k3 = "sends ?k (map Data (message_segments bs) @ es) [num (widen CONTINUE)]"
  have rm: "recv_message ?k3 = (Inr (Some (bs @ [NUL])), sends ?k es [num (widen CONTINUE)])"
    using recv_message_sends [of ?k3 bs es] n(1) mal by simp
  have "case_append (Some j) w (stt s ?fd (mem s) ?k) =
      bnd (in_mem (write_to_file (Some a) (bs @ [NUL]) (of_nat (length bs)))) (\<lambda>_.
      bnd (in_mem (deref (Some a))) (\<lambda>f.
      sq (slog (line ''Wrote %zu bytes to server, filename: %s'') [LN (usedMemory f), LS (filename f)])
      (answer (Some j) 0 OK)))
      (stt s ?fd m3 (sends ?k es [num (widen CONTINUE)]))"
    using wr inp m3(4) rm by (simp add: case_append_def case_simps m1(1) m3(1))
  moreover have "keeps (mem s) m3" using keeps_trans [OF m1(4)] m3(3) by simp
  moreover have "if has_file ?nm gs then file_at m3 a ?nm else heap m3 a = None"
    using m3(5) m1(3) unfolding handles_follow_def by simp
  ultimately show ?thesis using m3(2) by blast
qed

lemma case_append_run:
  assumes ok: "srv_ok s fs F" and job: "job_ok s F j w" and has: "has_file (jfilename w) fs"
    and lim: "limits (mem s) mf mx" and n: "length bs < 2 ^ 31" "length bs \<le> mx" and b: "content_bytes fs < 2 ^ 31"
    and inp: "inp (socks s (client_fd w)) = Data (num (of_nat (length bs))) # map Data (message_segments bs) @ es"
    and mal: "malloc_ok (slibc (socks s (client_fd w))) (of_nat (length bs) + 1)"
    and stays: "has_file (jfilename w) (cache_result 0 (length bs) mf mx (touch (policy (conf s)) (jfilename w) fs))"
  shows "answers (case_append (Some j) w) s F j w es
    (spec_append (policy (conf s)) mf mx (jfilename w) bs fs)"
proof -
  let ?nm = "jfilename w" and ?fd = "client_fd w" and ?pol = "policy (conf s)"
  let ?k = "socks s ?fd" and ?r = "spec_append (policy (conf s)) mf mx (jfilename w) bs fs"
  let ?gs = "cache_result 0 (length bs) mf mx (touch ?pol ?nm fs)"
  from case_append_prefix [OF ok job has lim n b inp mal] stays obtain a m where
    run: "case_append (Some j) w (stt s ?fd (mem s) ?k) =
      bnd (in_mem (write_to_file (Some a) (bs @ [NUL]) (of_nat (length bs)))) (\<lambda>_.
      bnd (in_mem (deref (Some a))) (\<lambda>f.
      sq (slog (line ''Wrote %zu bytes to server, filename: %s'') [LN (usedMemory f), LS (filename f)])
      (answer (Some j) 0 OK)))
      (stt s ?fd m (sends ?k es [num (widen CONTINUE)]))"
    and st: "stores m ?gs" and km: "keeps (mem s) m" and at: "file_at m a ?nm" by auto
  from store_write [OF st at n(1), of "bs @ [NUL]"] obtain m6 where
    m6: "write_to_file (Some a) (bs @ [NUL]) (of_nat (length bs)) m = (Inr (of_nat (length bs)), m6)"
      "stores m6 (edit ?nm (\<lambda>c. c\<lparr>ccontent := ccontent c @ bs\<rparr>) ?gs)" "file_at m6 a ?nm" "keeps m m6" by auto
  from file_at_live [OF m6(3,2)] obtain f where f: "heap m6 a = Some f" "filename f = ?nm" by blast
  let ?m7 = "logged (line ''Wrote %zu bytes to server, filename: %s'') [LN (usedMemory f), LS ?nm] m6"
  show ?thesis
  proof (rule answers_stt [where m = ?m7, OF ok job])
    show "case_append (Some j) w (stt s ?fd (mem s) ?k) = answer (Some j) (err ?r) (status ?r)
        (stt s ?fd ?m7 (sends ?k es (wire ?r)))"
      using f m6(2) has n(2) by (simp add: run case_simps m6(1) spec_append_def)
    show "stores ?m7 (files ?r)" using m6(2) has n(2) by (simp add: spec_append_def)
    show "keeps (mem s) ?m7" using keeps_trans [OF km m6(4)] by simp
  qed
qed

text \<open>If it is evicted, the write goes through the freed pointer.\<close>

lemma case_append_freed:
  assumes ok: "srv_ok s fs F" and job: "job_ok s F j w" and has: "has_file (jfilename w) fs"
    and lim: "limits (mem s) mf mx" and n: "length bs < 2 ^ 31" "length bs \<le> mx" and b: "content_bytes fs < 2 ^ 31"
    and inp: "inp (socks s (client_fd w)) = Data (num (of_nat (length bs))) # map Data (message_segments bs) @ es"
    and mal: "malloc_ok (slibc (socks s (client_fd w))) (of_nat (length bs) + 1)"
    and gone: "\<not> has_file (jfilename w) (cache_result 0 (length bs) mf mx (touch (policy (conf s)) (jfilename w) fs))"
  shows "fst (case_append (Some j) w s) = Inl Use_after_free"
proof -
  let ?fd = "client_fd w"
  let ?k = "socks s ?fd"
  from case_append_prefix [OF ok job has lim n b inp mal] gone obtain a m where
    run: "case_append (Some j) w (stt s ?fd (mem s) ?k) =
      bnd (in_mem (write_to_file (Some a) (bs @ [NUL]) (of_nat (length bs)))) (\<lambda>_.
      bnd (in_mem (deref (Some a))) (\<lambda>f.
      sq (slog (line ''Wrote %zu bytes to server, filename: %s'') [LN (usedMemory f), LS (filename f)])
      (answer (Some j) 0 OK)))
      (stt s ?fd m (sends ?k es [num (widen CONTINUE)]))"
    and st: "stores m (cache_result 0 (length bs) mf mx (touch (policy (conf s)) (jfilename w) fs))"
    and dead: "heap m a = None" by auto
  note u = unlockedD [OF stores_unlocked [OF st]]
  have "\<exists>m'. write_to_file (Some a) (bs @ [NUL]) (of_nat (length bs)) m = (Inl Use_after_free, m')"
    using u dead by (simp add: write_to_file_def lock_file_def sq_def bnd_run)
  then have "fst (case_append (Some j) w (stt s ?fd (mem s) ?k)) = Inl Use_after_free"
    by (auto simp: run case_simps)
  then show ?thesis using stt_start [of s ?fd] by simp
qed

end
