(* ===== verification/Server_Reads.thy ===== *)
theory Server_Reads
  imports Server_Writes
begin

text \<open>
  \<open>READN_FILE\<close>, which sends the first files of the list, \<open>CLOSE_FILE\<close>, which runs into
  \<open>READ_FILE\<close>, and the end of a connection.
\<close>

section \<open>Reading many files\<close>

definition quiet :: "mem_state \<Rightarrow> mem_state \<Rightarrow> bool" where
  "quiet m m' \<longleftrightarrow> heap m' = heap m \<and> (\<forall>fs. stores m' fs = stores m fs) \<and> keeps m m'"

lemma quiet_simps [simp]:
  "quiet m m" "quiet m (logged f as m') = quiet m m'" "quiet m (cleared m') = quiet m m'"
  by (simp_all add: quiet_def)

lemma file_segments_eq:
  "file_segments (abs_file f) = message_segments (buffer f) @ [num (of_nat (length (buffer f)))]"
  by (simp add: file_segments_def)

lemma readn_files_run:
  assumes "chain fnext (heap m) p as" and "\<forall>a \<in> set as. file_wf (file_of m a)"
    and "\<forall>a \<in> set as. length (buffer (file_of m a)) < 2 ^ 64" and "n \<le> length as"
    and "wrs k = []" and "stores m fs"
  shows "\<exists>m'. readn_files n fd p (stt s fd m k) =
      (Inr (), stt s fd m' (sends k (inp k) (concat (map (\<lambda>a. file_segments (abs_file (file_of m a))) (take n as))))) \<and>
    quiet m m'"
  using assms
proof (induction n arbitrary: p as m k)
  case 0
  then show ?case by (intro exI [of _ m]) simp
next
  case (Suc n)
  then obtain a bs where as: "as = a # bs" by (cases as) auto
  then obtain f where f: "p = Some a" "heap m a = Some f" "chain fnext (heap m) (fnext f) bs" using Suc.prems(1) by auto
  have fw: "usedMemory f = of_nat (length (buffer f))" "length (buffer f) < 2 ^ 64"
    using Suc.prems(2,3) f(2) as by (auto simp: file_wf_def)
  let ?m = "logged (line ''Sent %zu bytes to client, filename : %s'') [LN (usedMemory f), LS (filename f)] (cleared (cleared m))"
  let ?k = "sends k (inp k) (file_segments (abs_file f))"
  have "readn_files (Suc n) fd p (stt s fd m k) = readn_files n fd (fnext f) (stt s fd ?m ?k)"
    using f fw Suc.prems(5,6) by (simp add: case_simps file_segments_eq next_file_def)
  moreover have "\<exists>m'. readn_files n fd (fnext f) (stt s fd ?m ?k) =
      (Inr (), stt s fd m' (sends ?k (inp ?k) (concat (map (\<lambda>a. file_segments (abs_file (file_of ?m a))) (take n bs))))) \<and>
    quiet ?m m'"
    by (rule Suc.IH) (use f Suc.prems as in auto)
  ultimately show ?case using as f(2) by (auto simp: quiet_def)
qed

lemma readn_count_nat:
  assumes "len < 2 ^ 31"
  shows "(if n > of_nat len then len else if n = 0 then len else nat (sint n)) = readn_count n len"
    and "\<not> n > (of_nat len :: i32) \<Longrightarrow> n \<noteq> 0 \<Longrightarrow> widen n = of_nat (readn_count n len)"
proof -
  have le: "n > (of_nat len :: i32) \<longleftrightarrow> len < unat n"
    using assms by (simp add: word_less_nat_alt unat32_of_nat_small)
  have si: "sint n = int (unat n)" if "unat n \<le> len"
  proof -
    have "n = of_nat (unat n)" by simp
    moreover have "unat n < 2 ^ 31" using that assms by linarith
    ultimately show ?thesis using sint_of_nat_small [of "unat n"] by metis
  qed
  show "(if n > of_nat len then len else if n = 0 then len else nat (sint n)) = readn_count n len"
    using le si by (auto simp: readn_count_def min_def)
  show "widen n = of_nat (readn_count n len)" if "\<not> n > (of_nat len :: i32)" "n \<noteq> 0"
  proof -
    have u: "unat n \<le> len" using that(1) le by simp
    then have "unat n < 2 ^ 31" using assms by linarith
    then have "widen (of_nat (unat n)) = (of_nat (unat n) :: u64)" by (rule widen_of_nat)
    then show ?thesis using u that(2) by (simp add: readn_count_def min_def)
  qed
qed

lemma ucast_of_nat32: "len < 2 ^ 31 \<Longrightarrow> (ucast (of_nat len :: u32) :: u64) = of_nat len"
  by (simp add: unsigned_of_nat take_bit_nat_eq_self)

lemma case_readn_run:
  assumes ok: "srv_ok s fs F" and job: "job_ok s F j w" and sz: "content_bytes fs < 2 ^ 31"
  shows "answers (case_readn (Some j) w) s F j w (inp (socks s (client_fd w))) (spec_readn (flags w) fs)"
proof -
  let ?fd = "client_fd w" and ?k = "socks s (client_fd w)"
  let ?n = "flags w" and ?len = "length fs"
  have st: "stores (mem s) fs" and wr: "wrs ?k = []" using ok job by (simp_all add: srv_ok_def job_ok_def)
  then obtain as where wf: "mem_wf (mem s) as" and fs: "view (mem s) as = fs" by (auto simp: stores_def)
  have len: "?len < 2 ^ 31" using stores_names(2) [OF st] .
  have cnt: "get_actual_files (mem s) = (Inr (of_nat ?len), mem s)"
    using get_actual_files_run [OF mem_wf_unlocked [OF wf]] mem_wfD(6) [OF wf] fs by auto
  have z: "(of_nat ?len :: u32) = 0 \<longleftrightarrow> fs = []" using n_of_nat [of ?len] len by simp
  show ?thesis
  proof (cases "fs = []")
    case True
    show ?thesis
    proof (rule answers_stt [where m = "cleared (mem s)", OF ok job])
      show "case_readn (Some j) w (stt s ?fd (mem s) ?k) = answer (Some j) (err (spec_readn ?n fs))
          (status (spec_readn ?n fs)) (stt s ?fd (cleared (mem s)) (sends ?k (inp ?k) (wire (spec_readn ?n fs))))"
        using True wr cnt by (simp add: case_readn_def case_simps spec_readn_def)
    qed (use st True in \<open>simp_all add: spec_readn_def\<close>)
  next
    case False
    let ?c = "readn_count ?n ?len"
    let ?m1 = "cleared (mem s)"
    let ?k1 = "sends ?k (inp ?k) [num (of_nat ?c)]"
    let ?k2 = "sends ?k (inp ?k) [num (of_nat ?c), num (widen CONTINUE)]"
    have ne: "(of_nat ?len :: u32) \<noteq> 0" using z False by simp
    define nn where "nn = (if ?n > of_nat ?len then (of_nat ?len :: i32) else if ?n = 0 then of_nat ?len else ?n)"
    have count: "readn_send_count w (of_nat ?len) (stt s ?fd (mem s) ?k) = (Inr nn, stt s ?fd ?m1 ?k1)"
    proof -
      have big: "?n > (of_nat ?len :: i32) \<Longrightarrow> ?c = ?len" and zero: "?n = 0 \<Longrightarrow> ?c = ?len"
        using readn_count_nat(1) [OF len, of ?n] by (simp_all split: if_splits)
      show ?thesis
        using wr big zero readn_count_nat(2) [OF len, of ?n] len
        by (auto simp: readn_send_count_def nn_def case_simps Let_def ucast_of_nat32 widen_of_nat)
    qed
    have nat_nn: "nat (sint nn) = ?c"
    proof -
      have "nat (sint nn) = (if ?n > of_nat ?len then ?len else if ?n = 0 then ?len else nat (sint ?n))"
        using sint_of_nat_small [OF len] by (simp add: nn_def)
      also have "\<dots> = ?c" by (rule readn_count_nat(1) [OF len])
      finally show ?thesis .
    qed
    have c: "?c \<le> length as" using fs by (auto simp: readn_count_def)
    have m: "memory (mem s) \<noteq> None" using mem_wfD(1) [OF wf] False fs by (cases "memory (mem s)") (auto simp: view_def)
    have head: "get_head ?m1 = (Inr (memory (mem s)), ?m1)"
      using get_head_run [of ?m1] unlockedD [OF mem_wf_unlocked [OF wf]] by (simp add: cleared_def unlocked_def)
    have lb: "\<forall>a \<in> set as. length (buffer (file_of (mem s) a)) < 2 ^ 64"
    proof
      fix a assume "a \<in> set as"
      then have "abs_file (file_of (mem s) a) \<in> set fs" using fs by (auto simp: view_def)
      then have "length (buffer (file_of (mem s) a)) \<in> set (map (\<lambda>c. length (ccontent c)) fs)" by force
      then have "length (buffer (file_of (mem s) a)) \<le> content_bytes fs"
        unfolding content_bytes_def by (rule member_le_sum_list) simp
      with sz show "length (buffer (file_of (mem s) a)) < 2 ^ 64" by simp
    qed
    let ?m2 = "cleared ?m1"
    have "\<exists>m'. readn_files ?c ?fd (memory (mem s)) (stt s ?fd ?m2 ?k2) =
        (Inr (), stt s ?fd m' (sends ?k2 (inp ?k2) (concat (map (\<lambda>a. file_segments (abs_file (file_of ?m2 a))) (take ?c as))))) \<and>
      quiet ?m2 m'"
      by (rule readn_files_run [where fs = fs]) (use mem_wfD(1,3) [OF wf] lb c wr st in simp_all)
    moreover have "sends ?k2 (inp ?k2) (concat (map (\<lambda>a. file_segments (abs_file (file_of ?m2 a))) (take ?c as))) =
        sends ?k (inp ?k) (wire (spec_readn ?n fs))"
    proof -
      have "map (\<lambda>a. file_segments (abs_file (file_of ?m2 a))) (take ?c as) = map file_segments (take ?c fs)"
        by (simp add: fs [symmetric] view_def take_map o_def)
      then show ?thesis using False by (simp add: spec_readn_def Let_def)
    qed
    ultimately obtain m' where loop: "readn_files ?c ?fd (memory (mem s)) (stt s ?fd ?m2 ?k2) =
        (Inr (), stt s ?fd m' (sends ?k (inp ?k) (wire (spec_readn ?n fs))))" and q: "quiet ?m2 m'"
      by auto
    show ?thesis
    proof (rule answers_stt [where m = m', OF ok job])
      show "case_readn (Some j) w (stt s ?fd (mem s) ?k) = answer (Some j) (err (spec_readn ?n fs))
          (status (spec_readn ?n fs)) (stt s ?fd m' (sends ?k (inp ?k) (wire (spec_readn ?n fs))))"
        using False ne wr m loop
        by (auto simp add: case_readn_def case_simps count cnt head nat_nn spec_readn_def Let_def simp del: not_None_eq)
      show "stores m' (files (spec_readn ?n fs))" using q st False by (simp add: quiet_def spec_readn_def Let_def)
      show "keeps (mem s) m'" using q by (simp add: quiet_def)
    qed
  qed
qed

section \<open>Closing\<close>

lemma case_close_connection_run:
  assumes ok: "srv_ok s fs F" and job: "job_ok s F j w"
  shows "answers (case_close_connection (Some j)) s F j w (inp (socks s (client_fd w)))
    \<lparr>wire = [], err = 0, status = OK, files = fs\<rparr>"
proof -
  let ?fd = "client_fd w"
  let ?k = "socks s ?fd"
  have st: "stores (mem s) fs" using ok by (simp add: srv_ok_def)
  from answer_run [OF ok job st keeps_refl, of 0 OK ?k] obtain q where
    q: "answer (Some j) 0 OK s = (Inr Next_job, reply s j w 0 OK (mem s) q ?k)" "queues q (delivered F j w)" by auto
  then have push: "set_response_for_client_and_push (Some j) 0 OK s = (Inr (), reply s j w 0 OK (mem s) q ?k)"
    by (auto simp: case_simps split: prod.splits sum.splits)
  have lg: "slog f as s' = (Inr (), s'\<lparr>mem := logged f as (mem s)\<rparr>)" if "mem s' = mem s" for f as s'
    by (rule in_mem_run) (use st that in simp)
  have "case_close_connection (Some j) s =
      (Inr Next_job, reply s j w 0 OK (logged (line ''Closing client connection!'') [] (mem s)) q ?k)"
    using st push by (simp add: case_close_connection_def case_simps reply_def lg)
  with q(2) st show ?thesis
    unfolding answers_def by (intro exI [of _ "logged (line ''Closing client connection!'') [] (mem s)"] exI [of _ q]) simp
qed

end
