(* ===== verification/Session.thy ===== *)
theory Session
  imports Server_Reads
begin

text \<open>
  One request from its bytes to the bytes of its answer: the client's thread reads it and
  pushes a job, a worker takes the job and serves it, the client's thread takes the answer
  and sends it. The threads run one after the other here; \<open>session\<close> is that schedule.
\<close>

section \<open>The three steps\<close>

definition request_segments :: "i32 \<Rightarrow> string \<Rightarrow> i32 \<Rightarrow> char list list" where
  "request_segments opc nm flgs =
     num (widen opc) # message_segments (nm @ [NUL]) @ [num (widen flgs)]"

definition response_segments :: "i32 \<Rightarrow> i32 \<Rightarrow> char list list" where
  "response_segments st e = [num (widen st), num (widen e)]"

definition session :: "nat \<Rightarrow> addr \<Rightarrow> bool scmd" where
  "session fd l =
     bnd (client_request fd (Some l)) (\<lambda>_.
     bnd worker_round (\<lambda>_.
     client_response (Some l)))"

lemma narrow_widen [simp]: "narrow (widen w) = w"
  by (subst scast_eq, subst narrow_of_int) simp

text \<open>The job made of a request.\<close>

definition request_job :: "i32 \<Rightarrow> string \<Rightarrow> i32 \<Rightarrow> nat \<Rightarrow> addr \<Rightarrow> Job" where
  "request_job opc nm flgs fd l = \<lparr>op = opc, flags = flgs, jfilename = nm, client_queue = Some l, jerr = INITED,
     status_request = INITED, client_fd = fd\<rparr>"

lemma queues_libc: "queues q F \<Longrightarrow> libc_ok (qlibc q)"
  by (auto simp: queues_def boxes_def)

lemma client_request_run:
  fixes l :: addr
  assumes ok: "srv_ok s fs F" and wl: "workList s = Some wl" "F wl = Some xs" "length xs < list_cap"
    and nm: "nul_free nm" "length nm < MAXNAME"
    and inp: "inp (socks s fd) = map Data (request_segments opc nm flgs) @ es"
    and mal: "small_ok (slibc (socks s fd))"
  defines "j \<equiv> jfresh s"
  defines "w \<equiv> request_job opc nm flgs fd l"
  shows "\<exists>q. client_request fd (Some l) s = (Inr True, s\<lparr>jobs := (jobs s)(j \<mapsto> w), jfresh := Suc j, qs := q,
      socks := (socks s)(fd := sends (socks s fd) es [])\<rparr>) \<and> queues q (F(wl \<mapsto> xs @ [j]))"
proof -
  have q: "queues (qs s) F" using ok by (simp add: srv_ok_def)
  from mb.put [OF q wl(2,3), of j] obtain q' where
    q': "send_obj wl j (qs s) = (Inr 0, q')" "queues q' (F(wl \<mapsto> xs @ [j]))" by blast
  let ?k1 = "sends (socks s fd) (map Data (message_segments (nm @ [NUL])) @ Data (num (widen flgs)) # es) []"
  let ?k2 = "sends (socks s fd) (Data (num (widen flgs)) # es) []"
  let ?k3 = "sends (socks s fd) es []"
  have r1: "recv_number (socks s fd) = (Inr (widen opc), ?k1)"
    using inp by (simp add: request_segments_def sends_def)
  have mn: "malloc_ok (slibc (socks s fd)) (of_nat (length (nm @ [NUL])) + 1)"
  proof -
    have "(of_nat (length (nm @ [NUL])) + 1 :: u64) = of_nat (length nm + 2)" by simp
    also have "\<dots> < of_nat 65536" by (subst of_nat_less64) (use nm(2) in auto)
    finally show ?thesis using small_okD [OF mal] by simp
  qed
  have r2: "recv_message ?k1 = (Inr (Some ((nm @ [NUL]) @ [NUL])), ?k2)"
  proof -
    have "recv_message ?k1 = (Inr (Some ((nm @ [NUL]) @ [NUL])), sends ?k1 (Data (num (widen flgs)) # es) [])"
      by (rule recv_message_sends) (use nm(2) mn in \<open>simp_all\<close>)
    then show ?thesis by simp
  qed
  have r3: "recv_number ?k2 = (Inr (widen flgs), ?k3)" by (simp add: sends_def)
  have cs: "cstr ((nm @ [NUL]) @ [NUL]) = nm" using cstr_id [OF nm(1), of "[NUL]"] by simp
  have mj: "malloc_ok (qlibc (qs s)) sizeof_Job" using queues_small [OF q] by (rule small_okD) simp
  have mnode: "malloc_ok (qlibc (qs s)) sizeof_Node" using queues_small [OF q] by (rule small_okD) simp
  have "client_request fd (Some l) s = (Inr True, s\<lparr>jobs := (jobs s)(j \<mapsto> w), jfresh := Suc j, qs := q',
      socks := (socks s)(fd := ?k3)\<rparr>)"
    using r1 r2 r3 cs nm(2) mj mnode wl(1) q'(1)
    by (simp add: client_request_def case_simps on_sock_def jobInit_def create_work_def zoom_run
        send_obj_def create_node_run j_def w_def request_job_def)
  with q'(2) show ?thesis by blast
qed

lemma take_obj_parts:
  assumes "take_obj l q = (Inr x, q')"
  shows "\<exists>a n q1. pop_element_from_tail (Some l) q = (Inr (Some a), q1) \<and> nodes q1 a = Some n \<and>
    free_node (Some a) q1 = (Inr (), q') \<and> obj n = Some x"
proof -
  from assms obtain p q1 where p: "pop_element_from_tail (Some l) q = (Inr p, q1)"
    and r: "bnd (nderef p) (\<lambda>n. sq (free_node p) (case obj n of None \<Rightarrow> stop Null_deref | Some ob \<Rightarrow> ret ob)) q1 = (Inr x, q')"
    unfolding take_obj_def by (rule bnd_InrE)
  from r obtain a n where a: "p = Some a" "nodes q1 a = Some n"
    by (auto simp: bnd_run nderef_def split: option.splits)
  with r have "free_node (Some a) q1 = (Inr (), q') \<and> obj n = Some x"
    by (auto simp: case_simps free_node_def split: option.splits)
  with p a show ?thesis by blast
qed

lemma worker_take_run:
  assumes ok: "queues (qs s) F" and wl: "workList s = Some wl" "F wl = Some (j # xs)" and mode: "serverMode s \<noteq> OFF"
  shows "\<exists>q. worker_take s = (Inr (Some j), s\<lparr>qs := q\<rparr>) \<and> queues q (F(wl \<mapsto> xs))"
proof -
  from mb.get [OF ok wl(2)] obtain q' where
    q': "take_obj wl (qs s) = (Inr j, q')" "queues q' (F(wl \<mapsto> xs))" by blast
  from take_obj_parts [OF q'(1)] obtain a n q1 where
    p: "pop_element_from_tail (Some wl) (qs s) = (Inr (Some a), q1)" "nodes q1 a = Some n"
      "free_node (Some a) q1 = (Inr (), q')" "obj n = Some j" by blast
  have "worker_take s = (Inr (Some j), s\<lparr>qs := q'\<rparr>)"
    using mode wl(1) p by (simp add: worker_take_def case_simps zoom_run)
  with q'(2) show ?thesis by blast
qed

lemma worker_round_run:
  assumes "queues (qs s) F" and "workList s = Some wl" and "F wl = Some (j # xs)" and "serverMode s \<noteq> OFF"
  shows "\<exists>q. worker_round s = serve (Some j) (s\<lparr>qs := q\<rparr>) \<and> queues q (F(wl \<mapsto> xs))"
  using worker_take_run [OF assms] by (auto simp: worker_round_def bnd_run)

lemma client_response_run:
  assumes ok: "queues (qs s) F" and l: "F l = Some (j # xs)" and w: "jobs s j = Some w"
    and wr: "wrs (socks s (client_fd w)) = []"
  shows "\<exists>q. client_response (Some l) s = (Inr (op w \<noteq> CLOSE_CONNECTION),
      s\<lparr>mem := cleared (mem s), qs := q, jobs := (jobs s)(j := None),
        socks := (socks s)(client_fd w := sends (socks s (client_fd w)) (inp (socks s (client_fd w)))
          (response_segments (status_request w) (jerr w)))\<rparr>) \<and>
    (if op w = CLOSE_CONNECTION then \<exists>q0. q = q0\<lparr>lists := (lists q0)(l := None)\<rparr> \<and> queues q0 (F(l \<mapsto> xs))
     else queues q (F(l \<mapsto> xs)))"
proof -
  from mb.get [OF ok l] obtain q' where
    q': "take_obj l (qs s) = (Inr j, q')" "queues q' (F(l \<mapsto> xs))" by blast
  from take_obj_parts [OF q'(1)] obtain a n q1 where
    p: "pop_element_from_tail (Some l) (qs s) = (Inr (Some a), q1)" "nodes q1 a = Some n"
      "free_node (Some a) q1 = (Inr (), q')" "obj n = Some j" by blast
  let ?fd = "client_fd w"
  let ?k = "sends (socks s ?fd) (inp (socks s ?fd)) (response_segments (status_request w) (jerr w))"
  have sr: "send_response (Some j) (s\<lparr>qs := q1\<rparr>) =
      (Inr 0, s\<lparr>qs := q1, mem := cleared (mem s), socks := (socks s)(?fd := ?k)\<rparr>)"
    using w wr by (simp add: send_response_def jderef_def case_simps send_number_srv_run cleared_def response_segments_def)
  show ?thesis
  proof (cases "op w = CLOSE_CONNECTION")
    case False
    have "client_response (Some l) s = (Inr True,
        s\<lparr>mem := cleared (mem s), qs := q', jobs := (jobs s)(j := None), socks := (socks s)(?fd := ?k)\<rparr>)"
      using p w False sr by (simp add: client_response_def case_simps zoom_run jderef_def free_job_def)
    with q'(2) False show ?thesis by auto
  next
    case True
    have "client_response (Some l) s = (Inr False,
        s\<lparr>mem := cleared (mem s), qs := q'\<lparr>lists := (lists q')(l := None)\<rparr>, jobs := (jobs s)(j := None),
          socks := (socks s)(?fd := ?k)\<rparr>)"
      using p w True sr by (simp add: client_response_def case_simps zoom_run jderef_def free_job_def free_list_def)
    with q'(2) True show ?thesis by auto
  qed
qed

section \<open>The whole request\<close>

text \<open>An idle server: nothing waits in the work list or in this client's list.\<close>

definition idle :: "srv \<Rightarrow> cfile list \<Rightarrow> (addr \<rightharpoonup> addr list) \<Rightarrow> addr \<Rightarrow> bool" where
  "idle s fs F l \<longleftrightarrow> srv_ok s fs F \<and> serverMode s \<noteq> OFF \<and>
     (\<exists>wl. workList s = Some wl \<and> wl \<noteq> l \<and> F wl = Some []) \<and> F l = Some []"

text \<open>
  The state in which the worker serves the request: the job is the one of the request, and
  the request is gone from the socket.
\<close>

definition serving :: "srv \<Rightarrow> (addr \<rightharpoonup> addr list) \<Rightarrow> nat \<Rightarrow> rd_event list \<Rightarrow> addr \<Rightarrow> Job \<Rightarrow> cfile list \<Rightarrow> srv \<Rightarrow> bool" where
  "serving s F fd es j w fs s1 \<longleftrightarrow>
     srv_ok s1 fs F \<and> job_ok s1 F j w \<and> mem s1 = mem s \<and> conf s1 = conf s \<and>
     socks s1 = (socks s)(fd := sends (socks s fd) es [])"

lemma session_begins:
  assumes idle: "idle s fs F l" and nm: "nul_free nm" "length nm < MAXNAME"
    and inp: "inp (socks s fd) = map Data (request_segments opc nm flgs) @ es"
    and lib: "small_ok (slibc (socks s fd))" "wrs (socks s fd) = []"
  shows "\<exists>s1. session fd l s = bnd (serve (Some (jfresh s))) (\<lambda>_. client_response (Some l)) s1 \<and>
    serving s F fd es (jfresh s) (request_job opc nm flgs fd l) fs s1 \<and> serverMode s1 = serverMode s \<and> workList s1 = workList s"
proof -
  let ?j = "jfresh s" and ?w = "request_job opc nm flgs fd l"
  obtain wl where ok: "srv_ok s fs F" and mode: "serverMode s \<noteq> OFF" and wl: "workList s = Some wl" "F wl = Some []"
    and l: "F l = Some []" using idle by (auto simp: idle_def)
  from client_request_run [OF ok wl _ nm inp lib(1)] obtain q1 where
    req: "client_request fd (Some l) s = (Inr True, s\<lparr>jobs := (jobs s)(?j \<mapsto> ?w), jfresh := Suc ?j, qs := q1,
      socks := (socks s)(fd := sends (socks s fd) es [])\<rparr>)" "queues q1 (F(wl \<mapsto> [?j]))" by auto
  let ?s1 = "s\<lparr>jobs := (jobs s)(?j \<mapsto> ?w), jfresh := Suc ?j, qs := q1, socks := (socks s)(fd := sends (socks s fd) es [])\<rparr>"
  from worker_round_run [of ?s1 "F(wl \<mapsto> [?j])" wl ?j "[]"] req(2) wl mode obtain q2 where
    rnd: "worker_round ?s1 = serve (Some ?j) (?s1\<lparr>qs := q2\<rparr>)" "queues q2 F" by (auto simp: fun_upd_idem)
  let ?s2 = "?s1\<lparr>qs := q2\<rparr>"
  have "srv_ok ?s2 fs F" using ok rnd(2) by (simp add: srv_ok_def)
  moreover have "job_ok ?s2 F ?j ?w" using nm l lib(2) by (simp add: job_ok_def request_job_def)
  ultimately have "serving s F fd es ?j ?w fs ?s2" by (simp add: serving_def)
  moreover have "session fd l s = bnd (serve (Some ?j)) (\<lambda>_. client_response (Some l)) ?s2"
    using req(1) rnd(1) by (simp add: session_def bnd_run)
  ultimately show ?thesis by (intro exI [of _ ?s2]) simp
qed

text \<open>The session once the case has answered: the answer goes out, and the connection stays or ends.\<close>

lemma session_answered:
  assumes idle: "idle s fs F l" and nm: "nul_free nm" "length nm < MAXNAME"
    and inp: "inp (socks s fd) = map Data (request_segments opc nm flgs) @ es"
    and lib: "small_ok (slibc (socks s fd))" "wrs (socks s fd) = []"
    and serve: "\<And>s1. serving s F fd es (jfresh s) (request_job opc nm flgs fd l) fs s1 \<Longrightarrow>
      answers (serve (Some (jfresh s))) s1 F (jfresh s) (request_job opc nm flgs fd l) es' r"
  shows "\<exists>s'. session fd l s = (Inr (opc \<noteq> CLOSE_CONNECTION), s') \<and> keeps (mem s) (mem s') \<and> conf s' = conf s \<and>
    stores (mem s') (files r) \<and> (opc \<noteq> CLOSE_CONNECTION \<longrightarrow> idle s' (files r) F l) \<and>
    (opc = CLOSE_CONNECTION \<longrightarrow> lists (qs s') l = None) \<and>
    socks s' = (socks s)(fd := sends (socks s fd) es' (wire r @ response_segments (status r) (err r)))"
proof -
  let ?j = "jfresh s" and ?w = "request_job opc nm flgs fd l"
  obtain wl where mode: "serverMode s \<noteq> OFF" and wl: "workList s = Some wl" "wl \<noteq> l" "F wl = Some []"
    and l: "F l = Some []" using idle by (auto simp: idle_def)
  from session_begins [OF idle nm inp lib] obtain s2 where
    s2: "session fd l s = bnd (serve (Some ?j)) (\<lambda>_. client_response (Some l)) s2"
      "serving s F fd es ?j ?w fs s2" "serverMode s2 = serverMode s" "workList s2 = workList s" by blast
  have ok2: "srv_ok s2 fs F" and m2: "mem s2 = mem s" and c2: "conf s2 = conf s" and j2: "jobs s2 ?j = Some ?w"
    and k2: "socks s2 = (socks s)(fd := sends (socks s fd) es [])" using s2(2) by (auto simp: serving_def job_ok_def)
  obtain m q3 where
    srv: "serve (Some ?j) s2 = (Inr Next_job, reply s2 ?j ?w (err r) (status r) m q3 (sends (socks s2 (client_fd ?w)) es' (wire r)))"
    and m: "stores m (files r)" "keeps (mem s2) m" and q3: "queues q3 (delivered F ?j ?w)"
    using serve [OF s2(2)] by (auto simp: answers_def)
  let ?s3 = "reply s2 ?j ?w (err r) (status r) m q3 (sends (socks s2 (client_fd ?w)) es' (wire r))"
  have d: "delivered F ?j ?w = F(l \<mapsto> [?j])" using l by (simp add: delivered_def request_job_def)
  let ?w3 = "?w\<lparr>jerr := err r, status_request := status r\<rparr>"
  from client_response_run [of ?s3 "F(l \<mapsto> [?j])" l ?j "[]" ?w3] q3 d lib(2) l k2 obtain q4 where
    resp: "client_response (Some l) ?s3 = (Inr (opc \<noteq> CLOSE_CONNECTION),
      ?s3\<lparr>mem := cleared (mem ?s3), qs := q4, jobs := (jobs ?s3)(?j := None),
        socks := (socks ?s3)(fd := sends (socks ?s3 fd) (inp (socks ?s3 fd)) (response_segments (status r) (err r)))\<rparr>)"
      "if opc = CLOSE_CONNECTION then lists q4 l = None else queues q4 F"
    by (auto simp: reply_def request_job_def fun_upd_idem split: if_splits)
  let ?s4 = "?s3\<lparr>mem := cleared (mem ?s3), qs := q4, jobs := (jobs ?s3)(?j := None),
        socks := (socks ?s3)(fd := sends (socks ?s3 fd) (inp (socks ?s3 fd)) (response_segments (status r) (err r)))\<rparr>"
  have "session fd l s = (Inr (opc \<noteq> CLOSE_CONNECTION), ?s4)"
    using s2(1) srv resp(1) by (simp add: bnd_run)
  moreover have "srv_ok ?s4 (files r) F" if "queues q4 F"
    using ok2 m that by (auto simp: srv_ok_def reply_def keeps_def)
  then have "opc \<noteq> CLOSE_CONNECTION \<longrightarrow> idle ?s4 (files r) F l"
    using mode wl l s2(3,4) resp(2) by (simp add: idle_def reply_def)
  moreover have "keeps (mem s) (mem ?s4)" "stores (mem ?s4) (files r)" using m m2 by (simp_all add: reply_def)
  moreover have "conf ?s4 = conf s" using c2 by (simp add: reply_def)
  moreover have "socks ?s4 = (socks s)(fd := sends (socks s fd) es' (wire r @ response_segments (status r) (err r)))"
    using k2 by (simp add: reply_def request_job_def)
  ultimately show ?thesis using resp(2) by (intro exI [of _ ?s4]) (simp add: reply_def)
qed

lemma session_run:
  assumes "idle s fs F l" and "nul_free nm" and "length nm < MAXNAME"
    and "inp (socks s fd) = map Data (request_segments opc nm flgs) @ es"
    and "small_ok (slibc (socks s fd))" and "wrs (socks s fd) = []"
    and op: "opc \<noteq> CLOSE_CONNECTION"
    and serve: "\<And>s1. serving s F fd es (jfresh s) (request_job opc nm flgs fd l) fs s1 \<Longrightarrow>
      answers (serve (Some (jfresh s))) s1 F (jfresh s) (request_job opc nm flgs fd l) es' r"
  shows "\<exists>s'. session fd l s = (Inr True, s') \<and> idle s' (files r) F l \<and> keeps (mem s) (mem s') \<and> conf s' = conf s \<and>
    socks s' = (socks s)(fd := sends (socks s fd) es' (wire r @ response_segments (status r) (err r)))"
  using session_answered [OF assms(1-6) serve] op by auto

section \<open>The case of a job\<close>

lemma serve_is:
  assumes "jobs s j = Some w"
  shows "op w = OPEN_FILE \<Longrightarrow> serve (Some j) s = case_open (Some j) w s"
    and "op w = CLOSE_FILE \<Longrightarrow> serve (Some j) s = case_close (Some j) w s"
    and "op w = READ_FILE \<Longrightarrow> serve (Some j) s = case_read (Some j) w s"
    and "op w = WRITE_FILE \<Longrightarrow> serve (Some j) s = case_write (Some j) w s"
    and "op w = APPEND_FILE \<Longrightarrow> serve (Some j) s = case_append (Some j) w s"
    and "op w = READN_FILE \<Longrightarrow> serve (Some j) s = case_readn (Some j) w s"
    and "op w = REMOVE_FILE \<Longrightarrow> serve (Some j) s = case_remove (Some j) w s"
    and "op w = CLOSE_CONNECTION \<Longrightarrow> serve (Some j) s = case_close_connection (Some j) s"
    and "op w = END_WORKER \<Longrightarrow> serve (Some j) s = case_end_worker (Some j) s"
  using assms by (simp_all add: serve_def jderef_def bnd_run)

lemma job_okD: "job_ok s F j w \<Longrightarrow> jobs s j = Some w"
  by (simp add: job_ok_def)

end
