(* ===== verification/Session_Ops.thy ===== *)
theory Session_Ops
  imports Session
begin

text \<open>
  The requests of one client one after the other: for each operation of the protocol, what
  the bytes of a request become, as seen from the two ends of the socket.
\<close>

section \<open>A request that is answered\<close>

text \<open>
  \<open>served fd l s F es r s'\<close>: the request on the socket is answered by what \<open>r\<close> says, \<open>es\<close> is
  what is left on the socket, and the server is idle again with the files of \<open>r\<close>.
\<close>

definition served :: "nat \<Rightarrow> addr \<Rightarrow> srv \<Rightarrow> (addr \<rightharpoonup> addr list) \<Rightarrow> rd_event list \<Rightarrow> reply_spec \<Rightarrow> srv \<Rightarrow> bool" where
  "served fd l s F es r s' \<longleftrightarrow>
     session fd l s = (Inr True, s') \<and> idle s' (files r) F l \<and> keeps (mem s) (mem s') \<and> conf s' = conf s \<and>
     socks s' = (socks s)(fd := sends (socks s fd) es (wire r @ response_segments (status r) (err r)))"

text \<open>What an operation needs from the connection, beyond its own input.\<close>

definition link_ok :: "srv \<Rightarrow> nat \<Rightarrow> bool" where
  "link_ok s fd \<longleftrightarrow> small_ok (slibc (socks s fd)) \<and> wrs (socks s fd) = []"

definition name_ok :: "string \<Rightarrow> bool" where
  "name_ok nm \<longleftrightarrow> nul_free nm \<and> length nm < MAXNAME"

text \<open>The socket of the client holds the segments \<open>segs\<close> and then \<open>es\<close>.\<close>

definition arrives :: "srv \<Rightarrow> nat \<Rightarrow> char list list \<Rightarrow> rd_event list \<Rightarrow> bool" where
  "arrives s fd segs es \<longleftrightarrow> inp (socks s fd) = map Data segs @ es"

lemma served_link: "served fd l s F es r s' \<Longrightarrow> link_ok s fd \<Longrightarrow> link_ok s' fd"
  by (simp add: served_def link_ok_def)

lemma served_limits: "served fd l s F es r s' \<Longrightarrow> limits (mem s) mf mx \<Longrightarrow> limits (mem s') mf mx"
  by (auto simp: served_def intro: keeps_limits)

lemma served_inp: "served fd l s F es r s' \<Longrightarrow> inp (socks s' fd) = es"
  by (simp add: served_def)

lemma served_idle: "served fd l s F es r s' \<Longrightarrow> idle s' (files r) F l"
  by (simp add: served_def)

lemma servingD:
  assumes "serving s F fd es j (request_job opc nm flgs fd l) fs s1"
  shows "srv_ok s1 fs F" and "job_ok s1 F j (request_job opc nm flgs fd l)" and "mem s1 = mem s" and "conf s1 = conf s"
    and "inp (socks s1 fd) = es" and "slibc (socks s1 fd) = slibc (socks s fd)"
    and "jobs s1 j = Some (request_job opc nm flgs fd l)"
  using assms by (auto simp: serving_def job_okD)

lemma request_job_sel [simp]:
  "op (request_job opc nm flgs fd l) = opc" "jfilename (request_job opc nm flgs fd l) = nm"
  "flags (request_job opc nm flgs fd l) = flgs" "client_fd (request_job opc nm flgs fd l) = fd"
  by (simp_all add: request_job_def)

text \<open>Every operation: the case of the switch answers, so the request is served.\<close>

lemma servedI:
  assumes "idle s fs F l" and "name_ok nm" and "link_ok s fd"
    and "arrives s fd (request_segments opc nm flgs) es" and "opc \<noteq> CLOSE_CONNECTION"
    and "\<And>s1. serving s F fd es (jfresh s) (request_job opc nm flgs fd l) fs s1 \<Longrightarrow>
      answers (serve (Some (jfresh s))) s1 F (jfresh s) (request_job opc nm flgs fd l) es' r"
  shows "\<exists>s'. served fd l s F es' r s'"
  unfolding served_def
  by (rule session_run [OF assms(1)]) (use assms in \<open>auto simp: name_ok_def link_ok_def arrives_def\<close>)

lemma served_create:
  assumes "idle s fs F l" and "name_ok nm" and "link_ok s fd" and "limits (mem s) mf mx"
    and "Suc (length fs) < 2 ^ 31" and "content_bytes fs < 2 ^ 31"
    and "arrives s fd (request_segments OPEN_FILE nm O_CREATE) es"
  shows "\<exists>s'. served fd l s F es (spec_create mf mx nm fs) s'"
proof (rule servedI [OF assms(1-3,7)])
  fix s1 let ?w = "request_job OPEN_FILE nm O_CREATE fd l"
  assume s1: "serving s F fd es (jfresh s) ?w fs s1"
  note d = servingD [OF s1]
  have "answers (case_open (Some (jfresh s)) ?w) s1 F (jfresh s) ?w (inp (socks s1 fd)) (spec_create mf mx nm fs)"
    using case_open_create_run [OF d(1,2), of mf mx] assms(4-6) d(3) by simp
  then show "answers (serve (Some (jfresh s))) s1 F (jfresh s) ?w es (spec_create mf mx nm fs)"
    using d(5) by (simp add: answers_def serve_is(1) [OF d(7)])
qed simp

lemma served_read:
  assumes "idle s fs F l" and "name_ok nm" and "link_ok s fd" and "content_bytes fs < 2 ^ 31"
    and "arrives s fd (request_segments READ_FILE nm flgs) es"
  shows "\<exists>s'. served fd l s F es (spec_read (policy (conf s)) nm fs) s'"
proof (rule servedI [OF assms(1-3,5)])
  fix s1 let ?w = "request_job READ_FILE nm flgs fd l"
  assume s1: "serving s F fd es (jfresh s) ?w fs s1"
  note d = servingD [OF s1]
  show "answers (serve (Some (jfresh s))) s1 F (jfresh s) ?w es (spec_read (policy (conf s)) nm fs)"
    using case_read_run [OF d(1,2) assms(4)] d(4,5) by (simp add: answers_def serve_is(3) [OF d(7)])
qed simp

text \<open>The request to write a file is followed by its size and its bytes, when it exists.\<close>

definition write_input :: "char list \<Rightarrow> char list list" where
  "write_input bs = num (of_nat (length bs)) # message_segments bs"

lemma served_write:
  assumes "idle s fs F l" and "name_ok nm" and "link_ok s fd" and "limits (mem s) mf mx"
    and "has_file nm fs" and "length bs < 2 ^ 31" and "length bs \<le> mx" and "content_bytes fs < 2 ^ 31"
    and "malloc_ok (slibc (socks s fd)) (of_nat (length bs) + 1)"
    and "arrives s fd (request_segments WRITE_FILE nm flgs @ write_input bs) es"
  shows "\<exists>s'. served fd l s F es (spec_write (policy (conf s)) mf mx nm (length bs) bs fs) s'"
proof (rule servedI [OF assms(1-3)])
  show "arrives s fd (request_segments WRITE_FILE nm flgs) (map Data (write_input bs) @ es)"
    using assms(10) by (simp add: arrives_def)
  fix s1 let ?w = "request_job WRITE_FILE nm flgs fd l"
  assume s1: "serving s F fd (map Data (write_input bs) @ es) (jfresh s) ?w fs s1"
  note d = servingD [OF s1]
  show "answers (serve (Some (jfresh s))) s1 F (jfresh s) ?w es (spec_write (policy (conf s)) mf mx nm (length bs) bs fs)"
    using case_write_run [OF d(1,2), of mf mx bs es] assms(4-9) d(3-6)
    by (simp add: answers_def serve_is(4) [OF d(7)] write_input_def)
qed simp

end
