(* ===== verification/Roundtrip.thy ===== *)
theory Roundtrip
  imports Session_Ops
begin

text \<open>
  What a client gets back: a file that is created, written and read over one connection,
  and what the specification of the operations implies for the limits and for the order in
  which files are evicted.
\<close>

section \<open>Several requests\<close>

fun sessions :: "nat \<Rightarrow> nat \<Rightarrow> addr \<Rightarrow> unit scmd" where
  "sessions 0 fd l = ret ()"
| "sessions (Suc n) fd l = bnd (session fd l) (\<lambda>_. sessions n fd l)"

lemma sessions_Suc_run:
  "served fd l s F es r t \<Longrightarrow> sessions (Suc n) fd l s = sessions n fd l t"
  by (simp add: served_def bnd_run)

section \<open>The file that was just created\<close>

lemma has_file_sub: "has_file nm gs \<Longrightarrow> set gs \<subseteq> set fs \<Longrightarrow> has_file nm fs"
  by (auto simp: has_file_def)

lemma cache_result_take: "\<exists>n. cache_result k amt mf mx fs = take n fs"
proof (cases "mf < k \<or> mx < amt")
  case True
  then show ?thesis by (intro exI [of _ "length fs"]) (simp add: cache_result_def)
next
  case False
  then show ?thesis
    using room_take [of k amt mf mx fs] by (intro exI [of _ "length (room k amt mf mx fs)"]) (simp add: cache_result_def)
qed

lemma content_take: "content_bytes (take n fs) \<le> content_bytes fs"
  by (metis append_take_drop_id content_bytes_simps(3) le_add1)

lemma cache_result_sub: "set (cache_result k amt mf mx fs) \<subseteq> set fs"
  "content_bytes (cache_result k amt mf mx fs) \<le> content_bytes fs"
  "length (cache_result k amt mf mx fs) \<le> length fs"
  using cache_result_take [of k amt mf mx fs] by (auto simp: content_take dest: in_set_takeD)

text \<open>Making room for bytes never evicts an empty first file.\<close>

lemma cache_result_head:
  assumes "ccontent c = []"
  shows "\<exists>hs. cache_result 0 n mf mx (c # gs) = c # hs"
proof -
  have "after_file_round 0 mf (c # gs) = c # tl (after_file_round 0 mf (c # gs))"
    by (cases mf) (simp_all add: after_file_round_def)
  then obtain us where us: "after_file_round 0 mf (c # gs) = c # us" by blast
  then have "room 0 n mf mx (c # gs) =
      (if mx < content_bytes (c # us) + n \<and> n < mx then keep (mx - n) (c # us) else c # us)"
    by (simp add: room_def Let_def)
  then have "\<exists>hs. room 0 n mf mx (c # gs) = c # hs" using assms by auto
  then show ?thesis by (auto simp: cache_result_def)
qed

lemma touch_head: "\<not> has_file nm gs \<Longrightarrow> cname c = nm \<Longrightarrow> touch pol nm (c # gs) = c # gs"
proof -
  assume "\<not> has_file nm gs" and c: "cname c = nm"
  then have "\<forall>x \<in> set gs. cname x \<noteq> nm" unfolding has_file_def by (metis image_eqI)
  then have "filter (\<lambda>x. cname x = nm) gs = []" "filter (\<lambda>x. cname x \<noteq> nm) gs = gs"
    by (auto simp: filter_empty_conv filter_id_conv)
  with c show ?thesis by (simp add: touch_def split: cache_policy_t.split)
qed

lemma written_file:
  assumes new: "\<not> has_file nm gs" and n: "length bs \<le> mx"
  defines "c \<equiv> \<lparr>cname = nm, ccontent = [], copen = True\<rparr>"
  shows "\<exists>hs. set hs \<subseteq> set gs \<and> content_bytes hs \<le> content_bytes gs \<and>
    spec_write pol mf mx nm (length bs) bs (c # gs) =
      \<lparr>wire = [num (widen CONTINUE), num (widen CONTINUE), num (widen CONTINUE)], err = 0, status = OK,
       files = c\<lparr>ccontent := bs\<rparr> # hs\<rparr>"
proof -
  obtain hs where hs: "cache_result 0 (length bs) mf mx (c # gs) = c # hs"
    using cache_result_head [of c "length bs" mf mx gs] by (auto simp: c_def)
  obtain k where "c # hs = take k (c # gs)" using cache_result_take [of 0 "length bs" mf mx "c # gs"] hs by auto
  then have "hs = take (k - 1) gs" by (cases k) auto
  then have sub: "set hs \<subseteq> set gs" "content_bytes hs \<le> content_bytes gs"
    by (auto simp: content_take dest: in_set_takeD)
  have "\<not> has_file nm hs" using new sub(1) has_file_sub by blast
  then have "edit nm u (c # hs) = u c # hs" for u using edit_absent [of nm hs u] by (simp add: edit_def c_def)
  moreover have "touch pol nm (c # gs) = c # gs" by (rule touch_head [OF new]) (simp add: c_def)
  ultimately have "spec_write pol mf mx nm (length bs) bs (c # gs) =
      \<lparr>wire = [num (widen CONTINUE), num (widen CONTINUE), num (widen CONTINUE)], err = 0, status = OK,
       files = c\<lparr>ccontent := bs\<rparr> # hs\<rparr>"
    using n hs by (simp add: spec_write_def has_file_def c_def)
  with sub show ?thesis by blast
qed

lemma read_head:
  assumes "cname c = nm" and "copen c"
  shows "wire (spec_read pol nm (c # gs)) = [num (widen CONTINUE), num (widen CONTINUE), num (of_nat (length (ccontent c)))] @
      message_segments (ccontent c)"
    and "err (spec_read pol nm (c # gs)) = 0" and "status (spec_read pol nm (c # gs)) = OK"
    and "lookup_file nm (files (spec_read pol nm (c # gs))) = Some c"
proof -
  have "lookup_file nm (c # gs) = Some c" using assms by (simp add: lookup_file_def)
  then show "wire (spec_read pol nm (c # gs)) = [num (widen CONTINUE), num (widen CONTINUE), num (of_nat (length (ccontent c)))] @
      message_segments (ccontent c)"
    "err (spec_read pol nm (c # gs)) = 0" "status (spec_read pol nm (c # gs)) = OK"
    "lookup_file nm (files (spec_read pol nm (c # gs))) = Some c"
    using assms by (simp_all add: spec_read_def)
qed

section \<open>Create, write, read\<close>

definition upload_and_read :: "string \<Rightarrow> char list \<Rightarrow> char list list" where
  "upload_and_read nm bs =
     request_segments OPEN_FILE nm O_CREATE @ request_segments WRITE_FILE nm 0 @ write_input bs @
     request_segments READ_FILE nm 0"

definition all_good :: "char list list" where
  "all_good = response_segments OK 0"

lemma create_write_read:
  assumes idle: "idle s fs F l" and nm: "name_ok nm" and link: "link_ok s fd" and lim: "limits (mem s) mf mx"
    and new: "\<not> has_file nm fs" and len: "Suc (length fs) < 2 ^ 31" and b: "content_bytes fs + length bs < 2 ^ 31"
    and n: "length bs \<le> mx" and mal: "malloc_ok (slibc (socks s fd)) (of_nat (length bs) + 1)"
    and arr: "arrives s fd (upload_and_read nm bs) es"
  shows "\<exists>s' gs. sessions 3 fd l s = (Inr (), s') \<and> idle s' gs F l \<and>
    lookup_file nm gs = Some \<lparr>cname = nm, ccontent = bs, copen = True\<rparr> \<and>
    socks s' = (socks s)(fd := sends (socks s fd) es
      (all_good @
       [num (widen CONTINUE), num (widen CONTINUE), num (widen CONTINUE)] @ all_good @
       [num (widen CONTINUE), num (widen CONTINUE), num (of_nat (length bs))] @ message_segments bs @ all_good))"
proof -
  let ?es1 = "map Data (request_segments WRITE_FILE nm 0 @ write_input bs @ request_segments READ_FILE nm 0) @ es"
  let ?es2 = "map Data (request_segments READ_FILE nm 0) @ es"
  let ?gs = "cache_result 1 0 mf mx fs" and ?c = "\<lparr>cname = nm, ccontent = [], copen = True\<rparr>"
  have "arrives s fd (request_segments OPEN_FILE nm O_CREATE) ?es1"
    using arr by (simp add: arrives_def upload_and_read_def)
  with served_create [OF idle nm link lim len, of ?es1] b obtain s1 where
    s1: "served fd l s F ?es1 (spec_create mf mx nm fs) s1" by auto
  have c1: "spec_create mf mx nm fs = \<lparr>wire = [], err = 0, status = OK, files = ?c # ?gs\<rparr>"
    using new by (simp add: spec_create_def)
  have new1: "\<not> has_file nm ?gs" using new has_file_sub cache_result_sub(1) by blast
  obtain hs where hs: "set hs \<subseteq> set ?gs" "content_bytes hs \<le> content_bytes ?gs"
    "spec_write (policy (conf s1)) mf mx nm (length bs) bs (?c # ?gs) =
      \<lparr>wire = [num (widen CONTINUE), num (widen CONTINUE), num (widen CONTINUE)], err = 0, status = OK,
       files = ?c\<lparr>ccontent := bs\<rparr> # hs\<rparr>"
    using written_file [OF new1 n] by blast
  have b1: "content_bytes ?gs \<le> content_bytes fs" by (rule cache_result_sub)
  have "\<exists>s2. served fd l s1 F ?es2 (spec_write (policy (conf s1)) mf mx nm (length bs) bs (?c # ?gs)) s2"
  proof (rule served_write)
    show "idle s1 (?c # ?gs) F l" using served_idle [OF s1] c1 by simp
    show "arrives s1 fd (request_segments WRITE_FILE nm 0 @ write_input bs) ?es2"
      using served_inp [OF s1] by (simp add: arrives_def)
    show "malloc_ok (slibc (socks s1 fd)) (of_nat (length bs) + 1)" using mal s1 by (simp add: served_def)
    show "content_bytes (?c # ?gs) < 2 ^ 31" "length bs < 2 ^ 31" using b b1 by auto
  qed (use nm n served_link [OF s1 link] served_limits [OF s1 lim] in \<open>auto simp: has_file_def\<close>)
  then obtain s2 where s2: "served fd l s1 F ?es2 \<lparr>wire = [num (widen CONTINUE), num (widen CONTINUE), num (widen CONTINUE)],
      err = 0, status = OK, files = ?c\<lparr>ccontent := bs\<rparr> # hs\<rparr> s2" unfolding hs(3) by blast
  let ?r = "spec_read (policy (conf s2)) nm (?c\<lparr>ccontent := bs\<rparr> # hs)"
  have "\<exists>s3. served fd l s2 F es ?r s3"
  proof (rule served_read)
    show "idle s2 (?c\<lparr>ccontent := bs\<rparr> # hs) F l" using served_idle [OF s2] by simp
    show "arrives s2 fd (request_segments READ_FILE nm 0) es" using served_inp [OF s2] by (simp add: arrives_def)
    show "content_bytes (?c\<lparr>ccontent := bs\<rparr> # hs) < 2 ^ 31" using b b1 hs(2) by simp
  qed (use nm served_link [OF s2 served_link [OF s1 link]] in auto)
  then obtain s3 where s3: "served fd l s2 F es ?r s3" by blast
  note r = read_head [of "?c\<lparr>ccontent := bs\<rparr>" nm "policy (conf s2)" hs]
  have "sessions 3 fd l s = (Inr (), s3)"
    using sessions_Suc_run [OF s1, of 2] sessions_Suc_run [OF s2, of 1] sessions_Suc_run [OF s3, of 0]
    by (simp add: numeral_2_eq_2 numeral_3_eq_3)
  moreover have "idle s3 (files ?r) F l" by (rule served_idle [OF s3])
  moreover have "socks s3 = (socks s)(fd := sends (socks s fd) es
      (all_good @ [num (widen CONTINUE), num (widen CONTINUE), num (widen CONTINUE)] @ all_good @
       [num (widen CONTINUE), num (widen CONTINUE), num (of_nat (length bs))] @ message_segments bs @ all_good))"
    using s1 s2 s3 r c1 by (simp add: served_def all_good_def)
  ultimately show ?thesis using r(4) by auto
qed

end
