(* ===== verification/Requests.thy ===== *)
theory Requests
  imports Roundtrip
begin

text \<open>
  The server as an abstract file cache: the requests of the protocol, what each does to the
  list of files, and the proof that the code, fed with the bytes of any sequence of requests,
  answers as the abstract cache does. From the abstract cache: it stays within its limits.
\<close>

section \<open>The abstract cache\<close>

datatype request =
    Create string
  | Open string
  | Read string
  | Write string "char list"
  | Append string "char list"
  | Remove string
  | ReadN i32

fun spec_of :: "cache_policy_t \<Rightarrow> nat \<Rightarrow> nat \<Rightarrow> request \<Rightarrow> cfile list \<Rightarrow> reply_spec" where
  "spec_of pol mf mx (Create nm) fs = spec_create mf mx nm fs"
| "spec_of pol mf mx (Open nm) fs = spec_open pol nm fs"
| "spec_of pol mf mx (Read nm) fs = spec_read pol nm fs"
| "spec_of pol mf mx (Write nm bs) fs = spec_write pol mf mx nm (length bs) bs fs"
| "spec_of pol mf mx (Append nm bs) fs = spec_append pol mf mx nm bs fs"
| "spec_of pol mf mx (Remove nm) fs = spec_remove pol nm fs"
| "spec_of pol mf mx (ReadN n) fs = spec_readn n fs"

text \<open>
  The bytes a client sends for a request: the content of a write goes out only as far as the
  server asks for it.
\<close>

definition payload :: "nat \<Rightarrow> string \<Rightarrow> char list \<Rightarrow> cfile list \<Rightarrow> char list list" where
  "payload mx nm bs fs =
     (if \<not> has_file nm fs then []
      else if mx < length bs then [num (of_nat (length bs))]
      else write_input bs)"

fun request_bytes :: "nat \<Rightarrow> request \<Rightarrow> cfile list \<Rightarrow> char list list" where
  "request_bytes mx (Create nm) fs = request_segments OPEN_FILE nm O_CREATE"
| "request_bytes mx (Open nm) fs = request_segments OPEN_FILE nm 0"
| "request_bytes mx (Read nm) fs = request_segments READ_FILE nm 0"
| "request_bytes mx (Write nm bs) fs = request_segments WRITE_FILE nm 0 @ payload mx nm bs fs"
| "request_bytes mx (Append nm bs) fs = request_segments APPEND_FILE nm 0 @ payload mx nm bs fs"
| "request_bytes mx (Remove nm) fs = request_segments REMOVE_FILE nm 0"
| "request_bytes mx (ReadN n) fs = request_segments READN_FILE ''readNString'' n"

definition reply_bytes :: "reply_spec \<Rightarrow> char list list" where
  "reply_bytes r = wire r @ response_segments (status r) (err r)"

text \<open>
  The requests the code serves as the abstract cache does: names fit, contents are below
  \<open>2 ^ 31\<close> bytes, and an append does not evict its own file. The limits are kept as well
  when no content has exactly the size of the limit, for which no room is made.
\<close>

fun request_ok :: "cache_policy_t \<Rightarrow> nat \<Rightarrow> nat \<Rightarrow> request \<Rightarrow> cfile list \<Rightarrow> bool" where
  "request_ok pol mf mx (Create nm) fs \<longleftrightarrow> name_ok nm"
| "request_ok pol mf mx (Open nm) fs \<longleftrightarrow> name_ok nm"
| "request_ok pol mf mx (Read nm) fs \<longleftrightarrow> name_ok nm"
| "request_ok pol mf mx (Write nm bs) fs \<longleftrightarrow> name_ok nm \<and> length bs < 2 ^ 31"
| "request_ok pol mf mx (Append nm bs) fs \<longleftrightarrow> name_ok nm \<and> length bs < 2 ^ 31 \<and>
     (has_file nm fs \<and> length bs \<le> mx \<longrightarrow> has_file nm (cache_result 0 (length bs) mf mx (touch pol nm fs)))"
| "request_ok pol mf mx (Remove nm) fs \<longleftrightarrow> name_ok nm"
| "request_ok pol mf mx (ReadN n) fs \<longleftrightarrow> True"

fun request_keeps :: "nat \<Rightarrow> request \<Rightarrow> bool" where
  "request_keeps mx (Write nm bs) \<longleftrightarrow> length bs \<noteq> mx"
| "request_keeps mx (Append nm bs) \<longleftrightarrow> length bs \<noteq> mx"
| "request_keeps mx _ \<longleftrightarrow> True"

fun spec_run :: "cache_policy_t \<Rightarrow> nat \<Rightarrow> nat \<Rightarrow> request list \<Rightarrow> cfile list \<Rightarrow> cfile list" where
  "spec_run pol mf mx [] fs = fs"
| "spec_run pol mf mx (r # rs) fs = spec_run pol mf mx rs (files (spec_of pol mf mx r fs))"

fun stream :: "cache_policy_t \<Rightarrow> nat \<Rightarrow> nat \<Rightarrow> request list \<Rightarrow> cfile list \<Rightarrow> char list list" where
  "stream pol mf mx [] fs = []"
| "stream pol mf mx (r # rs) fs = request_bytes mx r fs @ stream pol mf mx rs (files (spec_of pol mf mx r fs))"

fun replies :: "cache_policy_t \<Rightarrow> nat \<Rightarrow> nat \<Rightarrow> request list \<Rightarrow> cfile list \<Rightarrow> char list list" where
  "replies pol mf mx [] fs = []"
| "replies pol mf mx (r # rs) fs =
     reply_bytes (spec_of pol mf mx r fs) @ replies pol mf mx rs (files (spec_of pol mf mx r fs))"

fun requests_ok :: "cache_policy_t \<Rightarrow> nat \<Rightarrow> nat \<Rightarrow> request list \<Rightarrow> cfile list \<Rightarrow> bool" where
  "requests_ok pol mf mx [] fs \<longleftrightarrow> True"
| "requests_ok pol mf mx (r # rs) fs \<longleftrightarrow>
     request_ok pol mf mx r fs \<and> request_keeps mx r \<and> requests_ok pol mf mx rs (files (spec_of pol mf mx r fs))"

section \<open>Within the limits\<close>

definition within :: "nat \<Rightarrow> nat \<Rightarrow> cfile list \<Rightarrow> bool" where
  "within mf mx fs \<longleftrightarrow> length fs \<le> mf \<and> content_bytes fs \<le> mx"

lemma room_fits_after:
  assumes "k < mf" and "amt < mx"
  shows "length (room k amt mf mx fs) + k \<le> mf" and "content_bytes (room k amt mf mx fs) + amt \<le> mx"
proof -
  define gs where "gs = after_file_round k mf fs"
  have g: "length gs + k \<le> mf" using assms(1) by (auto simp: gs_def after_file_round_def)
  have r: "room k amt mf mx fs = (if mx < content_bytes gs + amt then keep (mx - amt) gs else gs)"
    using assms(2) by (simp add: room_def Let_def gs_def)
  show "length (room k amt mf mx fs) + k \<le> mf"
    unfolding r using g length_keep [of "mx - amt" gs] by (auto split: if_splits)
  show "content_bytes (room k amt mf mx fs) + amt \<le> mx"
    unfolding r using keep_fits [of "mx - amt" gs] assms(2) by auto
qed

text \<open>No more is evicted than has to be: a longer prefix does not fit.\<close>

lemma room_maximal:
  assumes "k < mf" and "amt < mx" and "n \<le> length fs" and "n + k \<le> mf" and "content_bytes (take n fs) + amt \<le> mx"
  shows "n \<le> length (room k amt mf mx fs)"
proof -
  define gs where "gs = after_file_round k mf fs"
  have n: "n \<le> length gs" and t: "take n gs = take n fs"
    using assms by (auto simp: gs_def after_file_round_def min_def)
  have "n \<le> length (keep (mx - amt) gs)"
    by (rule keep_maximal [OF n]) (use t assms in auto)
  then show ?thesis using n assms(2) by (simp add: room_def Let_def gs_def [symmetric])
qed

lemma content_edit_append:
  assumes "distinct (map cname fs)" and "has_file nm fs"
  shows "content_bytes (edit nm (\<lambda>c. c\<lparr>ccontent := ccontent c @ bs\<rparr>) fs) = content_bytes fs + length bs"
  using assms
proof (induction fs)
  case (Cons c fs)
  show ?case
  proof (cases "cname c = nm")
    case True
    with Cons.prems(1) have "\<not> has_file nm fs" by (auto simp: has_file_def)
    with True edit_absent [of nm fs "\<lambda>c. c\<lparr>ccontent := ccontent c @ bs\<rparr>"] show ?thesis by (simp add: edit_def)
  next
    case False
    with Cons show ?thesis by (auto simp: edit_def has_file_def)
  qed
qed (simp add: has_file_def)

lemma content_edit_le:
  assumes "distinct (map cname fs)"
  shows "content_bytes (edit nm (\<lambda>c. c\<lparr>ccontent := ccontent c @ bs\<rparr>) fs) \<le> content_bytes fs + length bs"
  using content_edit_append [OF assms] edit_absent [of nm fs] by (cases "has_file nm fs") simp_all

lemma content_edit_open [simp]:
  "content_bytes (edit nm (\<lambda>c. c\<lparr>copen := b\<rparr>) fs) = content_bytes fs"
  by (induction fs) (auto simp: edit_def)

lemma distinct_take_names: "distinct (map cname fs) \<Longrightarrow> distinct (map cname (take n fs))"
  by (metis distinct_take take_map)

lemma distinct_touch:
  assumes d: "distinct (map cname fs)"
  shows "distinct (map cname (touch pol nm fs))"
proof (cases pol)
  case LRU
  have "distinct (map cname (filter P fs))" for P by (rule distinct_map_filter [OF d])
  with LRU show ?thesis by (auto simp: touch_def)
qed (simp add: touch_def d)

lemma within_without: "within mf mx fs \<Longrightarrow> within mf mx (without nm fs)"
proof -
  assume w: "within mf mx fs"
  have "content_bytes (filter P fs) \<le> content_bytes fs" for P by (induction fs) auto
  moreover have "length (without nm fs) \<le> length fs" by (simp add: without_def)
  ultimately show ?thesis using w unfolding within_def without_def by (meson le_trans)
qed

lemma within_write:
  assumes "distinct (map cname fs)" and "amt = length bs" and "amt < mx" and "within mf mx fs"
  shows "within mf mx (edit nm (\<lambda>c. c\<lparr>ccontent := ccontent c @ bs\<rparr>) (cache_result 0 amt mf mx (touch pol nm fs)))"
    and "within mf mx (cache_result 0 amt mf mx (touch pol nm fs))"
proof -
  let ?g = "cache_result 0 amt mf mx (touch pol nm fs)"
  obtain n where "?g = take n (touch pol nm fs)" using cache_result_take by blast
  then have d: "distinct (map cname ?g)" using distinct_take_names [OF distinct_touch [OF assms(1)]] by metis
  have l: "length ?g \<le> mf"
    using cache_result_sub(3) [of 0 amt mf mx "touch pol nm fs"] assms(4) by (simp add: within_def)
  have b: "content_bytes ?g + amt \<le> mx"
  proof (cases "mf = 0")
    case True
    then have "fs = []" using assms(4) by (simp add: within_def)
    with assms(3) show ?thesis using cache_result_sub(2) [of 0 amt mf mx "touch pol nm fs"] by simp
  next
    case False
    then show ?thesis using room_fits_after(2) [of 0 mf amt mx] assms(3) by (simp add: cache_result_def)
  qed
  show "within mf mx ?g" using l b by (simp add: within_def)
  show "within mf mx (edit nm (\<lambda>c. c\<lparr>ccontent := ccontent c @ bs\<rparr>) ?g)"
    using content_edit_le [OF d, of nm bs] l b assms(2) by (simp add: within_def)
qed

lemma within_request:
  assumes w: "within mf mx fs" and d: "distinct (map cname fs)" and mf: "1 < mf" and ok: "request_keeps mx r"
  shows "within mf mx (files (spec_of pol mf mx r fs))"
proof (cases r)
  case (Create nm)
  have "length (cache_result 1 0 mf mx fs) + 1 \<le> mf \<and> content_bytes (cache_result 1 0 mf mx fs) \<le> mx"
  proof -
    have "content_bytes (cache_result 1 0 mf mx fs) \<le> mx"
      using cache_result_sub(2) [of 1 0 mf mx fs] w by (simp add: within_def)
    moreover have "length (cache_result 1 0 mf mx fs) + 1 \<le> mf"
    proof (cases "mx = 0")
      case True
      then show ?thesis using mf by (auto simp: cache_result_def room_def Let_def after_file_round_def)
    next
      case False
      then show ?thesis using room_fits_after(1) [of 1 mf 0 mx fs] mf by (simp add: cache_result_def)
    qed
    ultimately show ?thesis by simp
  qed
  with w Create show ?thesis by (auto simp: spec_create_def within_def)
next
  case (Write nm bs)
  with ok within_write [OF d refl _ w] w show ?thesis
    by (auto simp: spec_write_def Let_def within_def)
next
  case (Append nm bs)
  with ok within_write [OF d refl _ w] w show ?thesis
    by (auto simp: spec_append_def within_def)
next
  case (Remove nm)
  with w within_without show ?thesis by (simp add: spec_remove_def)
qed (use w in \<open>auto simp: spec_open_def spec_read_def spec_readn_def Let_def within_def split: option.splits\<close>)

section \<open>The abstract cache over a sequence of requests\<close>

lemma run_append [simp]:
  "spec_run pol mf mx (rs @ rs2) fs = spec_run pol mf mx rs2 (spec_run pol mf mx rs fs)"
  "stream pol mf mx (rs @ rs2) fs = stream pol mf mx rs fs @ stream pol mf mx rs2 (spec_run pol mf mx rs fs)"
  "replies pol mf mx (rs @ rs2) fs = replies pol mf mx rs fs @ replies pol mf mx rs2 (spec_run pol mf mx rs fs)"
  "requests_ok pol mf mx (rs @ rs2) fs \<longleftrightarrow> requests_ok pol mf mx rs fs \<and> requests_ok pol mf mx rs2 (spec_run pol mf mx rs fs)"
  by (induction rs arbitrary: fs) auto

definition sound :: "nat \<Rightarrow> nat \<Rightarrow> cfile list \<Rightarrow> bool" where
  "sound mf mx fs \<longleftrightarrow> within mf mx fs \<and> distinct (map cname fs)"

lemma names_edit: "(\<And>c. cname (u c) = cname c) \<Longrightarrow> map cname (edit nm u fs) = map cname fs"
  by (simp add: edit_def)

lemma distinct_cache_result: "distinct (map cname fs) \<Longrightarrow> distinct (map cname (cache_result k amt mf mx fs))"
  using cache_result_take [of k amt mf mx fs] distinct_take_names by metis

lemma distinct_request:
  assumes "distinct (map cname fs)"
  shows "distinct (map cname (files (spec_of pol mf mx r fs)))"
proof -
  note d = distinct_touch [OF assms] distinct_cache_result [OF assms] distinct_cache_result [OF distinct_touch [OF assms]]
  have "distinct (map cname (filter P fs))" for P by (rule distinct_map_filter [OF assms])
  moreover have "\<not> has_file nm fs \<Longrightarrow> nm \<notin> cname ` set (cache_result k amt mf mx fs)" for nm k amt
    using has_file_sub [OF _ cache_result_sub(1)] by (metis has_file_def)
  ultimately show ?thesis
    using assms d
    by (cases r) (auto simp: spec_create_def spec_open_def spec_read_def spec_write_def spec_append_def spec_remove_def
        spec_readn_def Let_def names_edit without_def split: option.split)
qed

lemma sound_request: "sound mf mx fs \<Longrightarrow> 1 < mf \<Longrightarrow> request_keeps mx r \<Longrightarrow> sound mf mx (files (spec_of pol mf mx r fs))"
  using within_request distinct_request by (simp add: sound_def)

lemma sound_run: "sound mf mx fs \<Longrightarrow> 1 < mf \<Longrightarrow> requests_ok pol mf mx rs fs \<Longrightarrow> sound mf mx (spec_run pol mf mx rs fs)"
  by (induction rs arbitrary: fs) (simp_all add: sound_request)

end
