(* ===== verification/Refinement.thy ===== *)
theory Refinement
  imports Requests
begin

text \<open>
  The simulation: a server that is idle with the files \<open>fs\<close>, given the bytes of a request in
  scope, sends what the abstract cache replies and is idle with the files it leaves; so for
  every sequence of requests.
\<close>

section \<open>A request as a job\<close>

fun req_op :: "request \<Rightarrow> i32" where
  "req_op (Create nm) = OPEN_FILE"
| "req_op (Open nm) = OPEN_FILE"
| "req_op (Read nm) = READ_FILE"
| "req_op (Write nm bs) = WRITE_FILE"
| "req_op (Append nm bs) = APPEND_FILE"
| "req_op (Remove nm) = REMOVE_FILE"
| "req_op (ReadN n) = READN_FILE"

fun req_name :: "request \<Rightarrow> string" where
  "req_name (Create nm) = nm"
| "req_name (Open nm) = nm"
| "req_name (Read nm) = nm"
| "req_name (Write nm bs) = nm"
| "req_name (Append nm bs) = nm"
| "req_name (Remove nm) = nm"
| "req_name (ReadN n) = ''readNString''"

fun req_flags :: "request \<Rightarrow> i32" where
  "req_flags (Create nm) = O_CREATE"
| "req_flags (ReadN n) = n"
| "req_flags _ = 0"

text \<open>The bytes of a request: the part that makes the job, and what the worker reads while it serves it.\<close>

definition req_head :: "request \<Rightarrow> char list list" where
  "req_head r = request_segments (req_op r) (req_name r) (req_flags r)"

fun req_rest :: "nat \<Rightarrow> request \<Rightarrow> cfile list \<Rightarrow> char list list" where
  "req_rest mx (Write nm bs) fs = payload mx nm bs fs"
| "req_rest mx (Append nm bs) fs = payload mx nm bs fs"
| "req_rest mx _ fs = []"

lemma request_split: "request_bytes mx r fs = req_head r @ req_rest mx r fs"
  by (cases r) (simp_all add: req_head_def)

definition req_job :: "request \<Rightarrow> nat \<Rightarrow> addr \<Rightarrow> Job" where
  "req_job r fd l = request_job (req_op r) (req_name r) (req_flags r) fd l"

lemma req_job_sel [simp]:
  "op (req_job r fd l) = req_op r" "jfilename (req_job r fd l) = req_name r" "flags (req_job r fd l) = req_flags r"
  "client_fd (req_job r fd l) = fd" "client_queue (req_job r fd l) = Some l"
  by (simp_all add: req_job_def, simp add: request_job_def)

lemma req_name_ok: "request_ok pol mf mx r fs \<Longrightarrow> name_ok (req_name r)"
  by (cases r) (simp_all add: name_ok_def nul_free_def)

lemma req_op_stays: "req_op r \<noteq> CLOSE_CONNECTION"
  by (cases r) simp_all

text \<open>The switch computes what the abstract cache says, for every request in scope.\<close>

lemma request_answers:
  assumes ok: "srv_ok s fs F" and job: "job_ok s F j (req_job r fd l)"
    and lim: "limits (mem s) mf mx" and mf: "Suc mf < 2 ^ 31" and w: "within mf mx fs"
    and mal: "\<forall>n \<le> mx. malloc_ok (slibc (socks s fd)) (of_nat n + 1)"
    and scope: "request_ok (policy (conf s)) mf mx r fs"
    and inp: "inp (socks s fd) = map Data (req_rest mx r fs) @ es"
  shows "answers (serve (Some j)) s F j (req_job r fd l) es (spec_of (policy (conf s)) mf mx r fs)"
proof -
  let ?w = "req_job r fd l"
  note srv = serve_is [OF job_okD [OF job]]
  have len: "Suc (length fs) < 2 ^ 31" and b: "content_bytes fs < 2 ^ 31"
    using w mf lim by (simp_all add: within_def limits_def)
  show ?thesis
  proof (cases r)
    case (Create nm)
    with case_open_create_run [OF ok job _ lim len b] inp show ?thesis
      by (simp add: answers_def srv)
  next
    case (Open nm)
    with case_open_run [OF ok job] inp show ?thesis by (simp add: answers_def srv)
  next
    case (Read nm)
    with case_read_run [OF ok job b] inp show ?thesis by (simp add: answers_def srv)
  next
    case (Write nm bs)
    consider "\<not> has_file nm fs" | "has_file nm fs" "mx < length bs" | "has_file nm fs" "length bs \<le> mx" by linarith
    then show ?thesis
    proof cases
      case 1
      with Write case_write_absent [OF ok job, of mf mx "length bs" bs] inp show ?thesis
        by (simp add: answers_def srv payload_def)
    next
      case 2
      with Write case_write_big [OF ok job _ lim _ _ b, of "length bs" es bs] inp scope show ?thesis
        by (simp add: answers_def srv payload_def)
    next
      case 3
      with Write case_write_run [OF ok job _ lim _ _ b, of bs es] inp scope mal show ?thesis
        by (simp add: answers_def srv payload_def write_input_def)
    qed
  next
    case (Append nm bs)
    consider "\<not> has_file nm fs" | "has_file nm fs" "mx < length bs" | "has_file nm fs" "length bs \<le> mx" by linarith
    then show ?thesis
    proof cases
      case 1
      with Append case_append_absent [OF ok job, of mf mx bs] inp show ?thesis
        by (simp add: answers_def srv payload_def)
    next
      case 2
      with Append case_append_big [OF ok job _ lim _ _ b, of bs es] inp scope show ?thesis
        by (simp add: answers_def srv payload_def)
    next
      case 3
      with Append case_append_run [OF ok job _ lim _ _ b, of bs es] inp scope mal show ?thesis
        by (simp add: answers_def srv payload_def write_input_def)
    qed
  next
    case (Remove nm)
    with case_remove_run [OF ok job] inp show ?thesis by (simp add: answers_def srv)
  next
    case (ReadN n)
    with case_readn_run [OF ok job b] inp show ?thesis by (simp add: answers_def srv)
  qed
qed

section \<open>One request\<close>

text \<open>What the simulation needs of the server and of the connection, and what it keeps.\<close>

definition ready :: "srv \<Rightarrow> nat \<Rightarrow> nat \<Rightarrow> nat \<Rightarrow> bool" where
  "ready s fd mf mx \<longleftrightarrow>
     link_ok s fd \<and> limits (mem s) mf mx \<and> 1 < mf \<and> Suc mf < 2 ^ 31 \<and>
     (\<forall>n \<le> mx. malloc_ok (slibc (socks s fd)) (of_nat n + 1))"

lemma served_ready: "served fd l s F es r s' \<Longrightarrow> ready s fd mf mx \<Longrightarrow> ready s' fd mf mx"
  using served_link served_limits by (auto simp: ready_def served_def)

lemma idle_names: "idle s fs F l \<Longrightarrow> distinct (map cname fs)"
  by (auto simp: idle_def srv_ok_def dest: stores_names(1))

lemma request_run:
  assumes idle: "idle s fs F l" and rdy: "ready s fd mf mx" and w: "within mf mx fs"
    and ok: "request_ok (policy (conf s)) mf mx r fs" and arr: "arrives s fd (request_bytes mx r fs) es"
  shows "\<exists>s'. served fd l s F es (spec_of (policy (conf s)) mf mx r fs) s'"
proof (rule servedI [OF idle req_name_ok [OF ok]])
  let ?es = "map Data (req_rest mx r fs) @ es"
  show "link_ok s fd" using rdy by (simp add: ready_def)
  show "arrives s fd (request_segments (req_op r) (req_name r) (req_flags r)) ?es"
    using arr by (simp add: arrives_def request_split req_head_def)
  fix s1 assume s1: "serving s F fd ?es (jfresh s) (request_job (req_op r) (req_name r) (req_flags r) fd l) fs s1"
  note d = servingD [OF s1]
  show "answers (serve (Some (jfresh s))) s1 F (jfresh s) (request_job (req_op r) (req_name r) (req_flags r) fd l) es
      (spec_of (policy (conf s)) mf mx r fs)"
    using request_answers [OF d(1) d(2) [folded req_job_def], of mf mx es] d(3-6) rdy w ok
    by (simp add: ready_def req_job_def)
qed (rule req_op_stays)

section \<open>Every sequence of requests\<close>

lemma requests_run:
  assumes "idle s fs F l" and "ready s fd mf mx" and "within mf mx fs"
    and "requests_ok (policy (conf s)) mf mx rs fs" and "arrives s fd (stream (policy (conf s)) mf mx rs fs) es"
  shows "\<exists>s'. sessions (length rs) fd l s = (Inr (), s') \<and>
    idle s' (spec_run (policy (conf s)) mf mx rs fs) F l \<and> within mf mx (spec_run (policy (conf s)) mf mx rs fs) \<and>
    socks s' = (socks s)(fd := sends (socks s fd) es (replies (policy (conf s)) mf mx rs fs))"
  using assms
proof (induction rs arbitrary: s fs)
  case Nil
  have "sends (socks s fd) es [] = socks s fd" using Nil.prems(5) by (simp add: arrives_def sends_def)
  with Nil show ?case by simp
next
  case (Cons r rs)
  let ?pol = "policy (conf s)" and ?r = "spec_of (policy (conf s)) mf mx r fs"
  let ?es = "map Data (stream ?pol mf mx rs (files ?r)) @ es"
  have "arrives s fd (request_bytes mx r fs) ?es" using Cons.prems(5) by (simp add: arrives_def)
  with request_run [OF Cons.prems(1-3)] Cons.prems(4) obtain t where t: "served fd l s F ?es ?r t" by auto
  have pt: "conf t = conf s" using t by (simp add: served_def)
  have mf: "1 < mf" using Cons.prems(2) by (simp add: ready_def)
  have w: "within mf mx (files ?r)"
    by (rule within_request [OF Cons.prems(3) idle_names [OF Cons.prems(1)] mf]) (use Cons.prems(4) in simp)
  have "requests_ok (policy (conf t)) mf mx rs (files ?r)" "arrives t fd (stream (policy (conf t)) mf mx rs (files ?r)) es"
    using Cons.prems(4) served_inp [OF t] by (simp_all add: pt arrives_def)
  from Cons.IH [OF served_idle [OF t] served_ready [OF t Cons.prems(2)] w this, unfolded pt] obtain s' where s': "sessions (length rs) fd l t = (Inr (), s')" "idle s' (spec_run ?pol mf mx rs (files ?r)) F l"
    "within mf mx (spec_run ?pol mf mx rs (files ?r))"
    "socks s' = (socks t)(fd := sends (socks t fd) es (replies ?pol mf mx rs (files ?r)))"
    by blast
  have "sessions (length (r # rs)) fd l s = (Inr (), s')"
    using sessions_Suc_run [OF t] s'(1) by simp
  moreover have "socks s' = (socks s)(fd := sends (socks s fd) es (replies ?pol mf mx (r # rs) fs))"
    using s'(4) t by (simp add: served_def reply_bytes_def)
  ultimately show ?case using s'(2,3) by auto
qed

end
