(* ===== verification/Schedules.thy ===== *)
theory Schedules
  imports Refinement
begin

text \<open>
  Several clients and several workers at once: any schedule of requests that arrive, jobs
  that are taken, cases that are run and responses, against an abstract cache that takes the
  requests one after the other. A job is taken in one step and its case runs in another, so
  jobs wait in the workers' hands and are served in any order; a case itself runs as a whole,
  its steps are not interleaved with those of another case.
\<close>

section \<open>A schedule of the code\<close>

text \<open>The server and the jobs its workers have taken and not served.\<close>

record pool =
  psrv :: srv
  held :: "addr list"

type_synonym 'a pcmd = "(pool, 'a) cmd"

abbreviation in_srv :: "'a scmd \<Rightarrow> 'a pcmd" where "in_srv \<equiv> zoom psrv psrv_update"

text \<open>
  \<open>Asks fd up\<close>: the bytes \<open>up\<close> arrive from the client on \<open>fd\<close> and its thread turns them into a
  job. \<open>Takes\<close>: a free worker takes the oldest job. \<open>Serves i fd up\<close>: the worker that holds the
  \<open>i\<close>-th of the jobs taken runs its case, while the bytes \<open>up\<close> arrive on \<open>fd\<close>. \<open>Responds fd\<close>: the
  thread of the client on \<open>fd\<close> sends the answer. \<open>L fd\<close> is the client's list.
\<close>

datatype event = Asks nat "char list list" | Takes | Serves nat nat "char list list" | Responds nat

definition feed :: "nat \<Rightarrow> char list list \<Rightarrow> unit scmd" where
  "feed fd up = modify (socks_update (\<lambda>k. k(fd := (k fd)\<lparr>inp := inp (k fd) @ map Data up\<rparr>)))"

fun perform :: "(nat \<Rightarrow> addr) \<Rightarrow> event \<Rightarrow> unit pcmd" where
  "perform L (Asks fd up) = in_srv (sq (feed fd up) (bnd (client_request fd (Some (L fd))) (\<lambda>_. ret ())))"
| "perform L Takes =
     bnd (in_srv worker_take) (\<lambda>job. case job of None \<Rightarrow> ret () | Some j \<Rightarrow> modify (held_update (\<lambda>h. h @ [j])))"
| "perform L (Serves i fd up) =
     bnd (gets held) (\<lambda>h. case drop i h of
         [] \<Rightarrow> stop Blocked
       | j # js \<Rightarrow> sq (in_srv (sq (feed fd up) (bnd (serve (Some j)) (\<lambda>_. ret ()))))
                    (modify (held_update (\<lambda>_. take i h @ js))))"
| "perform L (Responds fd) = in_srv (bnd (client_response (Some (L fd))) (\<lambda>_. ret ()))"

fun perform_all :: "(nat \<Rightarrow> addr) \<Rightarrow> event list \<Rightarrow> unit pcmd" where
  "perform_all L [] = ret ()"
| "perform_all L (e # es) = sq (perform L e) (perform_all L es)"

section \<open>The abstract cache with waiting clients\<close>

record cache_state =
  afiles :: "cfile list"
  awaiting :: "(nat \<times> request) list"
  aheld :: "(nat \<times> request) list"
  aready :: "nat \<rightharpoonup> reply_spec"
  asaid :: "nat \<Rightarrow> char list list"

abbreviation pending :: "cache_state \<Rightarrow> (nat \<times> request) list" where
  "pending a \<equiv> aheld a @ awaiting a"

datatype move = Ask nat request | Take | Serve nat | Respond nat

fun amove :: "cache_policy_t \<Rightarrow> nat \<Rightarrow> nat \<Rightarrow> move \<Rightarrow> cache_state \<Rightarrow> cache_state" where
  "amove pol mf mx (Ask fd r) a = a\<lparr>awaiting := awaiting a @ [(fd, r)]\<rparr>"
| "amove pol mf mx Take a =
     (case awaiting a of [] \<Rightarrow> a | p # rest \<Rightarrow> a\<lparr>awaiting := rest, aheld := aheld a @ [p]\<rparr>)"
| "amove pol mf mx (Serve i) a =
     (case drop i (aheld a) of
        [] \<Rightarrow> a
      | (fd, r) # rest \<Rightarrow>
          let x = spec_of pol mf mx r (afiles a) in
          a\<lparr>afiles := files x, aheld := take i (aheld a) @ rest, aready := (aready a)(fd \<mapsto> x),
            asaid := (asaid a)(fd := asaid a fd @ wire x)\<rparr>)"
| "amove pol mf mx (Respond fd) a =
     (case aready a fd of
        None \<Rightarrow> a
      | Some x \<Rightarrow> a\<lparr>aready := (aready a)(fd := None),
                     asaid := (asaid a)(fd := asaid a fd @ response_segments (status x) (err x))\<rparr>)"

text \<open>
  The moves that can happen with \<open>nw\<close> workers: a client asks when it is not waiting; a worker
  that is free takes a job when there is one, and serves it if its request is in scope; a
  client's thread responds when there is an answer.
\<close>

fun possible :: "nat \<Rightarrow> cache_policy_t \<Rightarrow> nat \<Rightarrow> nat \<Rightarrow> nat set \<Rightarrow> cache_state \<Rightarrow> move \<Rightarrow> bool" where
  "possible nw pol mf mx C a (Ask fd r) \<longleftrightarrow>
     fd \<in> C \<and> fd \<notin> fst ` set (pending a) \<and> aready a fd = None \<and> name_ok (req_name r)"
| "possible nw pol mf mx C a Take \<longleftrightarrow> awaiting a \<noteq> [] \<and> length (aheld a) < nw"
| "possible nw pol mf mx C a (Serve i) \<longleftrightarrow>
     (case drop i (aheld a) of [] \<Rightarrow> False | (fd, r) # rest \<Rightarrow> request_ok pol mf mx r (afiles a) \<and> request_keeps mx r)"
| "possible nw pol mf mx C a (Respond fd) \<longleftrightarrow> aready a fd \<noteq> None"

text \<open>What a move is in the code, with the bytes that arrive.\<close>

fun event_of :: "nat \<Rightarrow> cache_state \<Rightarrow> move \<Rightarrow> event" where
  "event_of mx a (Ask fd r) = Asks fd (req_head r)"
| "event_of mx a Take = Takes"
| "event_of mx a (Serve i) =
     (case drop i (aheld a) of [] \<Rightarrow> Serves i 0 [] | (fd, r) # rest \<Rightarrow> Serves i fd (req_rest mx r (afiles a)))"
| "event_of mx a (Respond fd) = Responds fd"

fun amoves :: "cache_policy_t \<Rightarrow> nat \<Rightarrow> nat \<Rightarrow> move list \<Rightarrow> cache_state \<Rightarrow> cache_state" where
  "amoves pol mf mx [] a = a"
| "amoves pol mf mx (m # ms) a = amoves pol mf mx ms (amove pol mf mx m a)"

fun all_possible :: "nat \<Rightarrow> cache_policy_t \<Rightarrow> nat \<Rightarrow> nat \<Rightarrow> nat set \<Rightarrow> move list \<Rightarrow> cache_state \<Rightarrow> bool" where
  "all_possible nw pol mf mx C [] a \<longleftrightarrow> True"
| "all_possible nw pol mf mx C (m # ms) a \<longleftrightarrow>
     possible nw pol mf mx C a m \<and> all_possible nw pol mf mx C ms (amove pol mf mx m a)"

fun events_of :: "cache_policy_t \<Rightarrow> nat \<Rightarrow> nat \<Rightarrow> move list \<Rightarrow> cache_state \<Rightarrow> event list" where
  "events_of pol mf mx [] a = []"
| "events_of pol mf mx (m # ms) a = event_of mx a m # events_of pol mf mx ms (amove pol mf mx m a)"

section \<open>The simulation relation\<close>

text \<open>A connection at rest: nothing unread, and the bytes sent so far are \<open>said\<close>.\<close>

definition calm :: "sock \<Rightarrow> nat \<Rightarrow> char list list \<Rightarrow> bool" where
  "calm k mx said \<longleftrightarrow> inp k = [] \<and> outp k = said \<and> wrs k = [] \<and> small_ok (slibc k) \<and>
     (\<forall>n \<le> mx. malloc_ok (slibc k) (of_nat n + 1))"

text \<open>The jobs in a list are the requests of another, in their order.\<close>

definition queued :: "(addr \<rightharpoonup> Job) \<Rightarrow> (nat \<Rightarrow> addr) \<Rightarrow> addr list \<Rightarrow> (nat \<times> request) list \<Rightarrow> bool" where
  "queued J L js ws \<longleftrightarrow> list_all2 (\<lambda>j (fd, r). J j = Some (req_job r fd (L fd)) \<and> name_ok (req_name r)) js ws"

text \<open>A client's list holds its answer when there is one and is empty otherwise.\<close>

definition answered :: "(addr \<rightharpoonup> Job) \<Rightarrow> addr list option \<Rightarrow> nat \<Rightarrow> reply_spec option \<Rightarrow> bool" where
  "answered J q fd x \<longleftrightarrow> (case x of
     None \<Rightarrow> q = Some []
   | Some r \<Rightarrow> (\<exists>j w. q = Some [j] \<and> J j = Some w \<and> client_fd w = fd \<and> op w \<noteq> CLOSE_CONNECTION \<and>
       jerr w = err r \<and> status_request w = status r))"

definition clients_ok :: "(nat \<Rightarrow> addr) \<Rightarrow> addr \<Rightarrow> nat set \<Rightarrow> bool" where
  "clients_ok L wl C \<longleftrightarrow> finite C \<and> card C \<le> list_cap \<and> inj_on L C \<and> wl \<notin> L ` C"

text \<open>Each client has at most one request on its way, and none when its answer is ready.\<close>

definition solo :: "nat set \<Rightarrow> cache_state \<Rightarrow> bool" where
  "solo C a \<longleftrightarrow> distinct (map fst (pending a)) \<and> fst ` set (pending a) \<subseteq> C \<and>
     (\<forall>fd. aready a fd \<noteq> None \<longrightarrow> fd \<in> C \<and> fd \<notin> fst ` set (pending a))"

definition agrees :: "nat \<Rightarrow> nat \<Rightarrow> (nat \<Rightarrow> addr) \<Rightarrow> addr \<Rightarrow> nat set \<Rightarrow> pool \<Rightarrow> cache_state \<Rightarrow> bool" where
  "agrees mf mx L wl C p a \<longleftrightarrow>
     serverMode (psrv p) \<noteq> OFF \<and> workList (psrv p) = Some wl \<and> limits (mem (psrv p)) mf mx \<and> sound mf mx (afiles a) \<and>
     (\<forall>fd \<in> C. calm (socks (psrv p) fd) mx (asaid a fd)) \<and> solo C a \<and>
     (\<exists>F js. srv_ok (psrv p) (afiles a) F \<and> F wl = Some js \<and>
        queued (jobs (psrv p)) L js (awaiting a) \<and> queued (jobs (psrv p)) L (held p) (aheld a) \<and>
        (\<forall>fd \<in> C. answered (jobs (psrv p)) (F (L fd)) fd (aready a fd)))"

section \<open>Steps of the code\<close>

text \<open>A step for the client on \<open>fd\<close> touches no job of another client.\<close>

definition others :: "nat \<Rightarrow> (addr \<rightharpoonup> Job) \<Rightarrow> (addr \<rightharpoonup> Job) \<Rightarrow> bool" where
  "others fd J J' \<longleftrightarrow> (\<forall>i w. J i = Some w \<and> client_fd w \<noteq> fd \<longrightarrow> J' i = J i)"

lemma others_upd: "(\<And>w. J j = Some w \<Longrightarrow> client_fd w = fd) \<Longrightarrow> others fd J (J(j := x))"
  by (auto simp: others_def)

lemma queued_others: "queued J L js ws \<Longrightarrow> others fd J J' \<Longrightarrow> fd \<notin> fst ` set ws \<Longrightarrow> queued J' L js ws"
  unfolding queued_def others_def by (erule list.rel_mono_strong) force

lemma answered_others: "answered J q fd' x \<Longrightarrow> others fd J J' \<Longrightarrow> fd' \<noteq> fd \<Longrightarrow> answered J' q fd' x"
  by (fastforce simp: answered_def others_def split: option.splits)

lemma feed_run:
  assumes "inp (socks s fd) = []"
  shows "feed fd up s = (Inr (), s\<lparr>socks := (socks s)(fd := sends (socks s fd) (map Data up) [])\<rparr>)"
  using assms by (simp add: feed_def sends_def)

lemma calm_sends: "calm k mx said \<Longrightarrow> calm (sends k [] segs) mx (said @ segs)"
  by (simp add: calm_def sends_def)

lemma agreesD:
  assumes "agrees mf mx L wl C p a"
  shows "serverMode (psrv p) \<noteq> OFF" and "workList (psrv p) = Some wl" and "limits (mem (psrv p)) mf mx" and "sound mf mx (afiles a)"
    and "\<And>fd. fd \<in> C \<Longrightarrow> calm (socks (psrv p) fd) mx (asaid a fd)" and "solo C a"
    and "\<exists>F js. srv_ok (psrv p) (afiles a) F \<and> F wl = Some js \<and>
        queued (jobs (psrv p)) L js (awaiting a) \<and> queued (jobs (psrv p)) L (held p) (aheld a) \<and>
        (\<forall>fd \<in> C. answered (jobs (psrv p)) (F (L fd)) fd (aready a fd))"
  using assms unfolding agrees_def by (blast+)

lemma agreesI:
  assumes "srv_ok (psrv p) (afiles a) F" and "F wl = Some js" and "queued (jobs (psrv p)) L js (awaiting a)"
    and "queued (jobs (psrv p)) L (held p) (aheld a)" and "\<forall>fd \<in> C. answered (jobs (psrv p)) (F (L fd)) fd (aready a fd)"
    and "\<And>fd. fd \<in> C \<Longrightarrow> calm (socks (psrv p) fd) mx (asaid a fd)" and "solo C a"
    and "sound mf mx (afiles a)" and "limits (mem (psrv p)) mf mx" and "serverMode (psrv p) \<noteq> OFF"
    and "workList (psrv p) = Some wl"
  shows "agrees mf mx L wl C p a"
  using assms unfolding agrees_def by blast

lemma clients_okD:
  assumes "clients_ok L wl C" and "fd \<in> C"
  shows "L fd \<noteq> wl" and "\<And>fd'. fd' \<in> C \<Longrightarrow> L fd' = L fd \<longleftrightarrow> fd' = fd"
  using assms by (auto simp: clients_ok_def inj_on_def)

lemma queue_room:
  assumes "clients_ok L wl C" and "fst ` set ws \<subseteq> C" and "fd \<in> C" and "fd \<notin> fst ` set ws" and "distinct (map fst ws)"
  shows "length ws < list_cap"
proof -
  have "length ws = card (fst ` set ws)" using distinct_card [OF assms(5)] by simp
  also have "\<dots> < card C"
    using assms by (intro psubset_card_mono) (auto simp: clients_ok_def)
  finally show ?thesis using assms(1) by (simp add: clients_ok_def)
qed

lemma answered_frame:
  assumes "\<forall>fd \<in> C. answered J (F (L fd)) fd (x fd)" and "others fd0 J J'" and "clients_ok L wl C" and "fd0 \<in> C"
    and "answered J' (F' (L fd0)) fd0 (x' fd0)"
    and "\<And>l. l \<noteq> L fd0 \<Longrightarrow> l \<noteq> wl \<Longrightarrow> F' l = F l" and "\<And>fd. fd \<noteq> fd0 \<Longrightarrow> x' fd = x fd"
  shows "\<forall>fd \<in> C. answered J' (F' (L fd)) fd (x' fd)"
proof
  fix fd assume fd: "fd \<in> C"
  show "answered J' (F' (L fd)) fd (x' fd)"
  proof (cases "fd = fd0")
    case False
    have "F' (L fd) = F (L fd)"
      by (rule assms(6)) (use clients_okD [OF assms(3) fd] clients_okD(2) [OF assms(3,4) fd] False in simp_all)
    with answered_others [OF bspec [OF assms(1) fd] assms(2) False] assms(7) [OF False] show ?thesis by simp
  qed (simp add: assms(5))
qed

text \<open>What a possible move does to the requests on their way.\<close>

lemma solo_move:
  assumes "solo C a" and "possible nw pol mf mx C a m"
  shows "solo C (amove pol mf mx m a)"
proof (cases m)
  case (Ask fd r)
  with assms show ?thesis by (auto simp: solo_def)
next
  case Take
  then obtain p rest where aw: "awaiting a = p # rest" using assms(2) by (cases "awaiting a") auto
  then have "solo C (a\<lparr>awaiting := rest, aheld := aheld a @ [p]\<rparr>) = solo C a" by (simp add: solo_def)
  with Take aw assms(1) show ?thesis by simp
next
  case (Serve i)
  with assms(2) obtain fd r rest where d: "drop i (aheld a) = (fd, r) # rest" by (auto split: list.splits)
  then have h: "aheld a = take i (aheld a) @ (fd, r) # rest" by (metis append_take_drop_id)
  have "solo C (a\<lparr>aheld := take i (aheld a) @ (fd, r) # rest\<rparr>)" using assms(1) h by simp
  with Serve d show ?thesis by (auto simp: solo_def Let_def)
next
  case (Respond fd)
  have "solo C (a\<lparr>aready := (aready a)(fd := None), asaid := z\<rparr>)" for z using assms(1) unfolding solo_def by simp
  with Respond assms(2) show ?thesis by auto
qed

lemma ask_step:
  assumes ag: "agrees mf mx L wl C p a" and C: "clients_ok L wl C" and po: "possible nw pol mf mx C a (Ask fd r)"
  shows "\<exists>t. perform L (event_of mx a (Ask fd r)) p = (Inr (), t) \<and>
    agrees mf mx L wl C t (amove pol mf mx (Ask fd r) a) \<and> conf (psrv t) = conf (psrv p)"
proof -
  let ?srv = "psrv p"
  note d = agreesD [OF ag]
  from d(7) obtain F js where ok: "srv_ok ?srv (afiles a) F" and wl: "F wl = Some js"
    and qd: "queued (jobs ?srv) L js (awaiting a)" "queued (jobs ?srv) L (held p) (aheld a)"
    and an: "\<forall>fd \<in> C. answered (jobs ?srv) (F (L fd)) fd (aready a fd)" by blast
  have fd: "fd \<in> C" "fd \<notin> fst ` set (pending a)" "aready a fd = None" and nm: "name_ok (req_name r)" using po by auto
  have off: "fd \<notin> fst ` set (awaiting a)" "fd \<notin> fst ` set (aheld a)" using fd(2) by auto
  let ?k = "sends (socks ?srv fd) (map Data (req_head r)) []"
  let ?fed = "?srv\<lparr>socks := (socks ?srv)(fd := ?k)\<rparr>" and ?j = "jfresh ?srv" and ?w = "req_job r fd (L fd)"
  have k: "calm (socks ?srv fd) mx (asaid a fd)" by (rule d(5) [OF fd(1)])
  have f: "feed fd (req_head r) ?srv = (Inr (), ?fed)" by (rule feed_run) (use k in \<open>simp add: calm_def\<close>)
  have ok0: "srv_ok ?fed (afiles a) F" using ok by (simp add: srv_ok_def)
  have len: "length js < list_cap"
  proof -
    have "length (pending a) < list_cap" by (rule queue_room [OF C _ fd(1,2)]) (use d(6) in \<open>simp_all add: solo_def\<close>)
    then show ?thesis using list_all2_lengthD [OF qd(1) [unfolded queued_def]] by simp
  qed
  have wl0: "workList ?fed = Some wl" using d(2) by simp
  have nm': "nul_free (req_name r)" "length (req_name r) < MAXNAME" using nm by (simp_all add: name_ok_def)
  have inp: "inp (socks ?fed fd) = map Data (request_segments (req_op r) (req_name r) (req_flags r)) @ []"
    by (simp add: req_head_def)
  have lib: "small_ok (slibc (socks ?fed fd))" using k by (simp add: calm_def)
  from client_request_run [OF ok0 wl0 wl len nm' inp lib, of "L fd"] obtain q where
    q: "client_request fd (Some (L fd)) ?fed = (Inr True, ?fed\<lparr>jobs := (jobs ?srv)(?j \<mapsto> ?w), jfresh := Suc ?j, qs := q,
      socks := (socks ?fed)(fd := sends (socks ?fed fd) [] [])\<rparr>)" "queues q (F(wl \<mapsto> js @ [?j]))"
    by (auto simp: req_job_def)
  let ?t = "?fed\<lparr>jobs := (jobs ?srv)(?j \<mapsto> ?w), jfresh := Suc ?j, qs := q, socks := (socks ?fed)(fd := sends (socks ?fed fd) [] [])\<rparr>"
  have fresh: "jobs ?srv ?j = None" using ok by (simp add: srv_ok_def)
  have ot: "others fd (jobs ?srv) (jobs ?t)" using others_upd [of "jobs ?srv" ?j fd "Some ?w"] fresh by simp
  have run: "perform L (Asks fd (req_head r)) p = (Inr (), p\<lparr>psrv := ?t\<rparr>)" using f q(1) by (simp add: zoom_run sq_def bnd_run)
  have "srv_ok ?t (afiles a) (F(wl \<mapsto> js @ [?j]))" using ok q(2) by (simp add: srv_ok_def)
  moreover have "queued (jobs ?t) L (js @ [?j]) (awaiting a @ [(fd, r)])" "queued (jobs ?t) L (held p) (aheld a)"
    using queued_others [OF qd(1) ot off(1)] queued_others [OF qd(2) ot off(2)] nm by (simp_all add: queued_def list_all2_appendI)
  moreover have "answered (jobs ?t) ((F(wl \<mapsto> js @ [?j])) (L fd')) fd' (aready a fd')" if "fd' \<in> C" for fd'
  proof (cases "fd' = fd")
    case True
    then show ?thesis using bspec [OF an fd(1)] fd clients_okD(1) [OF C fd(1)] by (simp add: answered_def)
  next
    case False
    then show ?thesis using answered_others [OF bspec [OF an that] ot False] clients_okD(1) [OF C that] by simp
  qed
  moreover have "calm (socks ?t fd') mx (asaid a fd')" if "fd' \<in> C" for fd'
    using d(5) [OF that] k by (simp add: calm_def sends_def)
  moreover have "solo C (a\<lparr>awaiting := awaiting a @ [(fd, r)]\<rparr>)" using solo_move [OF d(6) po] by simp
  ultimately have "agrees mf mx L wl C (p\<lparr>psrv := ?t\<rparr>) (a\<lparr>awaiting := awaiting a @ [(fd, r)]\<rparr>)"
    using d(1-4) unfolding agrees_def by auto
  with run show ?thesis by (intro exI [of _ "p\<lparr>psrv := ?t\<rparr>"]) simp
qed

lemma take_step:
  assumes ag: "agrees mf mx L wl C p a" and C: "clients_ok L wl C" and po: "possible nw pol mf mx C a Take"
  shows "\<exists>t. perform L (event_of mx a Take) p = (Inr (), t) \<and>
    agrees mf mx L wl C t (amove pol mf mx Take a) \<and> conf (psrv t) = conf (psrv p)"
proof -
  let ?srv = "psrv p"
  note d = agreesD [OF ag]
  from d(7) obtain F js where ok: "srv_ok ?srv (afiles a) F" and wl: "F wl = Some js"
    and qd: "queued (jobs ?srv) L js (awaiting a)" "queued (jobs ?srv) L (held p) (aheld a)"
    and an: "\<forall>fd \<in> C. answered (jobs ?srv) (F (L fd)) fd (aready a fd)" by blast
  obtain x ws where aw: "awaiting a = x # ws" using po by (cases "awaiting a") auto
  then obtain j js' where js: "js = j # js'" and qx: "queued (jobs ?srv) L [j] [x]" and qd': "queued (jobs ?srv) L js' ws"
    using qd(1) by (auto simp: queued_def list_all2_Cons2)
  have q0: "queues (qs ?srv) F" using ok by (simp add: srv_ok_def)
  from worker_take_run [OF q0 d(2) _ d(1), of j js'] wl js obtain q where
    q: "worker_take ?srv = (Inr (Some j), ?srv\<lparr>qs := q\<rparr>)" "queues q (F(wl \<mapsto> js'))" by auto
  let ?t = "p\<lparr>psrv := ?srv\<lparr>qs := q\<rparr>, held := held p @ [j]\<rparr>"
  have run: "perform L Takes p = (Inr (), ?t)" using q(1) by (simp add: zoom_run bnd_run)
  have "srv_ok (?srv\<lparr>qs := q\<rparr>) (afiles a) (F(wl \<mapsto> js'))" using ok q(2) by (simp add: srv_ok_def)
  moreover have "queued (jobs ?srv) L (held p @ [j]) (aheld a @ [x])" using qd(2) qx by (simp add: queued_def list_all2_appendI)
  moreover have "answered (jobs ?srv) ((F(wl \<mapsto> js')) (L fd)) fd (aready a fd)" if "fd \<in> C" for fd
    using bspec [OF an that] clients_okD(1) [OF C that] by simp
  ultimately have "agrees mf mx L wl C ?t (a\<lparr>awaiting := ws, aheld := aheld a @ [x]\<rparr>)"
    using d(1-5) solo_move [OF d(6) po] aw qd' unfolding agrees_def by auto
  with run aw show ?thesis by (intro exI [of _ ?t]) simp
qed

lemma queued_split:
  assumes "queued J L hs ps" and "drop i ps = (fd, r) # rest"
  shows "\<exists>j js. drop i hs = j # js \<and> J j = Some (req_job r fd (L fd)) \<and> name_ok (req_name r) \<and>
    queued J L (take i hs @ js) (take i ps @ rest)"
proof -
  have "queued J L (take i hs) (take i ps)" "queued J L (drop i hs) (drop i ps)"
    using assms(1) by (simp_all add: queued_def)
  with assms(2) show ?thesis by (auto simp: queued_def list_all2_Cons2 intro: list_all2_appendI)
qed

lemma serve_step:
  assumes ag: "agrees mf mx L wl C p a" and C: "clients_ok L wl C" and mf: "1 < mf" "Suc mf < 2 ^ 31"
    and po: "possible nw (policy (conf (psrv p))) mf mx C a (Serve i)"
  shows "\<exists>t. perform L (event_of mx a (Serve i)) p = (Inr (), t) \<and>
    agrees mf mx L wl C t (amove (policy (conf (psrv p))) mf mx (Serve i) a) \<and> conf (psrv t) = conf (psrv p)"
proof -
  let ?srv = "psrv p" and ?pol = "policy (conf (psrv p))"
  note d = agreesD [OF ag]
  from d(7) obtain F js where ok: "srv_ok ?srv (afiles a) F" and wl: "F wl = Some js"
    and qd: "queued (jobs ?srv) L js (awaiting a)" "queued (jobs ?srv) L (held p) (aheld a)"
    and an: "\<forall>fd \<in> C. answered (jobs ?srv) (F (L fd)) fd (aready a fd)" by blast
  from po obtain fd r rest where dr: "drop i (aheld a) = (fd, r) # rest"
    and scope: "request_ok ?pol mf mx r (afiles a)" "request_keeps mx r" by (auto split: list.splits)
  let ?w = "req_job r fd (L fd)" and ?up = "req_rest mx r (afiles a)" and ?x = "spec_of ?pol mf mx r (afiles a)"
  from queued_split [OF qd(2) dr] obtain j hs where hs: "drop i (held p) = j # hs" and j: "jobs ?srv j = Some ?w"
    and nm: "name_ok (req_name r)" and qh: "queued (jobs ?srv) L (take i (held p) @ hs) (take i (aheld a) @ rest)" by blast
  have sp: "aheld a = take i (aheld a) @ (fd, r) # rest" using dr by (metis append_take_drop_id)
  then have mem: "(fd, r) \<in> set (aheld a)" by (metis in_set_conv_decomp)
  have "solo C (a\<lparr>aheld := take i (aheld a) @ (fd, r) # rest\<rparr>)" using d(6) sp by simp
  then have off: "fd \<notin> fst ` set (awaiting a)" "fd \<notin> fst ` set (take i (aheld a) @ rest)" and fd: "fd \<in> C"
    by (auto simp: solo_def)
  have none: "aready a fd = None" using d(6) mem by (force simp: solo_def)
  have k: "calm (socks ?srv fd) mx (asaid a fd)" by (rule d(5) [OF fd])
  let ?fed = "?srv\<lparr>socks := (socks ?srv)(fd := sends (socks ?srv fd) (map Data ?up) [])\<rparr>"
  have f: "feed fd ?up ?srv = (Inr (), ?fed)" by (rule feed_run) (use k in \<open>simp add: calm_def\<close>)
  have empty: "F (L fd) = Some []" using bspec [OF an fd] none by (simp add: answered_def)
  have "answers (serve (Some j)) ?fed F j ?w [] (spec_of (policy (conf ?fed)) mf mx r (afiles a))"
  proof (rule request_answers)
    show "srv_ok ?fed (afiles a) F" using ok by (simp add: srv_ok_def)
    show "job_ok ?fed F j ?w" using j nm k empty by (simp add: job_ok_def name_ok_def calm_def)
  qed (use d(3,4) mf scope k in \<open>simp_all add: sound_def calm_def\<close>)
  then obtain m q where
    srv: "serve (Some j) ?fed = (Inr Next_job, reply ?fed j ?w (err ?x) (status ?x) m q (sends (socks ?fed fd) [] (wire ?x)))"
    and m: "stores m (files ?x)" "keeps (mem ?srv) m" and q: "queues q (delivered F j ?w)" by (auto simp: answers_def)
  let ?t = "reply ?fed j ?w (err ?x) (status ?x) m q (sends (socks ?fed fd) [] (wire ?x))"
  let ?p = "p\<lparr>psrv := ?t, held := take i (held p) @ hs\<rparr>" and ?G = "delivered F j ?w"
  let ?a = "a\<lparr>afiles := files ?x, aheld := take i (aheld a) @ rest, aready := (aready a)(fd \<mapsto> ?x),
      asaid := (asaid a)(fd := asaid a fd @ wire ?x)\<rparr>"
  have G: "?G = F(L fd \<mapsto> [j])" using empty by (simp add: delivered_def)
  have a: "amove ?pol mf mx (Serve i) a = ?a" using dr by (simp add: Let_def)
  have ot: "others fd (jobs ?srv) (jobs ?t)" unfolding reply_def using others_upd [of "jobs ?srv" j fd] j by simp
  have run: "perform L (Serves i fd ?up) p = (Inr (), ?p)"
    using f srv hs by (simp add: zoom_run sq_def bnd_run)
  have "agrees mf mx L wl C ?p ?a"
  proof (rule agreesI [where F = ?G and js = js])
    show "srv_ok (psrv ?p) (afiles ?a) ?G" using ok m q j by (auto simp: srv_ok_def reply_def keeps_def)
    show "?G wl = Some js" using clients_okD(1) [OF C fd] wl by (simp add: G)
    show "queued (jobs (psrv ?p)) L js (awaiting ?a)" using queued_others [OF qd(1) ot off(1)] by simp
    show "queued (jobs (psrv ?p)) L (held ?p) (aheld ?a)" using queued_others [OF qh ot off(2)] by simp
    have "\<forall>fd' \<in> C. answered (jobs ?t) ((F(L fd \<mapsto> [j])) (L fd')) fd' (((aready a)(fd \<mapsto> ?x)) fd')"
      by (rule answered_frame [OF an ot C fd]) (simp_all add: answered_def reply_def req_op_stays)
    then show "\<forall>fd' \<in> C. answered (jobs (psrv ?p)) (?G (L fd')) fd' (aready ?a fd')" by (simp add: G)
    show "limits (mem (psrv ?p)) mf mx" using keeps_limits [OF m(2) d(3)] by (simp add: reply_def)
    show "calm (socks (psrv ?p) fd') mx (asaid ?a fd')" if "fd' \<in> C" for fd'
      using d(5) [OF that] k by (auto simp: reply_def calm_def sends_def)
    show "solo C ?a" using solo_move [OF d(6) po] unfolding a .
    show "sound mf mx (afiles ?a)" using sound_request [OF d(4) mf(1) scope(2)] by simp
  qed (use d(1,2) in \<open>simp_all add: reply_def\<close>)
  with run dr a show ?thesis by (intro exI [of _ ?p]) (simp add: reply_def del: perform.simps amove.simps)
qed

lemma respond_step:
  assumes ag: "agrees mf mx L wl C p a" and C: "clients_ok L wl C" and po: "possible nw pol mf mx C a (Respond fd)"
  shows "\<exists>t. perform L (event_of mx a (Respond fd)) p = (Inr (), t) \<and>
    agrees mf mx L wl C t (amove pol mf mx (Respond fd) a) \<and> conf (psrv t) = conf (psrv p)"
proof -
  let ?srv = "psrv p"
  note d = agreesD [OF ag]
  from d(7) obtain F js where ok: "srv_ok ?srv (afiles a) F" and wl: "F wl = Some js"
    and qd: "queued (jobs ?srv) L js (awaiting a)" "queued (jobs ?srv) L (held p) (aheld a)"
    and an: "\<forall>fd \<in> C. answered (jobs ?srv) (F (L fd)) fd (aready a fd)" by blast
  obtain x where x: "aready a fd = Some x" using po by auto
  have fd: "fd \<in> C" and off: "fd \<notin> fst ` set (awaiting a)" "fd \<notin> fst ` set (aheld a)" using d(6) x by (auto simp: solo_def)
  have k: "calm (socks ?srv fd) mx (asaid a fd)" by (rule d(5) [OF fd])
  obtain j w where j: "F (L fd) = Some [j]" "jobs ?srv j = Some w" "client_fd w = fd" "op w \<noteq> CLOSE_CONNECTION"
    "jerr w = err x" "status_request w = status x" using bspec [OF an fd] x by (auto simp: answered_def)
  have q0: "queues (qs ?srv) F" using ok by (simp add: srv_ok_def)
  let ?segs = "response_segments (status x) (err x)"
  from client_response_run [OF q0 j(1,2)] j k obtain q where
    q: "client_response (Some (L fd)) ?srv = (Inr True, ?srv\<lparr>mem := cleared (mem ?srv), qs := q, jobs := (jobs ?srv)(j := None),
        socks := (socks ?srv)(fd := sends (socks ?srv fd) [] ?segs)\<rparr>)" "queues q (F(L fd \<mapsto> []))"
    by (auto simp: calm_def)
  let ?t = "?srv\<lparr>mem := cleared (mem ?srv), qs := q, jobs := (jobs ?srv)(j := None), socks := (socks ?srv)(fd := sends (socks ?srv fd) [] ?segs)\<rparr>"
  let ?G = "F(L fd \<mapsto> [])" and ?p = "p\<lparr>psrv := ?t\<rparr>"
  let ?a = "a\<lparr>aready := (aready a)(fd := None), asaid := (asaid a)(fd := asaid a fd @ ?segs)\<rparr>"
  have a: "amove pol mf mx (Respond fd) a = ?a" using x by simp
  have ot: "others fd (jobs ?srv) (jobs ?t)" using others_upd [of "jobs ?srv" j fd None] j by simp
  have run: "perform L (Responds fd) p = (Inr (), ?p)" using q(1) by (simp add: zoom_run bnd_run)
  have "agrees mf mx L wl C ?p ?a"
  proof (rule agreesI [where F = ?G and js = js])
    have "\<forall>fd' \<in> C. answered (jobs ?t) (?G (L fd')) fd' (((aready a)(fd := None)) fd')"
      by (rule answered_frame [OF an ot C fd]) (simp_all add: answered_def)
    then show "\<forall>fd' \<in> C. answered (jobs (psrv ?p)) (?G (L fd')) fd' (aready ?a fd')" by simp
    show "queued (jobs (psrv ?p)) L js (awaiting ?a)" using queued_others [OF qd(1) ot off(1)] by simp
    show "queued (jobs (psrv ?p)) L (held ?p) (aheld ?a)" using queued_others [OF qd(2) ot off(2)] by simp
    show "srv_ok (psrv ?p) (afiles ?a) ?G" using ok q(2) by (auto simp: srv_ok_def)
    show "solo C ?a" using solo_move [OF d(6) po] unfolding a .
    show "calm (socks (psrv ?p) fd') mx (asaid ?a fd')" if "fd' \<in> C" for fd'
      using d(5) [OF that] k by (auto simp: calm_def sends_def)
    show "?G wl = Some js" using clients_okD(1) [OF C fd] wl by simp
  qed (use d(1-4) in simp_all)
  with run a show ?thesis by (intro exI [of _ ?p]) (simp del: perform.simps amove.simps)
qed

section \<open>Every schedule\<close>

lemma move_step:
  assumes "agrees mf mx L wl C p a" and "clients_ok L wl C" and "1 < mf" "Suc mf < 2 ^ 31"
    and "possible nw (policy (conf (psrv p))) mf mx C a m"
  shows "\<exists>t. perform L (event_of mx a m) p = (Inr (), t) \<and>
    agrees mf mx L wl C t (amove (policy (conf (psrv p))) mf mx m a) \<and> conf (psrv t) = conf (psrv p)"
  using ask_step [OF assms(1,2)] take_step [OF assms(1,2)] serve_step [OF assms(1-4)] respond_step [OF assms(1,2)] assms(5)
  by (cases m) (blast+)

lemma schedule_run:
  assumes "agrees mf mx L wl C p a" and "clients_ok L wl C" and "1 < mf" "Suc mf < 2 ^ 31"
    and "all_possible nw (policy (conf (psrv p))) mf mx C ms a"
  shows "\<exists>t. perform_all L (events_of (policy (conf (psrv p))) mf mx ms a) p = (Inr (), t) \<and>
    agrees mf mx L wl C t (amoves (policy (conf (psrv p))) mf mx ms a)"
  using assms
proof (induction ms arbitrary: p a)
  case (Cons m ms)
  let ?pol = "policy (conf (psrv p))"
  from move_step [OF Cons.prems(1-4)] Cons.prems(5) obtain t where
    t: "perform L (event_of mx a m) p = (Inr (), t)" "agrees mf mx L wl C t (amove ?pol mf mx m a)" "conf (psrv t) = conf (psrv p)"
    by auto
  from Cons.IH [OF t(2) Cons.prems(2-4)] Cons.prems(5) t(3) obtain u where
    "perform_all L (events_of ?pol mf mx ms (amove ?pol mf mx m a)) t = (Inr (), u)"
    "agrees mf mx L wl C u (amoves ?pol mf mx ms (amove ?pol mf mx m a))" by auto
  with t(1) show ?case by (simp add: sq_Inr)
qed simp

section \<open>One after the other\<close>

text \<open>The requests of a schedule in the order in which they arrive, and what a client is told of them.\<close>

definition asked_in :: "move list \<Rightarrow> (nat \<times> request) list" where
  "asked_in ms = concat (map (\<lambda>m. case m of Ask fd r \<Rightarrow> [(fd, r)] | _ \<Rightarrow> []) ms)"

text \<open>The requests served by a schedule, in the order of their cases.\<close>

fun served_by :: "cache_state \<Rightarrow> move \<Rightarrow> (nat \<times> request) list" where
  "served_by a (Serve i) = take 1 (drop i (aheld a))"
| "served_by a _ = []"

fun served_in :: "cache_policy_t \<Rightarrow> nat \<Rightarrow> nat \<Rightarrow> move list \<Rightarrow> cache_state \<Rightarrow> (nat \<times> request) list" where
  "served_in pol mf mx [] a = []"
| "served_in pol mf mx (m # ms) a = served_by a m @ served_in pol mf mx ms (amove pol mf mx m a)"

definition of_one :: "nat \<Rightarrow> (nat \<times> request) list \<Rightarrow> (nat \<times> request) list" where
  "of_one fd ps = filter (\<lambda>p. fst p = fd) ps"

fun told :: "cache_policy_t \<Rightarrow> nat \<Rightarrow> nat \<Rightarrow> nat \<Rightarrow> (nat \<times> request) list \<Rightarrow> cfile list \<Rightarrow> char list list" where
  "told pol mf mx fd [] fs = []"
| "told pol mf mx fd ((fd', r) # ps) fs =
     (if fd' = fd then reply_bytes (spec_of pol mf mx r fs) else []) @ told pol mf mx fd ps (files (spec_of pol mf mx r fs))"

text \<open>What is still to be sent: the end of an answer that is ready.\<close>

definition unsaid :: "reply_spec option \<Rightarrow> char list list" where
  "unsaid x = (case x of None \<Rightarrow> [] | Some r \<Rightarrow> response_segments (status r) (err r))"

lemma told_snoc: "told pol mf mx fd (ps @ [(fd', r)]) fs = told pol mf mx fd ps fs @
    (if fd' = fd then reply_bytes (spec_of pol mf mx r (spec_run pol mf mx (map snd ps) fs)) else [])"
  by (induction ps arbitrary: fs) auto

text \<open>
  The state after a schedule in terms of the requests that were \<open>asked\<close> and of those
  served, \<open>past\<close>, in the order of their cases.
\<close>

definition serial :: "nat \<Rightarrow> cache_policy_t \<Rightarrow> nat \<Rightarrow> nat \<Rightarrow> cfile list \<Rightarrow> (nat \<Rightarrow> char list list) \<Rightarrow>
    (nat \<times> request) list \<Rightarrow> (nat \<times> request) list \<Rightarrow> cache_state \<Rightarrow> bool" where
  "serial nw pol mf mx fs said asked past a \<longleftrightarrow>
     (\<forall>fd. of_one fd (past @ pending a) = of_one fd asked) \<and> (nw = 1 \<longrightarrow> asked = past @ pending a) \<and>
     length (aheld a) \<le> nw \<and> afiles a = spec_run pol mf mx (map snd past) fs \<and>
     (\<forall>fd. asaid a fd @ unsaid (aready a fd) = said fd @ told pol mf mx fd past fs)"

lemma serial_move:
  assumes "serial nw pol mf mx fs said asked past a" and "solo C a" and "possible nw pol mf mx C a m"
  shows "serial nw pol mf mx fs said (asked @ asked_in [m]) (past @ served_by a m) (amove pol mf mx m a)"
proof (cases m)
  case (Ask fd r)
  then show ?thesis using assms(1) by (auto simp: serial_def asked_in_def of_one_def)
next
  case Take
  then obtain p rest where "awaiting a = p # rest" using assms(3) by (cases "awaiting a") auto
  then show ?thesis using assms(1,3) Take by (auto simp: serial_def asked_in_def of_one_def)
next
  case (Serve i)
  then obtain fd r rest where dr: "drop i (aheld a) = (fd, r) # rest" using assms(3) by (auto split: list.splits)
  let ?x = "spec_of pol mf mx r (afiles a)"
  define h where "h = take i (aheld a)"
  have sp: "aheld a = h @ (fd, r) # rest" using dr unfolding h_def by (metis append_take_drop_id)
  have off: "fd \<notin> fst ` set h" using assms(2) by (auto simp: solo_def sp)
  have none: "aready a fd = None" using assms(2) by (force simp: solo_def sp)
  have pre: "of_one fd h = []" using off by (auto simp: of_one_def filter_empty_conv)
  have "of_one d ((past @ [(fd, r)]) @ (h @ rest) @ awaiting a) = of_one d asked" for d
  proof -
    have "of_one d asked = of_one d (past @ (h @ (fd, r) # rest) @ awaiting a)" using assms(1) by (simp add: serial_def sp)
    then show ?thesis using pre by (cases "d = fd") (simp_all add: of_one_def)
  qed
  moreover have "nw = 1 \<longrightarrow> asked = (past @ [(fd, r)]) @ (h @ rest) @ awaiting a"
    using assms(1) by (auto simp: serial_def sp)
  moreover have "length (h @ rest) \<le> nw" using assms(1) by (simp add: serial_def sp)
  moreover have "asaid a fd = said fd @ told pol mf mx fd past fs" "afiles a = spec_run pol mf mx (map snd past) fs"
    using assms(1) none by (auto simp: serial_def unsaid_def dest: spec [where x = fd])
  ultimately have "serial nw pol mf mx fs said asked (past @ [(fd, r)])
      (a\<lparr>afiles := files ?x, aheld := h @ rest, aready := (aready a)(fd \<mapsto> ?x), asaid := (asaid a)(fd := asaid a fd @ wire ?x)\<rparr>)"
    using assms(1) by (auto simp: serial_def told_snoc unsaid_def reply_bytes_def)
  with Serve dr show ?thesis by (simp add: asked_in_def Let_def h_def)
next
  case (Respond fd)
  then obtain x where "aready a fd = Some x" using assms(3) by auto
  then show ?thesis using assms(1) Respond by (auto simp: serial_def asked_in_def unsaid_def dest: spec [where x = fd])
qed

lemma one_after_the_other:
  assumes "serial nw pol mf mx fs said asked past a" and "solo C a" and "all_possible nw pol mf mx C ms a"
  shows "serial nw pol mf mx fs said (asked @ asked_in ms) (past @ served_in pol mf mx ms a) (amoves pol mf mx ms a)"
  using assms
proof (induction ms arbitrary: a asked past)
  case Nil
  then show ?case by (auto simp: asked_in_def)
next
  case (Cons m ms)
  have po: "possible nw pol mf mx C a m" and ps: "all_possible nw pol mf mx C ms (amove pol mf mx m a)"
    using Cons.prems(3) by simp_all
  from Cons.IH [OF serial_move [OF Cons.prems(1,2) po] solo_move [OF Cons.prems(2) po] ps]
  show ?case by (simp add: asked_in_def)
qed

end
