(* ===== verification/Examples.thy ===== *)
theory Examples
  imports Refinement
begin

text \<open>
  A small running server on which the theorems are instantiated: limits of two files and ten
  bytes, two cached files, the work list at address 0 and the list of one client, connected
  on descriptor 4, at address 1.
\<close>

definition ex_libc :: libc where
  "ex_libc = \<lparr>malloc_ok = (\<lambda>n. n < 0x10000000000), memstream_ok = True, mutex_ok = True, cond_ok = True,
     thread_ok = True, fprintf_ok = True, fwrite_ok = True, fclose_ok = True\<rparr>"

definition ex_log :: log_state where
  "ex_log = \<lparr>logFile = True, entries = [], lockLogFile = False, llibc = ex_libc\<rparr>"

definition ex_file :: "string \<Rightarrow> char list \<Rightarrow> i32 \<Rightarrow> addr option \<Rightarrow> addr option \<Rightarrow> FileMemory" where
  "ex_file nm bs opn nx pv = \<lparr>fopened = True, buffer = bs, usedMemory = of_nat (length bs), filename = nm,
     isOpen = opn, lockFile = False, fnext = nx, fprev = pv\<rparr>"

definition ex_mem :: mem_state where
  "ex_mem = \<lparr>nCurrentMemoryUsed = 7, MaxMemory = 10, nCurrentFile = 2, MaxFiles = 2, memory = Some 1,
     memoryLock = False, metadataLock = False, alg_trigger = 0, MaxRecvFile = 2, MaxUsedMemory = 7,
     heap = [0 \<mapsto> ex_file ''/old'' ''abc'' 0 None (Some 1), 1 \<mapsto> ex_file ''/new'' ''defg'' 1 (Some 0) None],
     fresh = 2, errno = 0, logst = ex_log, stdout = [], mlibc = ex_libc\<rparr>"

definition ex_files :: "cfile list" where
  "ex_files = [\<lparr>cname = ''/new'', ccontent = ''defg'', copen = True\<rparr>,
     \<lparr>cname = ''/old'', ccontent = ''abc'', copen = False\<rparr>]"

definition ex_list :: List_t where
  "ex_list = \<lparr>listCond = 0, listLock = False, number_of_nodes = 0, tail = None, list_head = None\<rparr>"

definition ex_qs :: qheap where
  "ex_qs = \<lparr>nodes = Map.empty, lists = [0 \<mapsto> ex_list, 1 \<mapsto> ex_list], nfresh = 0, lfresh = 2, qlibc = ex_libc\<rparr>"

definition ex_F :: "addr \<rightharpoonup> addr list" where
  "ex_F = [0 \<mapsto> [], 1 \<mapsto> []]"

definition ex_sock :: "rd_event list \<Rightarrow> sock" where
  "ex_sock es = \<lparr>inp = es, peer_closed = False, wrs = [], outp = [], junk = replicate 8 NUL, slibc = ex_libc\<rparr>"

definition ex_conf :: "cache_policy_t \<Rightarrow> config_t" where
  "ex_conf pol = \<lparr>Nslaves = 2, max_memory = 10, max_files = 2, socket_path = ''/tmp/sok'', log_path = ''log'',
     policy = pol\<rparr>"

definition ex_job :: "i32 \<Rightarrow> i32 \<Rightarrow> string \<Rightarrow> Job" where
  "ex_job opc flgs nm = \<lparr>op = opc, flags = flgs, jfilename = nm, client_queue = Some 1, jerr = INITED,
     status_request = INITED, client_fd = 4\<rparr>"

definition ex_srv :: "cache_policy_t \<Rightarrow> Job \<Rightarrow> rd_event list \<Rightarrow> srv" where
  "ex_srv pol w es = \<lparr>mem = ex_mem, qs = ex_qs, jobs = [0 \<mapsto> w], jfresh = 1, socks = (\<lambda>_. ex_sock es),
     conf = ex_conf pol, workList = Some 0, serverMode = ON,
     wk = \<lparr>workerCounter = 2, workerCounterLock = False, waitOnworkers = 0, wlibc = ex_libc\<rparr>,
     args_slot = (4, Some 1), threads = [Worker_thread, Worker_thread, Client_thread], masks = ({}, {})\<rparr>"

lemma ex_libc_ok [simp]: "libc_ok ex_libc" "small_ok ex_libc" "malloc_ok ex_libc n \<longleftrightarrow> n < 0x10000000000"
  by (auto simp: libc_ok_def small_ok_def ex_libc_def intro: less_trans)

lemma ex_log_wf [simp]: "log_wf ex_log"
  by (simp add: log_wf_def ex_log_def)

lemma ex_mem_wf [simp]: "mem_wf ex_mem [1, 0]"
  unfolding mem_wf_def
  by (intro conjI) (simp_all add: unlocked_def ex_mem_def ex_file_def names_def bytes_used_def file_wf_def)

lemma ex_view: "view ex_mem [1, 0] = ex_files"
  by (simp add: view_def ex_files_def ex_mem_def ex_file_def abs_file_def)

lemma ex_stores [simp]: "stores ex_mem ex_files"
  using storesI [OF ex_mem_wf] by (simp only: ex_view)

lemma ex_limits [simp]: "limits ex_mem 2 10"
  by (simp add: limits_def ex_mem_def)

lemma ex_queues [simp]: "queues ex_qs ex_F"
  unfolding queues_def
  by (intro exI [of _ "\<lambda>_. []"])
    (auto simp: boxes_def ex_qs_def ex_F_def queue_wf_nil ex_list_def split: if_splits)

lemma ex_srv_sel [simp]:
  "mem (ex_srv pol w es) = ex_mem" "qs (ex_srv pol w es) = ex_qs" "conf (ex_srv pol w es) = ex_conf pol"
  "socks (ex_srv pol w es) fd = ex_sock es" "workList (ex_srv pol w es) = Some 0"
  "serverMode (ex_srv pol w es) = ON" "jobs (ex_srv pol w es) = [0 \<mapsto> w]"
  "policy (ex_conf pol) = pol" "inp (ex_sock es) = es" "slibc (ex_sock es) = ex_libc" "wrs (ex_sock es) = []"
  "client_fd (ex_job opc fl nm) = 4" "jfilename (ex_job opc fl nm) = nm" "flags (ex_job opc fl nm) = fl"
  "op (ex_job opc fl nm) = opc" "client_queue (ex_job opc fl nm) = Some 1"
  by (simp_all add: ex_srv_def ex_conf_def ex_sock_def ex_job_def)

lemma ex_srv_ok [simp]: "srv_ok (ex_srv pol w es) ex_files ex_F"
  by (auto simp: srv_ok_def workers_wf_def) (simp_all add: ex_srv_def ex_mem_def)

lemma ex_job_ok [simp]: "nul_free nm \<Longrightarrow> length nm < MAXNAME \<Longrightarrow>
    job_ok (ex_srv pol (ex_job opc fl nm) es) ex_F 0 (ex_job opc fl nm)"
  by (simp add: job_ok_def ex_F_def)

lemma ex_has [simp]: "has_file nm ex_files \<longleftrightarrow> nm = ''/new'' \<or> nm = ''/old''"
  by (auto simp: has_file_def ex_files_def)

lemma ex_bytes [simp]: "content_bytes ex_files = 7" "length ex_files = 2"
  by (simp_all add: ex_files_def)

lemma ex_F_empty [simp]: "ex_F 0 = Some []" "ex_F (Suc 0) = Some []"
  by (simp_all add: ex_F_def)

lemma ex_idle [simp]: "idle (ex_srv pol w es) ex_files ex_F (Suc 0)"
  by (simp add: idle_def)

text \<open>The server with no request being served.\<close>

abbreviation ex_quiet :: "cache_policy_t \<Rightarrow> char list list \<Rightarrow> srv" where
  "ex_quiet pol segs \<equiv> ex_srv pol (ex_job 0 0 []) (map Data segs)"

lemma ex_link [simp]: "link_ok (ex_srv pol w es) fd"
  by (simp add: link_ok_def)

lemma ex_name_ok: "name_ok ''/new''" "name_ok ''/old''" "name_ok ''/third''"
  by (simp_all add: name_ok_def nul_free_def)

lemma ex_ready [simp]: "ready (ex_srv pol w es) fd 2 10"
  by (simp add: ready_def word_less_nat_alt unat_word_ariths unat_of_nat)

lemma ex_within [simp]: "within 2 10 ex_files"
  by (simp add: within_def)

lemma ex_lookup [simp]: "lookup_file ''/new'' ex_files = Some \<lparr>cname = ''/new'', ccontent = ''defg'', copen = True\<rparr>"
  by (simp add: lookup_file_def ex_files_def)

end
