(* ===== verification/Schedule_Props.thy ===== *)
theory Schedule_Props
  imports Schedules Examples
begin

text \<open>
  Several clients and several workers at once: whatever the schedule, the requests take
  effect one after the other, in an order that keeps the order of each client's own.
\<close>

text \<open>The server before the schedule: no client waits, and \<open>said\<close> was sent so far.\<close>

definition resting :: "cfile list \<Rightarrow> (nat \<Rightarrow> char list list) \<Rightarrow> cache_state" where
  "resting fs said = \<lparr>afiles = fs, awaiting = [], aheld = [], aready = Map.empty, asaid = said\<rparr>"

lemma schedule_one_after_the_other:
  assumes "agrees mf mx L wl C p (resting fs said)" and "clients_ok L wl C" and "1 < mf" and "Suc mf < 2 ^ 31"
    and "pol = policy (conf (psrv p))" and "all_possible nw pol mf mx C ms (resting fs said)"
    and "b = amoves pol mf mx ms (resting fs said)" and "past = served_in pol mf mx ms (resting fs said)"
  shows "\<exists>t. perform_all L (events_of pol mf mx ms (resting fs said)) p = (Inr (), t) \<and>
    (\<forall>fd. of_one fd (past @ pending b) = of_one fd (asked_in ms)) \<and> (nw = 1 \<longrightarrow> asked_in ms = past @ pending b) \<and>
    stores (mem (psrv t)) (spec_run pol mf mx (map snd past) fs) \<and> within mf mx (spec_run pol mf mx (map snd past) fs) \<and>
    (\<forall>fd \<in> C. inp (socks (psrv t) fd) = [] \<and>
      outp (socks (psrv t) fd) @ unsaid (aready b fd) = said fd @ told pol mf mx fd past fs)"
proof -
  obtain t where t: "perform_all L (events_of pol mf mx ms (resting fs said)) p = (Inr (), t)" "agrees mf mx L wl C t b"
    using schedule_run [OF assms(1-4)] assms(5-7) by auto
  have "serial nw pol mf mx fs said [] [] (resting fs said)" by (simp add: serial_def resting_def unsaid_def)
  from one_after_the_other [OF this agreesD(6) [OF assms(1)] assms(6)] have
    sr: "serial nw pol mf mx fs said (asked_in ms) past b" using assms(7,8) by simp
  have "stores (mem (psrv t)) (afiles b)" using agreesD(7) [OF t(2)] by (auto simp: srv_ok_def)
  moreover have "within mf mx (afiles b)" using agreesD(4) [OF t(2)] by (simp add: sound_def)
  moreover have "inp (socks (psrv t) fd) = [] \<and> outp (socks (psrv t) fd) = asaid b fd" if "fd \<in> C" for fd
    using agreesD(5) [OF t(2) that] by (simp add: calm_def)
  ultimately show ?thesis using t(1) sr unfolding serial_def by (intro exI [of _ t]) simp
qed

text \<open>
  C2. Clients that ask at the same time, with the server running and requests in scope
  (\<open>request_ok\<close>, \<open>request_keeps\<close>): for every schedule of requests that arrive, workers that
  take a job, workers that run the case of a job they hold, and answers that are sent, for any
  number of clients and workers, the code runs through. The requests took effect one after the
  other in the order in which their cases ran, those of each client in the order in which it
  sent them, and with one worker all of them in the order in which they arrived; the cache
  holds what the abstract cache holds after them, and each client was sent the answers to its
  own requests and nothing else. A case of the switch is one step here: cases of two workers
  that overlap are not covered.
\<close>

theorem requests_are_serial:
  assumes "agrees mf mx L wl C p (resting fs said)" and "clients_ok L wl C" and "1 < mf" and "Suc mf < 2 ^ 31"
    and "pol = policy (conf (psrv p))" and "all_possible nw pol mf mx C ms (resting fs said)"
    and "b = amoves pol mf mx ms (resting fs said)" and "past = served_in pol mf mx ms (resting fs said)"
  shows "\<exists>t. perform_all L (events_of pol mf mx ms (resting fs said)) p = (Inr (), t) \<and>
    (\<forall>fd. of_one fd (past @ pending b) = of_one fd (asked_in ms)) \<and> (nw = 1 \<longrightarrow> asked_in ms = past @ pending b) \<and>
    stores (mem (psrv t)) (spec_run pol mf mx (map snd past) fs) \<and> within mf mx (spec_run pol mf mx (map snd past) fs) \<and>
    (\<forall>fd \<in> C. inp (socks (psrv t) fd) = [] \<and>
      outp (socks (psrv t) fd) @ unsaid (aready b fd) = said fd @ told pol mf mx fd past fs)"
  using assms by (rule schedule_one_after_the_other)

section \<open>Two clients\<close>

definition ex_two :: pool where
  "ex_two = \<lparr>psrv = (ex_quiet FIFO [])\<lparr>qs := ex_qs\<lparr>lists := [0 \<mapsto> ex_list, 1 \<mapsto> ex_list, 2 \<mapsto> ex_list], lfresh := 3\<rparr>, jobs := Map.empty\<rparr>,
     held = []\<rparr>"

abbreviation ex_lists :: "nat \<Rightarrow> addr" where
  "ex_lists fd \<equiv> (if fd = 4 then 1 else 2)"

lemma ex_two_queues: "queues (qs (psrv ex_two)) (ex_F(2 \<mapsto> []))"
  unfolding queues_def
  by (intro exI [of _ "\<lambda>_. []"])
    (auto simp: boxes_def ex_two_def ex_qs_def ex_F_def queue_wf_nil ex_list_def split: if_splits)

lemma ex_two_agrees: "agrees 2 10 ex_lists 0 {4, 5} ex_two (resting ex_files (\<lambda>_. []))"
proof (rule agreesI [where F = "ex_F(2 \<mapsto> [])" and js = "[]"])
  have "srv_ok (ex_quiet FIFO []) ex_files ex_F" by simp
  then show "srv_ok (psrv ex_two) (afiles (resting ex_files (\<lambda>_. []))) (ex_F(2 \<mapsto> []))"
    using ex_two_queues by (simp add: srv_ok_def resting_def ex_two_def ex_srv_def)
qed (auto simp: resting_def ex_two_def queued_def answered_def calm_def sound_def solo_def ex_srv_def ex_sock_def ex_files_def within_def
    word_less_nat_alt unat_word_ariths unat_of_nat)

text \<open>Both jobs are taken, by two workers, before the second is served first.\<close>

abbreviation ex_moves :: "move list" where
  "ex_moves \<equiv> [Ask 4 (Write ''/new'' ''hi''), Ask 5 (Read ''/new''), Take, Take, Serve 1, Serve 0, Respond 4, Respond 5]"

lemma ex_told: "told FIFO 2 10 5 [(5, Read ''/new''), (4, Write ''/new'' ''hi'')] ex_files =
    [num (widen CONTINUE), num (widen CONTINUE), num 4] @ message_segments ''defg'' @ response_segments OK 0"
  by (simp add: spec_read_def touch_def lookup_file_def ex_files_def has_file_def reply_bytes_def)

theorem requests_are_serial_witness:
  "\<exists>t. perform_all ex_lists (events_of FIFO 2 10 ex_moves (resting ex_files (\<lambda>_. []))) ex_two = (Inr (), t) \<and>
    outp (socks (psrv t) 5) = [num (widen CONTINUE), num (widen CONTINUE), num 4] @ message_segments ''defg'' @ response_segments OK 0"
proof -
  let ?r = "resting ex_files (\<lambda>_. [])"
  let ?b = "amoves FIFO 2 10 ex_moves ?r"
  have sv: "served_in FIFO 2 10 ex_moves ?r = [(5, Read ''/new''), (4, Write ''/new'' ''hi'')]"
    by (simp add: resting_def Let_def)
  have "\<exists>t. perform_all ex_lists (events_of FIFO 2 10 ex_moves ?r) ex_two = (Inr (), t) \<and>
    (\<forall>fd. of_one fd ([(5, Read ''/new''), (4, Write ''/new'' ''hi'')] @ pending ?b) = of_one fd (asked_in ex_moves)) \<and>
    ((2::nat) = 1 \<longrightarrow> asked_in ex_moves = [(5, Read ''/new''), (4, Write ''/new'' ''hi'')] @ pending ?b) \<and>
    stores (mem (psrv t)) (spec_run FIFO 2 10 (map snd [(5::nat, Read ''/new''), (4, Write ''/new'' ''hi'')]) ex_files) \<and>
    within 2 10 (spec_run FIFO 2 10 (map snd [(5::nat, Read ''/new''), (4, Write ''/new'' ''hi'')]) ex_files) \<and>
    (\<forall>fd \<in> {4, 5}. inp (socks (psrv t) fd) = [] \<and>
      outp (socks (psrv t) fd) @ unsaid (aready ?b fd) = [] @ told FIFO 2 10 fd [(5, Read ''/new''), (4, Write ''/new'' ''hi'')] ex_files)"
    by (rule requests_are_serial [OF ex_two_agrees, where nw = 2])
      (simp_all only: sv, simp_all add: Let_def clients_ok_def inj_on_def resting_def ex_two_def ex_srv_def ex_conf_def ex_name_ok)
  then obtain t where t: "perform_all ex_lists (events_of FIFO 2 10 ex_moves ?r) ex_two = (Inr (), t)"
    "\<forall>fd \<in> {4, 5}. inp (socks (psrv t) fd) = [] \<and>
      outp (socks (psrv t) fd) @ unsaid (aready ?b fd) = [] @ told FIFO 2 10 fd [(5, Read ''/new''), (4, Write ''/new'' ''hi'')] ex_files"
    by blast
  have "(5::nat) \<in> {4, 5}" by simp
  from bspec [OF t(2) this] have "outp (socks (psrv t) 5) @ unsaid (aready ?b 5) =
      told FIFO 2 10 5 [(5, Read ''/new''), (4, Write ''/new'' ''hi'')] ex_files"
    by (simp only: append_Nil)
  moreover have "unsaid (aready ?b 5) = []" by (simp add: resting_def Let_def unsaid_def)
  ultimately have "outp (socks (psrv t) 5) = [num (widen CONTINUE), num (widen CONTINUE), num 4] @ message_segments ''defg'' @ response_segments OK 0"
    unfolding ex_told by (simp only: append_Nil2)
  with t(1) show ?thesis by blast
qed

end
