(* ===== verification/Client_Utils.thy ===== *)
theory Client_Utils
  imports Parser Prot
begin

text \<open>
  \<^verbatim>\<open>src/clientutils.c\<close>, the calls of the client: connecting, the request and the answer, and
  one function per operation of the protocol. The command line is in \<open>Client_Args\<close>.
\<close>

section \<open>The client's state\<close>

text \<open>
  The connection (\<open>serverfd\<close>), \<open>errno\<close>, the local files with their contents, the local
  directories, and what was printed to the two output streams. \<open>creatable\<close> says at which
  paths \<open>open\<close> can create a file.
\<close>

record client =
  csock :: sock
  cerrno :: i32
  lfiles :: "string \<rightharpoonup> char list"
  ldirs :: "string \<Rightarrow> bool"
  creatable :: "string \<Rightarrow> bool"
  cout :: "(string \<times> log_arg list) list"
  cerr :: "(string \<times> log_arg list) list"

type_synonym 'a ccmd = "(client, 'a) cmd"

abbreviation on_server :: "(sock, 'a) cmd \<Rightarrow> 'a ccmd" where
  "on_server \<equiv> zoom csock csock_update"

abbreviation set_cerrno :: "i32 \<Rightarrow> unit ccmd" where
  "set_cerrno e \<equiv> modify (cerrno_update (\<lambda>_. e))"

definition c_printf :: "string \<Rightarrow> log_arg list \<Rightarrow> unit ccmd" where
  "c_printf format args = modify (cout_update (\<lambda>out. out @ [(format, args)]))"

definition c_eprintf :: "string \<Rightarrow> log_arg list \<Rightarrow> unit ccmd" where
  "c_eprintf format args = modify (cerr_update (\<lambda>out. out @ [(format, args)]))"

text \<open>\<open>strerror(errno)\<close> is printed as the number it describes.\<close>

definition print_strerror :: "unit ccmd" where
  "print_strerror = bnd (gets cerrno) (\<lambda>e. c_eprintf (line ''%s'') [LN (ucast e)])"

text \<open>\<open>error_to_str\<close> may set \<open>errno\<close>.\<close>

definition print_error :: "i32 \<Rightarrow> unit ccmd" where
  "print_error e =
     (case error_to_str e of (str, new) \<Rightarrow>
        sq (case new of None \<Rightarrow> ret () | Some e' \<Rightarrow> set_cerrno e')
        (c_eprintf ''%s'' [LS str]))"

section \<open>Answers and requests\<close>

definition get_resp :: "i32 ccmd" where
  "get_resp =
     sq (set_cerrno 0)
     (bnd (on_server recv_number) (\<lambda>st.
      bnd (on_server recv_number) (\<lambda>e.
      sq (set_cerrno (narrow e))
      (if narrow st = OK \<and> narrow e \<noteq> 0 then ret (-1) else ret (narrow st)))))"

text \<open>The macro \<open>can_continue_function\<close>: go on with \<open>k\<close>, or return the status of the answer.\<close>

definition can_continue_function :: "i32 ccmd \<Rightarrow> i32 ccmd" where
  "can_continue_function k =
     bnd (on_server recv_number) (\<lambda>can_continue.
       if (narrow can_continue :: i32) \<noteq> CONTINUE then
         bnd get_resp (\<lambda>st.
         bnd (gets cerrno) (\<lambda>e.
         sq (print_error e)
         (ret st)))
       else k)"

definition send_req :: "i32 \<Rightarrow> string \<Rightarrow> i32 \<Rightarrow> i32 ccmd" where
  "send_req opc filename flgs =
     bnd (on_server (send_number (widen opc))) (\<lambda>err.
       if err < 0 then stop Exit_failure
       else bnd (on_server (send_message (filename @ [NUL]) (of_nat (length filename + 1)))) (\<lambda>err.
         if err < 0 then stop Exit_failure
         else bnd (on_server (send_number (widen flgs))) (\<lambda>err.
           if err < 0 then stop Exit_failure else ret 0)))"

section \<open>Time and connecting\<close>

record timespec =
  tv_sec :: int
  tv_nsec :: int

text \<open>
  The returned status, the value assigned to \<open>errno\<close> and what \<open>req\<close> points to afterwards; no
  \<open>req\<close> is the null pointer. C divides towards zero, and \<open>msec\<close> is not negative where it is
  divided.
\<close>

definition setFromMsec :: "int \<Rightarrow> timespec option \<Rightarrow> i32 \<times> i32 option \<times> timespec option" where
  "setFromMsec msec req =
     (if msec < 0 \<or> req = None then (-1, Some EINVAL, req)
      else (0, None, Some \<lparr>tv_sec = msec div 1000, tv_nsec = msec mod 1000 * 1000\<rparr>))"

definition addToCurrentTime :: "int \<Rightarrow> int \<Rightarrow> timespec \<Rightarrow> i32 \<times> timespec" where
  "addToCurrentTime sec nsec now = (0, \<lparr>tv_sec = tv_sec now + sec, tv_nsec = tv_nsec now + nsec\<rparr>)"

text \<open>
  The loop of \<open>openConnection\<close>. \<open>connects\<close> are the outcomes of the next calls of
  \<open>connect\<close> (the calls after the last one fail), \<open>clock\<close> the seconds the next calls of
  \<open>clock_gettime\<close> return; a clock that is asked no more ends the observation.
\<close>

fun connect_loop :: "bool list \<Rightarrow> int list \<Rightarrow> int \<Rightarrow> int \<Rightarrow> fault + i32" where
  "connect_loop connects clock t0 abstime =
     (if connects \<noteq> [] \<and> hd connects then Inr 0
      else if \<not> t0 < abstime then Inr (-1)
      else case clock of
             [] \<Rightarrow> Inl Blocked
           | t # ts \<Rightarrow> connect_loop (tl connects) ts t abstime)"

abbreviation sun_path_size :: nat where "sun_path_size \<equiv> 108"

definition openConnection :: "bool \<Rightarrow> bool list \<Rightarrow> int list \<Rightarrow> string \<Rightarrow> timespec \<Rightarrow> fault + i32" where
  "openConnection socket_ok connects clock sockname abstime =
     (if \<not> socket_ok then Inl Exit_failure
      else if length sockname \<ge> sun_path_size then Inl Out_of_bounds
      else case clock of
             [] \<Rightarrow> Inl Blocked
           | t # ts \<Rightarrow> connect_loop connects ts t (tv_sec abstime))"

section \<open>The operations\<close>

definition removeFile :: "string option \<Rightarrow> i32 ccmd" where
  "removeFile pathname =
     (case pathname of
        None \<Rightarrow> ret 0
      | Some p \<Rightarrow> bnd (send_req REMOVE_FILE p 0) (\<lambda>_. get_resp))"

abbreviation PATH_MAX :: nat where "PATH_MAX \<equiv> 4096"

definition closeConnection :: "string option \<Rightarrow> i32 ccmd" where
  "closeConnection sockname =
     (if (case sockname of None \<Rightarrow> False | Some p \<Rightarrow> length p > PATH_MAX) then stop Out_of_bounds
      else bnd (send_req CLOSE_CONNECTION ''Close connection'' 0) (\<lambda>_.
        bnd get_resp (\<lambda>resp. if resp = OK then ret resp else ret NOT_OK)))"

definition openFile :: "string \<Rightarrow> i32 \<Rightarrow> i32 ccmd" where
  "openFile pathname flgs = bnd (send_req OPEN_FILE pathname flgs) (\<lambda>_. get_resp)"

definition closeFile :: "string \<Rightarrow> i32 ccmd" where
  "closeFile pathname = bnd (send_req CLOSE_FILE pathname 0) (\<lambda>_. get_resp)"

text \<open>
  \<open>readFile\<close> stores the received buffer and the announced size through its two pointers;
  here they are the second part of the result, absent when it returns before storing.
\<close>

definition read_body :: "(i32 \<times> (char list \<times> u64) option) ccmd" where
  "read_body =
     bnd (on_server recv_number) (\<lambda>file_size.
     sq (c_printf (line ''File size : %zu'') [LN file_size])
     (sq (if file_size = 0
          then c_eprintf (line ''Zero file size arrived, have you wrote something to the server ?'') [] else ret ())
     (bnd (on_server recv_message) (\<lambda>file_cont.
       case file_cont of
         None \<Rightarrow> ret (-1, None)
       | Some buf \<Rightarrow> bnd get_resp (\<lambda>st. ret (st, Some (buf, file_size)))))))"

definition readFile :: "string \<Rightarrow> (i32 \<times> (char list \<times> u64) option) ccmd" where
  "readFile pathname =
     bnd (send_req READ_FILE pathname 0) (\<lambda>_.
     bnd (on_server recv_number) (\<lambda>can_continue.
       if (narrow can_continue :: i32) \<noteq> CONTINUE then
         bnd get_resp (\<lambda>st. bnd (gets cerrno) (\<lambda>e. sq (print_error e) (ret (st, None))))
       else bnd (on_server recv_number) (\<lambda>can_continue.
         if (narrow can_continue :: i32) \<noteq> CONTINUE then
           bnd get_resp (\<lambda>st. bnd (gets cerrno) (\<lambda>e. sq (print_error e) (ret (st, None))))
         else read_body)))"

definition file_size :: "string \<Rightarrow> int ccmd" where
  "file_size filename =
     bnd (gets lfiles) (\<lambda>fs. case fs filename of None \<Rightarrow> sq (set_cerrno ENOENT) (ret (-1)) | Some bs \<Rightarrow> ret (int (length bs)))"

text \<open>
  The loop \<open>while (feof(fp) == 0) fread(file_cont, 1, size, fp)\<close>: a read of no items
  leaves the stream and its end-of-file mark alone, a read that finds fewer items sets it.
  \<open>fuel\<close> counts rounds; running out of it is not ending.
\<close>

definition fread :: "nat \<Rightarrow> char list \<Rightarrow> bool \<Rightarrow> char list \<times> char list \<times> bool" where
  "fread n rest eof =
     (if n = 0 then ([], rest, eof) else (take n rest, drop n rest, eof \<or> length rest < n))"

fun fread_loop :: "nat \<Rightarrow> nat \<Rightarrow> char list \<Rightarrow> bool \<Rightarrow> char list \<Rightarrow> char list ccmd" where
  "fread_loop 0 n rest eof buf = stop Diverges"
| "fread_loop (Suc fuel) n rest eof buf =
     (if eof then ret buf
      else case fread n rest eof of
        (got, rest', eof') \<Rightarrow> fread_loop fuel n rest' eof' (got @ drop (length got) buf))"

definition writeFile :: "string \<Rightarrow> i32 ccmd" where
  "writeFile pathname =
     bnd (send_req WRITE_FILE pathname 0) (\<lambda>_.
     can_continue_function (
     bnd (file_size pathname) (\<lambda>size.
       if size < 0 then sq print_strerror (ret (-1))
       else
         bnd (on_server (send_number (of_int size))) (\<lambda>err.
           if err < 0 then sq (c_eprintf (line ''Error sending number for WRITE'') []) (ret (-1))
           else
             can_continue_function (
             bnd (gets lfiles) (\<lambda>fs.
               case fs pathname of
                 None \<Rightarrow> sq print_strerror (ret (-1))
               | Some content \<Rightarrow>
                   bnd (fread_loop (length content + 3) (nat size) content False (replicate (nat size) NUL)) (\<lambda>buf.
                   bnd (on_server (send_message buf (of_int size))) (\<lambda>err.
                     if err \<noteq> 0 then sq (c_eprintf (line ''File not properly wrote'') []) (ret (-1))
                     else can_continue_function get_resp))))))))"

definition appendToFile :: "string \<Rightarrow> char list \<Rightarrow> u64 \<Rightarrow> i32 ccmd" where
  "appendToFile pathname buf sz =
     bnd (send_req APPEND_FILE pathname 0) (\<lambda>_.
     can_continue_function (
     bnd (on_server (send_number sz)) (\<lambda>err.
       if err < 0 then sq (c_eprintf (line ''Error sending number for APPEND'') []) (ret (-1))
       else bnd (on_server (send_message buf sz)) (\<lambda>err.
         if err \<noteq> 0 then sq (c_eprintf (line ''File not properly wrote'') []) (ret (-1))
         else get_resp))))"

text \<open>The decimal digits \<open>sprintf\<close> writes for \<open>%d\<close>.\<close>

fun dec :: "nat \<Rightarrow> string" where
  "dec n = (if n < 10 then [char_of (48 + n)] else dec (n div 10) @ [char_of (48 + n mod 10)])"

declare dec.simps [simp del]

text \<open>
  \<open>open(path, O_CREAT | O_RDWR)\<close> keeps what a file holds; writing at its start replaces
  the first bytes. A write takes all it is given.
\<close>

definition store_local :: "string \<Rightarrow> char list \<Rightarrow> u64 \<Rightarrow> bool ccmd" where
  "store_local path buf n =
     bnd (gets (\<lambda>c. (lfiles c, creatable c))) (\<lambda>(fs, ok).
       if fs path = None \<and> \<not> ok path then ret False
       else if length buf < unat n then stop Out_of_bounds
       else sq (modify (lfiles_update (\<lambda>fs. fs(path \<mapsto>
              (let old = (case fs path of None \<Rightarrow> [] | Some bs \<Rightarrow> bs) in take (unat n) buf @ drop (unat n) old)))))
            (ret True))"

definition default_string :: "char list" where
  "default_string = ''Default string'' @ [NUL]"

fun readn_loop_files :: "nat \<Rightarrow> nat \<Rightarrow> string option \<Rightarrow> unit ccmd" where
  "readn_loop_files 0 i dirname = ret ()"
| "readn_loop_files (Suc k) i dirname =
     bnd (on_server recv_message) (\<lambda>msg.
     bnd (on_server recv_number) (\<lambda>file_size.
       if file_size = 0 then readn_loop_files k (Suc i) dirname
       else case dirname of
         None \<Rightarrow> readn_loop_files k (Suc i) dirname
       | Some d \<Rightarrow>
           let filename = d @ ''/READN_FILE_'' @ dec i in
           if length filename \<ge> 256 then stop Out_of_bounds
           else bnd (store_local filename (case msg of None \<Rightarrow> default_string | Some b \<Rightarrow> b) file_size) (\<lambda>ok.
             if ok then readn_loop_files k (Suc i) dirname else ret ())))"

definition readNFiles :: "i32 \<Rightarrow> string option \<Rightarrow> i32 ccmd" where
  "readNFiles N dirname =
     sq (set_cerrno 0)
     (bnd (send_req READN_FILE ''readNString'' (if sint N < 0 then 0 else N)) (\<lambda>_.
      bnd (on_server recv_number) (\<lambda>real_N.
        if (narrow real_N :: i32) = 0
        then sq (c_eprintf (line ''Server can provide only 0 files'') []) (ret NOT_OK)
        else
          sq (case dirname of None \<Rightarrow> ret () | Some d \<Rightarrow> modify (ldirs_update (\<lambda>ds. ds(d := True))))
          (if sint (narrow real_N :: i32) < 0 then stop Out_of_bounds
           else can_continue_function (
             sq (readn_loop_files (nat (sint (narrow real_N :: i32))) 0 dirname) get_resp)))))"

end
