(* ===== verification/Client_Args.thy ===== *)
theory Client_Args
  imports Client_Utils
begin

text \<open>
  \<^verbatim>\<open>src/clientutils.c\<close>, the command line: \<open>parseArgs\<close> on what \<open>getopt\<close> returns, the list
  of actions it builds, and \<open>visitDir\<close>. An action is created once, put at the end of the
  list and not shared, so the linked list is a list.
\<close>

section \<open>Actions\<close>

record action =
  aop :: char
  singleArg :: "string option"
  aargs :: "string list option"
  an :: i32

abbreviation MAXREADABLEFILE :: nat where "MAXREADABLEFILE \<equiv> 1024"

text \<open>
  \<open>initAction\<close> copies the names up to the null pointer and writes a second null pointer one
  place after the first, so the array has room for two entries less than its size.
\<close>

definition initAction :: "string list option \<Rightarrow> i32 \<Rightarrow> char \<Rightarrow> string option \<Rightarrow> fault + action" where
  "initAction names' n opc single =
     (case names' of
        None \<Rightarrow> Inr \<lparr>aop = opc, singleArg = single, aargs = None, an = n\<rparr>
      | Some ns \<Rightarrow>
          if length ns + 1 \<ge> MAXREADABLEFILE then Inl Out_of_bounds
          else Inr \<lparr>aop = opc, singleArg = single, aargs = Some ns, an = n\<rparr>)"

text \<open>The walk of \<open>add_to_tail\<close> and the walk of \<open>lookup\<close>; \<open>nullcheck\<close> ends the process.\<close>

fun add_to_tail :: "action list \<Rightarrow> action \<Rightarrow> action list" where
  "add_to_tail [] new = [new]"
| "add_to_tail (a # as) new = a # add_to_tail as new"

fun lookup_loop :: "action list \<Rightarrow> char \<Rightarrow> action option" where
  "lookup_loop [] opc = None"
| "lookup_loop (a # as) opc = (if aop a = opc then Some a else lookup_loop as opc)"

definition lookup :: "action list \<Rightarrow> char \<Rightarrow> fault + action option" where
  "lookup head opc = (if head = [] then Inl Exit_failure else Inr (lookup_loop head opc))"

definition printAction :: "action \<Rightarrow> (string \<times> log_arg list) list" where
  "printAction a =
     [(line ''OP : %c'', [LS [aop a]])] @
     (case aargs a of None \<Rightarrow> []
      | Some ns \<Rightarrow> map (\<lambda>(i, nm). (line ''File %d : %s'', [LN (of_nat i), LS nm])) (zip [0..<length ns] ns)) @
     (case singleArg a of None \<Rightarrow> [] | Some p \<Rightarrow> [(line ''File : %s'', [LS p])]) @
     [(line ''Number %d'', [LN (widen (an a))])]"

definition printActions :: "action list \<Rightarrow> (string \<times> log_arg list) list" where
  "printActions head = concat (map printAction head)"

section \<open>Strings\<close>

abbreviation comma :: char where "comma \<equiv> CHR 0x2C"

text \<open>
  \<open>strtok_r\<close> with the delimiter \<open>,\<close>: the next token and what is left of the string;
  delimiters before the token are skipped and the one after it is gone.
\<close>

definition strtok :: "string \<Rightarrow> (string \<times> string) option" where
  "strtok s =
     (let t = dropWhile (\<lambda>c. c = comma) s in
      if t = [] then None
      else Some (takeWhile (\<lambda>c. c \<noteq> comma) t, drop 1 (dropWhile (\<lambda>c. c \<noteq> comma) t)))"

lemma strtok_shorter: "strtok s = Some (t, r) \<Longrightarrow> length r < length s"
proof -
  assume "strtok s = Some (t, r)"
  then have ne: "dropWhile (\<lambda>c. c = comma) s \<noteq> []"
    and r: "r = drop 1 (dropWhile (\<lambda>c. c \<noteq> comma) (dropWhile (\<lambda>c. c = comma) s))"
    by (auto simp: strtok_def Let_def split: if_splits)
  have "length r \<le> length (dropWhile (\<lambda>c. c = comma) s) - 1"
    using length_dropWhile_le [of "\<lambda>c. c \<noteq> comma" "dropWhile (\<lambda>c. c = comma) s"] by (simp add: r)
  also have "\<dots> < length (dropWhile (\<lambda>c. c = comma) s)" using ne by (cases "dropWhile (\<lambda>c. c = comma) s") auto
  also have "\<dots> \<le> length s" by (rule length_dropWhile_le)
  finally show ?thesis .
qed

function strtok_all :: "string \<Rightarrow> string list" where
  "strtok_all s = (case strtok s of None \<Rightarrow> [] | Some (t, r) \<Rightarrow> t # strtok_all r)"
  by pat_completeness auto
termination
  by (relation "measure length") (auto simp: strtok_shorter)

declare strtok_all.simps [simp del]

text \<open>
  A token is copied without its NUL into memory that \<open>malloc\<close> does not clear, so the name
  goes on with whatever lies there (\<open>after\<close>, for the copy of a token) up to the first NUL.
\<close>

definition copied :: "(string \<Rightarrow> string) \<Rightarrow> string \<Rightarrow> string" where
  "copied after tok = tok @ cstr (after tok)"

definition name_list :: "(string \<Rightarrow> string) \<Rightarrow> string \<Rightarrow> fault + string list" where
  "name_list after optarg =
     (case strtok_all optarg of
        [] \<Rightarrow> Inl Null_deref
      | toks \<Rightarrow> if length toks \<ge> MAXREADABLEFILE then Inl Out_of_bounds else Inr (map (copied after) toks))"

text \<open>\<open>atoi\<close>: white space, a sign, digits; of a value beyond \<open>int\<close> the result is undefined.\<close>

definition atoi :: "string \<Rightarrow> fault + i32" where
  "atoi s =
     (let r = skip_space s;
          neg = (r \<noteq> [] \<and> hd r = CHR 0x2D);
          r' = (if r \<noteq> [] \<and> hd r \<in> {CHR 0x2B, CHR 0x2D} then tl r else r);
          n = int (digits_val (takeWhile isdigit r'));
          v = (if neg then - n else n)
      in if - (2 ^ 31) \<le> v \<and> v < 2 ^ 31 then Inr (word_of_int v) else Inl Int_overflow)"

text \<open>
  The argument of \<open>-w\<close>: \<open>w_args\<close> is one buffer for all \<open>-w\<close> options; the argument is
  copied over its front without a NUL, and the two calls of \<open>strtok_r\<close> cut it in place.
  The results are the buffer after, the directory and the number.
\<close>

definition cut_token :: "char list \<Rightarrow> nat \<Rightarrow> (nat \<times> nat) option \<times> char list \<times> nat" where
  "cut_token buf start =
     (let s = cstr (drop start buf);
          skip = length (takeWhile (\<lambda>c. c = comma) s);
          tok = takeWhile (\<lambda>c. c \<noteq> comma) (drop skip s);
          fin = start + skip + length tok
      in if drop skip s = [] then (None, buf, start + skip)
         else if fin < length buf \<and> buf ! fin = comma then (Some (start + skip, length tok), buf[fin := NUL], Suc fin)
         else (Some (start + skip, length tok), buf, fin))"

definition w_option :: "char list \<Rightarrow> string \<Rightarrow> fault + (char list \<times> string option \<times> i32)" where
  "w_option w_args optarg =
     (if length optarg > length w_args then Inl Out_of_bounds
      else
        let buf = optarg @ drop (length optarg) w_args in
        case cut_token buf 0 of
          (d, buf1, pos) \<Rightarrow>
            case cut_token buf1 pos of
              (num, buf2, _) \<Rightarrow>
                (case (case num of None \<Rightarrow> Inr 0 | Some (i, n) \<Rightarrow> atoi (take n (drop i buf2))) of
                   Inl e \<Rightarrow> Inl e
                 | Inr w_N \<Rightarrow> Inr (buf2, map_option (\<lambda>(i, n). take n (drop i buf1)) d, w_N)))"

section \<open>parseArgs\<close>

text \<open>
  One option as \<open>getopt\<close> returns it: the character and \<open>optarg\<close>; for \<open>?\<close> and \<open>:\<close> the
  second part is \<open>optopt\<close>. The state of the loop is the list built so far, the buffer
  \<open>w_args\<close> and what was printed.
\<close>

type_synonym printed = "(string \<times> log_arg list) list"

definition add_action :: "action list \<Rightarrow> fault + action \<Rightarrow> fault + action list" where
  "add_action head new = (case new of Inl e \<Rightarrow> Inl e | Inr a \<Rightarrow> Inr (add_to_tail head a))"

definition add_names :: "(string \<Rightarrow> string) \<Rightarrow> action list \<Rightarrow> char \<Rightarrow> string \<Rightarrow> fault + action list" where
  "add_names after head opc optarg =
     (case name_list after optarg of
        Inl e \<Rightarrow> Inl e
      | Inr ns \<Rightarrow> add_action head (initAction (Some ns) 0 opc None))"

definition add_number :: "action list \<Rightarrow> char \<Rightarrow> string \<Rightarrow> fault + action list" where
  "add_number head opc optarg =
     (case atoi optarg of Inl e \<Rightarrow> Inl e | Inr n \<Rightarrow> add_action head (initAction None n opc None))"

definition help_text :: printed where
  "help_text = map (\<lambda>text. (text, []))
     [line ''-h                Printa quello che stai leggendo a schermo adesso'',
      line ''-f filename       Specifica il nome del socket AF_UNIX a cui connettersi [ATTENZIONE]CONNETTERSI SEMPRE[ATTENZIONE]'',
      line ''-w dirname[,n=0]  Invia al server i file della cartella dirname, se n=0 non limite superiore'',
      line ''-W file[,file2]   Lista dei nomi dei file da inviare'',
      line ''-r file[,file2]   Lista dei nomi dei file da leggere nel server'',
      line ''-R [n=0]          Legge n file qualsiasi dal server'',
      line ''-d dirname        Nome della cartella (Path assoluto) dove andare a memoriazzare i file letti tramite -r altrimenti non'',
      line ''                  vengono scritti su disco, nel caso non esista viene creata'',
      line ''-t time           Tempo in ms che interrcorre tra l'invio di due richieste successive al server'',
      line ''-c file[,file2]   Lista di file da rimuovere dal server se presenti'',
      line ''-p                Abilita le stampe su stdout per ogni operazione e vengono printate <tipo di op,file di riferimento,esito,dove si sono effettuate letture e scritture>'',
      line '' '']"

definition parse_option ::
  "(string \<Rightarrow> string) \<Rightarrow> action list \<Rightarrow> char list \<Rightarrow> char \<Rightarrow> string option \<Rightarrow> fault + (action list \<times> char list \<times> printed)" where
  "parse_option after head w_args opt optarg =
     (let keep = (\<lambda>r. case r of Inl e \<Rightarrow> Inl e | Inr h \<Rightarrow> Inr (h, w_args, []));
          arg = (case optarg of None \<Rightarrow> [] | Some a \<Rightarrow> a)
      in if opt = CHR ''h'' then Inr (head, w_args, help_text)
      else if opt = CHR ''f'' then keep (add_action head (initAction None 0 opt optarg))
      else if opt = CHR ''w'' then
        (case w_option w_args arg of
           Inl e \<Rightarrow> Inl e
         | Inr (buf, dirname, n) \<Rightarrow>
             (case add_action head (initAction None n opt dirname) of Inl e \<Rightarrow> Inl e | Inr h \<Rightarrow> Inr (h, buf, [])))
      else if opt = CHR ''W'' then keep (add_names after head opt arg)
      else if opt = CHR ''r'' then keep (add_names after head opt arg)
      else if opt = CHR ''R'' then keep (add_number head opt arg)
      else if opt = CHR ''d'' then keep (add_action head (initAction None 0 opt optarg))
      else if opt = CHR ''t'' then keep (add_number head opt arg)
      else if opt = CHR ''c'' then keep (add_names after head opt arg)
      else if opt = CHR ''p'' then keep (add_action head (initAction None 0 opt None))
      else if opt = CHR '':'' then Inr (head, w_args, [(line ''Nessun argomento per -%c'', [LS arg])])
      else keep (Inr head))"

fun parse_loop :: "(string \<Rightarrow> string) \<Rightarrow> (char \<times> string option) list \<Rightarrow> action list \<Rightarrow> char list \<Rightarrow> printed \<Rightarrow>
    fault + (action list \<times> printed)" where
  "parse_loop after [] head w_args out = Inr (head, out)"
| "parse_loop after ((opt, optarg) # opts) head w_args out =
     (case parse_option after head w_args opt optarg of
        Inl e \<Rightarrow> Inl e
      | Inr (head', w_args', new) \<Rightarrow> parse_loop after opts head' w_args' (out @ new))"

text \<open>\<open>w_args0\<close> is what the 256 bytes from \<open>malloc\<close> hold at the start.\<close>

definition parseArgs :: "(string \<Rightarrow> string) \<Rightarrow> char list \<Rightarrow> (char \<times> string option) list \<Rightarrow> fault + (action list \<times> printed)" where
  "parseArgs after w_args0 opts = parse_loop after opts [] w_args0 []"

section \<open>Walking a directory\<close>

text \<open>
  \<open>realpath\<close> and \<open>readdir\<close> are the file system: the entries of a directory with the
  mark that one is a directory itself, or nothing when it cannot be opened. \<open>fuel\<close> bounds
  the depth; running out of it is a cycle of directories. The list holds what \<open>fileList\<close>
  holds up to \<open>*acc\<close>.
\<close>

abbreviation MAXFILES :: nat where "MAXFILES \<equiv> 1024"

definition join_path :: "string \<Rightarrow> string \<Rightarrow> fault + string" where
  "join_path d nm =
     (let p = d @ ''/'' @ nm in if length p \<ge> 256 then Inl Out_of_bounds else Inr p)"

fun visit_entries :: "(string \<Rightarrow> string list \<Rightarrow> fault + string list) \<Rightarrow> string \<Rightarrow> (string \<times> bool) list \<Rightarrow>
    string list \<Rightarrow> fault + string list" where
  "visit_entries rec realp [] acc = Inr acc"
| "visit_entries rec realp ((nm, is_dir) # es) acc =
     (if nm = ''.'' \<or> nm = ''..'' then visit_entries rec realp es acc
      else if \<not> is_dir then
        (if length acc \<ge> MAXFILES then Inl Out_of_bounds
         else case join_path realp nm of
           Inl e \<Rightarrow> Inl e
         | Inr p \<Rightarrow> visit_entries rec realp es (acc @ [p]))
      else
        (case join_path realp nm of
           Inl e \<Rightarrow> Inl e
         | Inr p \<Rightarrow>
             (case rec p acc of
                Inl e \<Rightarrow> Inl e
              | Inr acc' \<Rightarrow> visit_entries rec realp es acc')))"

fun visitDir :: "nat \<Rightarrow> (string \<Rightarrow> string) \<Rightarrow> (string \<Rightarrow> (string \<times> bool) list option) \<Rightarrow> string \<Rightarrow> string list \<Rightarrow>
    fault + string list" where
  "visitDir 0 realpath readdir pathname acc = Inl Diverges"
| "visitDir (Suc fuel) realpath readdir pathname acc =
     (let realp = realpath pathname in
      if length realp \<ge> 256 then Inl Out_of_bounds
      else case readdir realp of
        None \<Rightarrow> Inr acc
      | Some es \<Rightarrow> visit_entries (visitDir fuel realpath readdir) realp es acc)"

end
