(* ===== verification/Client.thy ===== *)
theory Client
  imports Client_Args
begin

text \<open>
  \<^verbatim>\<open>src/client.c\<close>: the report of a call, the configuration the client reads, and \<open>main\<close>, which
  carries out the list of actions over one connection.
\<close>

section \<open>Reports\<close>

datatype call_kind = OPEN | WRITE | READ | READN | REMOVE

text \<open>The names of the calls as the macros define them, in colour.\<close>

definition colour :: "string \<Rightarrow> string \<Rightarrow> string" where
  "colour code str = [CHR 0x1B] @ ''['' @ code @ ''m '' @ str @ '' '' @ [CHR 0x1B] @ ''[0m''"

fun call_name :: "call_kind \<Rightarrow> string" where
  "call_name OPEN = colour ''35'' ''openFile/createFile''"
| "call_name READ = colour ''35'' ''readFile''"
| "call_name WRITE = colour ''35'' ''writeFile''"
| "call_name READN = colour ''35'' ''readNFiles''"
| "call_name REMOVE = colour ''35'' ''removeFile''"

definition GOOD :: string where "GOOD = colour ''32'' ''Positive''"
definition BAD :: string where "BAD = colour ''31'' ''Negative''"

text \<open>A null \<open>filename\<close> prints as \<open>(null)\<close>.\<close>

definition shown :: "string option \<Rightarrow> string" where
  "shown p = (case p of None \<Rightarrow> ''(null)'' | Some s \<Rightarrow> s)"

definition apiCall :: "i32 \<Rightarrow> call_kind \<Rightarrow> string option \<Rightarrow> int \<Rightarrow> bool \<Rightarrow> unit ccmd" where
  "apiCall retOfCall kind filename N doPrint =
     bnd (gets cerrno) (\<lambda>err.
       if \<not> doPrint then ret ()
       else if retOfCall = OK then
         (case kind of
            WRITE \<Rightarrow> c_printf (line ''[%s] on %s: %s wrote %d bytes'')
                [LS (call_name kind), LS (shown filename), LS GOOD, LN (of_int N)]
          | READN \<Rightarrow> c_printf (line ''[%s] on %d files of the server : %s'')
                [LS (call_name kind), LN (of_int N), LS GOOD]
          | _ \<Rightarrow> c_printf (line ''[%s] on %s : %s'') [LS (call_name kind), LS (shown filename), LS GOOD])
       else
         sq (c_printf (if kind = WRITE then line ''[%s] on %s: %s'' else line ''[%s] on %s : %s'')
              [LS (call_name kind), LS (shown filename), LS BAD])
            (print_error err))"

section \<open>The client's configuration\<close>

text \<open>
  The client's \<open>get_config\<close> makes six rounds, reads paths of up to 255 characters, does not
  scale the memory and knows no policy.
\<close>

fun c_config_loop :: "bool \<Rightarrow> nat \<Rightarrow> config_t \<Rightarrow> string \<Rightarrow> i32 \<times> config_t" where
  "c_config_loop rderr 0 cfg txt = (0, cfg)"
| "c_config_loop rderr (Suc k) cfg txt =
     (case fscanf_5c txt of
        Scan_eof \<Rightarrow> (scan_end rderr, cfg)
      | Scan_none r \<Rightarrow> c_config_loop rderr k cfg r
      | Scan_value flag r \<Rightarrow>
        if strncmp (cstr flag) ''[LPT]'' 5 = 0 then
          (case fgets 256 r of
             None \<Rightarrow> (-1, cfg)
           | Some (path, r') \<Rightarrow> c_config_loop rderr k (cfg\<lparr>log_path := cstr path\<rparr>) r')
        else if strncmp (cstr flag) ''[SPT]'' 5 = 0 then
          (case fgets 256 r of
             None \<Rightarrow> (-1, cfg)
           | Some (path, r') \<Rightarrow> c_config_loop rderr k (cfg\<lparr>socket_path := cstr path\<rparr>) r')
        else if strncmp (cstr flag) ''[NWK]'' 5 = 0 then
          (case fscanf_lu r of
             Scan_eof \<Rightarrow> (scan_end rderr, cfg)
           | Scan_none r' \<Rightarrow> c_config_loop rderr k cfg r'
           | Scan_value n r' \<Rightarrow> c_config_loop rderr k (cfg\<lparr>Nslaves := ucast n\<rparr>) r')
        else if strncmp (cstr flag) ''[MFL]'' 5 = 0 then
          (case fscanf_lu r of
             Scan_eof \<Rightarrow> (scan_end rderr, cfg)
           | Scan_none r' \<Rightarrow> c_config_loop rderr k cfg r'
           | Scan_value n r' \<Rightarrow> c_config_loop rderr k (cfg\<lparr>max_files := ucast n\<rparr>) r')
        else if strncmp (cstr flag) ''[MMB]'' 5 = 0 then
          (case fscanf_lu r of
             Scan_eof \<Rightarrow> (scan_end rderr, cfg)
           | Scan_none r' \<Rightarrow> c_config_loop rderr k cfg r'
           | Scan_value n r' \<Rightarrow> c_config_loop rderr k (cfg\<lparr>max_memory := n\<rparr>) r')
        else c_config_loop rderr k cfg r)"

definition c_get_config ::
  "(string \<Rightarrow> (string \<times> bool) option) \<Rightarrow> string \<Rightarrow> config_t \<Rightarrow> i32 \<times> config_t" where
  "c_get_config fopen_r path cfg =
     (case fopen_r path of
        None \<Rightarrow> (-1, cfg)
      | Some (content, rderr) \<Rightarrow> c_config_loop rderr 6 cfg content)"

section \<open>The actions\<close>

text \<open>
  The file system calls that only look: \<open>realpath\<close> (a buffer of 256 bytes is too small for
  a longer result) and \<open>readdir\<close>, with the depth bound of \<open>visitDir\<close>. \<open>sprintf_self\<close> is
  \<open>sprintf\<close> formatting a string and a newline into that string's own memory, which is one
  byte too small for it: C leaves open what that does.
\<close>

record env =
  realpath :: "string \<Rightarrow> string"
  readdir :: "string \<Rightarrow> (string \<times> bool) list option"
  depth :: nat
  sprintf_self :: "string \<Rightarrow> fault + string"

definition real_name :: "env \<Rightarrow> string \<Rightarrow> string ccmd" where
  "real_name v nm =
     (if length (realpath v nm) \<ge> 256 then stop Out_of_bounds else ret (realpath v nm))"

definition opendir :: "env \<Rightarrow> string \<Rightarrow> bool" where
  "opendir v p \<longleftrightarrow> readdir v p \<noteq> None"

definition create_and_write :: "bool \<Rightarrow> string \<Rightarrow> unit ccmd" where
  "create_and_write doPrint p =
     bnd (openFile p O_CREATE) (\<lambda>err.
     sq (apiCall err OPEN (Some p) 0 doPrint)
     (bnd (writeFile p) (\<lambda>err.
      bnd (file_size p) (\<lambda>n.
      apiCall err WRITE (Some p) n doPrint))))"

fun send_files :: "bool \<Rightarrow> nat \<Rightarrow> string list \<Rightarrow> unit ccmd" where
  "send_files doPrint 0 ps = ret ()"
| "send_files doPrint (Suc k) [] = ret ()"
| "send_files doPrint (Suc k) (p # ps) =
     bnd (file_size p) (\<lambda>f_size.
       if f_size = -1 then ret ()
       else sq (create_and_write doPrint p) (send_files doPrint k ps))"

text \<open>
  Case \<open>w\<close>: when the directory cannot be opened the next action is already current when
  its \<open>singleArg\<close> is read, and skipped afterwards. \<open>opendir\<close> reads through its argument;
  \<open>realpath\<close> refuses a null one and leaves the name empty, which gives no files. The result
  is the list that is left.
\<close>

definition act_w :: "env \<Rightarrow> bool \<Rightarrow> action list \<Rightarrow> action list ccmd" where
  "act_w v doPrint as =
     (if singleArg (hd as) = None then stop Null_deref
      else case (if opendir v (the (singleArg (hd as))) then as else tl as) of
        [] \<Rightarrow> stop Null_deref
      | a # rest \<Rightarrow>
          (case singleArg a of
             None \<Rightarrow> ret rest
           | Some d \<Rightarrow>
               (case visitDir (depth v) (realpath v) (readdir v) d [] of
                  Inl e \<Rightarrow> stop e
                | Inr fileNames \<Rightarrow>
                    sq (if an a \<noteq> 0 then send_files doPrint (nat (sint (an a))) fileNames else ret ())
                    (ret rest))))"

fun act_W :: "env \<Rightarrow> bool \<Rightarrow> string list \<Rightarrow> unit ccmd" where
  "act_W v doPrint [] = ret ()"
| "act_W v doPrint (nm # nms) =
     bnd (real_name v nm) (\<lambda>tmp.
     sq (create_and_write doPrint tmp)
     (act_W v doPrint nms))"

fun act_r :: "env \<Rightarrow> bool \<Rightarrow> string option \<Rightarrow> string list \<Rightarrow> unit ccmd" where
  "act_r v doPrint dir [] = ret ()"
| "act_r v doPrint dir (nm # nms) =
     bnd (real_name v nm) (\<lambda>tmp.
     bnd (openFile nm 0) (\<lambda>err.
     sq (apiCall err OPEN (Some tmp) 0 doPrint)
     (bnd (readFile tmp) (\<lambda>(err, file).
      sq (apiCall err READ (Some tmp) 0 doPrint)
      (case (dir, file) of
         (Some d, Some (buf, sz)) \<Rightarrow>
           if length (d @ ''/'' @ nm) \<ge> 256 then stop Out_of_bounds
           else bnd (store_local (d @ ''/'' @ nm) buf sz) (\<lambda>ok.
             if ok then act_r v doPrint dir nms else ret ())
       | _ \<Rightarrow> act_r v doPrint dir nms)))))"

fun act_c :: "env \<Rightarrow> bool \<Rightarrow> string list \<Rightarrow> unit ccmd" where
  "act_c v doPrint [] = ret ()"
| "act_c v doPrint (nm # nms) =
     bnd (real_name v nm) (\<lambda>tmp.
     bnd (removeFile (Some tmp)) (\<lambda>err.
     sq (apiCall err REMOVE (Some tmp) 0 doPrint)
     (act_c v doPrint nms)))"

definition act_R :: "bool \<Rightarrow> action option \<Rightarrow> i32 \<Rightarrow> unit ccmd" where
  "act_R doPrint dirToWrite n =
     (case dirToWrite of
        None \<Rightarrow> stop Null_deref
      | Some d \<Rightarrow> bnd (readNFiles n (singleArg d)) (\<lambda>err. apiCall err READN None (sint n) doPrint))"

text \<open>The directory of \<open>-d\<close> is created when it is missing; \<open>nanosleep\<close> leaves no trace.\<close>

definition act_other :: "env \<Rightarrow> bool \<Rightarrow> action option \<Rightarrow> action \<Rightarrow> unit ccmd" where
  "act_other v doPrint dirToWrite a =
     (if aop a = CHR ''W'' then (case aargs a of None \<Rightarrow> stop Null_deref | Some nms \<Rightarrow> act_W v doPrint nms)
      else if aop a = CHR ''r'' then
        (case aargs a of
           None \<Rightarrow> stop Null_deref
         | Some nms \<Rightarrow>
             sq (case dirToWrite of
                   None \<Rightarrow> ret ()
                 | Some d \<Rightarrow> (case singleArg d of None \<Rightarrow> ret () | Some p \<Rightarrow> modify (ldirs_update (\<lambda>ds. ds(p := True)))))
             (act_r v doPrint (case dirToWrite of None \<Rightarrow> None | Some d \<Rightarrow> singleArg d) nms))
      else if aop a = CHR ''c'' then (case aargs a of None \<Rightarrow> stop Null_deref | Some nms \<Rightarrow> act_c v doPrint nms)
      else if aop a = CHR ''R'' then act_R doPrint dirToWrite (an a)
      else ret ())"

function run_actions :: "env \<Rightarrow> bool \<Rightarrow> action option \<Rightarrow> nat \<Rightarrow> action list \<Rightarrow> unit ccmd" where
  "run_actions v doPrint dirToWrite fuel as =
     (if fuel = 0 then stop Diverges
      else case as of
        [] \<Rightarrow> ret ()
      | a # rest \<Rightarrow>
          if aop a = CHR ''w'' then
            bnd (act_w v doPrint (a # rest)) (run_actions v doPrint dirToWrite (fuel - 1))
          else
            sq (act_other v doPrint dirToWrite a) (run_actions v doPrint dirToWrite (fuel - 1) rest))"
  by pat_completeness auto
termination
  by (relation "measure (\<lambda>(_, _, _, fuel, _). fuel)") auto

declare run_actions.simps [simp del]

text \<open>
  \<open>main\<close>: the socket's name comes from \<open>-f\<close> or from the configuration file; \<open>abstime\<close> is
  never set. What \<open>perror\<close> reports is left out.
\<close>

definition client_main :: "env \<Rightarrow> (string \<Rightarrow> (string \<times> bool) option) \<Rightarrow> bool \<Rightarrow> bool list \<Rightarrow> int list \<Rightarrow> timespec \<Rightarrow>
    (string \<Rightarrow> string) \<Rightarrow> char list \<Rightarrow> nat \<Rightarrow> (char \<times> string option) list \<Rightarrow> config_t \<Rightarrow> unit ccmd" where
  "client_main v fopen_r socket_ok connects clock abstime after w_args0 argc opts cfg0 =
     (if argc < 2
      then sq (c_printf ''To see documentation launch with -h'' []) (stop Exit_failure)
      else case parseArgs after w_args0 opts of
        Inl e \<Rightarrow> stop e
      | Inr (as, printed) \<Rightarrow>
          sq (modify (cout_update (\<lambda>out. out @ printed)))
          (case (lookup as CHR ''f'', lookup as CHR ''p'', lookup as CHR ''d'') of
             (Inr sk, Inr pr, Inr dirToWrite) \<Rightarrow>
               (case snd (c_get_config fopen_r ''config.txt'' cfg0) of cfg \<Rightarrow>
                bnd (case sk of
                       None \<Rightarrow>
                         sq (c_printf (line (line ''No -f detected, using default config to select socket'')) [])
                            (ret (socket_path cfg))
                     | Some a \<Rightarrow>
                         (case singleArg a of
                            None \<Rightarrow> stop Null_deref
                          | Some p \<Rightarrow> (case sprintf_self v p of Inl e \<Rightarrow> stop e | Inr p' \<Rightarrow> ret p')))
                (\<lambda>sockname.
                  case openConnection socket_ok connects clock sockname abstime of
                    Inl e \<Rightarrow> stop e
                  | Inr response \<Rightarrow>
                      if response = -1 then stop Exit_failure
                      else
                        sq (run_actions v (pr \<noteq> None) dirToWrite (Suc (length as)) as)
                        (bnd (closeConnection (Some sockname)) (\<lambda>_. ret ()))))
           | _ \<Rightarrow> stop Exit_failure))"

end
