(* ===== verification/Client_Runs.thy ===== *)
theory Client_Runs
  imports Client Refinement
begin

text \<open>
  The calls of the client on what the server answers: the bytes they send, the bytes they
  consume and what they return.
\<close>

section \<open>Steps\<close>

definition client_ok :: "client \<Rightarrow> bool" where
  "client_ok c \<longleftrightarrow> wrs (csock c) = [] \<and> small_ok (slibc (csock c)) \<and> \<not> peer_closed (csock c)"

text \<open>The client after it read up to \<open>es\<close> and sent \<open>segs\<close>.\<close>

definition moved :: "client \<Rightarrow> rd_event list \<Rightarrow> char list list \<Rightarrow> client" where
  "moved c es segs = c\<lparr>csock := sends (csock c) es segs\<rparr>"

lemma moved_moved [simp]: "moved (moved c es segs) es' segs' = moved c es' (segs @ segs')"
  by (simp add: moved_def)

lemma moved_sel [simp]: "csock (moved c es segs) = sends (csock c) es segs" "cerrno (moved c es segs) = cerrno c"
  "lfiles (moved c es segs) = lfiles c" "creatable (moved c es segs) = creatable c" "client_ok (moved c es segs) = client_ok c"
  by (simp_all add: moved_def client_ok_def)

lemma moved_upd [simp]: "(moved c es segs)\<lparr>cerrno := e\<rparr> = moved (c\<lparr>cerrno := e\<rparr>) es segs"
  "(moved c es segs)\<lparr>cout := out\<rparr> = moved (c\<lparr>cout := out\<rparr>) es segs"
  "(moved c es segs)\<lparr>cerr := out\<rparr> = moved (c\<lparr>cerr := out\<rparr>) es segs"
  "(moved c es segs)\<lparr>lfiles := fs\<rparr> = moved (c\<lparr>lfiles := fs\<rparr>) es segs"
  "(moved c es segs)\<lparr>ldirs := ds\<rparr> = moved (c\<lparr>ldirs := ds\<rparr>) es segs"
  by (simp_all add: moved_def)

lemma moved_id: "inp (csock c) = es \<Longrightarrow> moved c es [] = c"
  by (auto simp: moved_def)

lemma c_recv_number:
  "inp (csock c) = Data (num n) # es \<Longrightarrow> on_server recv_number c = (Inr n, moved c es [])"
  by (simp add: zoom_run moved_def sends_def)

lemma c_recv_blocked:
  "inp (csock c) = [] \<Longrightarrow> \<not> peer_closed (csock c) \<Longrightarrow> on_server recv_number c = (Inl Blocked, c)"
  by (simp add: zoom_run)

lemma c_send_number:
  "client_ok c \<Longrightarrow> on_server (send_number n) c = (Inr 8, moved c (inp (csock c)) [num n])"
  by (simp add: zoom_run client_ok_def moved_def sends_def)

lemma c_send_message:
  "client_ok c \<Longrightarrow> length bs < 2 ^ 64 \<Longrightarrow> n = of_nat (length bs) \<Longrightarrow>
    on_server (send_message bs n) c = (Inr 0, moved c (inp (csock c)) (message_segments bs))"
  by (simp add: zoom_run client_ok_def moved_def sends_def)

lemma c_recv_message:
  assumes "inp (csock c) = map Data (message_segments bs) @ es" and "length bs < 2 ^ 63"
    and "malloc_ok (slibc (csock c)) (of_nat (length bs) + 1)"
  shows "on_server recv_message c = (Inr (Some (bs @ [NUL])), moved c es [])"
  using recv_message_sends [OF assms] by (simp add: zoom_run moved_def)

lemma send_req_run:
  assumes "client_ok c" and "length nm < 2 ^ 63"
  shows "send_req opc nm flgs c = (Inr 0, moved c (inp (csock c)) (request_segments opc nm flgs))"
  using assms c_send_number c_send_message [of _ "nm @ [NUL]"]
  by (simp add: send_req_def bnd_run request_segments_def)

text \<open>The answer: a status and an error; \<open>OK\<close> with an error would be -1.\<close>

lemma get_resp_run:
  assumes "inp (csock c) = map Data (response_segments st e) @ es"
  shows "get_resp c = (Inr (if st = OK \<and> e \<noteq> 0 then -1 else st), moved (c\<lparr>cerrno := e\<rparr>) es [])"
  using assms by (simp add: get_resp_def sq_def bnd_run c_recv_number response_segments_def)

text \<open>
  \<open>does call c x es segs e\<close>: the call returns \<open>x\<close> having read up to \<open>es\<close> and sent
  \<open>segs\<close>; it leaves \<open>e\<close> in \<open>errno\<close> and the local files alone.
\<close>

definition does :: "'a ccmd \<Rightarrow> client \<Rightarrow> 'a \<Rightarrow> rd_event list \<Rightarrow> char list list \<Rightarrow> i32 \<Rightarrow> bool" where
  "does call c x es segs e \<longleftrightarrow>
     (\<exists>out errs. call c = (Inr x, (moved c es segs)\<lparr>cout := out, cerr := errs, cerrno := e\<rparr>))"

definition answer_of :: "i32 \<Rightarrow> i32 \<Rightarrow> i32" where
  "answer_of st e = (if st = OK \<and> e \<noteq> 0 then -1 else st)"

lemma doesI: "call c = (Inr x, (moved c es segs)\<lparr>cout := out, cerr := errs, cerrno := e\<rparr>) \<Longrightarrow> does call c x es segs e"
  by (auto simp: does_def)

lemma get_resp_does:
  "inp (csock c) = map Data (response_segments st e) @ es \<Longrightarrow> does get_resp c (answer_of st e) es [] e"
  by (rule doesI [where out = "cout c" and errs = "cerr c"]) (simp add: get_resp_run answer_of_def moved_def)

lemma c_printf_run [simp]: "c_printf f as c = (Inr (), c\<lparr>cout := cout c @ [(f, as)]\<rparr>)"
  "c_eprintf f as c = (Inr (), c\<lparr>cerr := cerr c @ [(f, as)]\<rparr>)"
  by (cases c; simp add: c_printf_def c_eprintf_def)+

lemma print_error_run: "\<exists>errs. print_error (cerrno c) c = (Inr (), c\<lparr>cerr := errs\<rparr>)"
proof -
  obtain str new where e: "error_to_str (cerrno c) = (str, new)" by force
  have "new = None \<or> new = Some (cerrno c)"
    using e by (auto simp: error_to_str_def split: if_splits)
  then show ?thesis using e by (auto simp: print_error_def sq_def bnd_run)
qed

text \<open>A refusal: the call ends with the answer that follows it.\<close>

lemma refused_run:
  assumes "inp (csock c) = map Data (response_segments st e) @ es"
  shows "\<exists>errs. bnd get_resp (\<lambda>r. bnd (gets cerrno) (\<lambda>e. sq (print_error e) (ret (f r)))) c =
    (Inr (f (answer_of st e)), (moved c es [])\<lparr>cerr := errs, cerrno := e\<rparr>)"
proof -
  have g: "get_resp c = (Inr (answer_of st e), moved (c\<lparr>cerrno := e\<rparr>) es [])"
    using get_resp_run [OF assms] by (simp add: answer_of_def)
  obtain errs where "print_error e (moved (c\<lparr>cerrno := e\<rparr>) es []) = (Inr (), (moved (c\<lparr>cerrno := e\<rparr>) es [])\<lparr>cerr := errs\<rparr>)"
    using print_error_run [of "moved (c\<lparr>cerrno := e\<rparr>) es []"] by auto
  with g show ?thesis by (intro exI [of _ errs]) (simp add: bnd_run sq_def moved_def)
qed

lemma can_continue_go:
  assumes "inp (csock c) = Data (num (widen CONTINUE)) # es"
  shows "can_continue_function k c = k (moved c es [])"
  using assms by (simp add: can_continue_function_def bnd_run c_recv_number)

lemma can_continue_refused:
  assumes "inp (csock c) = Data (num (widen x)) # map Data (response_segments st e) @ es" and "x \<noteq> CONTINUE"
  shows "\<exists>errs. can_continue_function k c = (Inr (answer_of st e), (moved c es [])\<lparr>cerr := errs, cerrno := e\<rparr>)"
proof -
  let ?c = "moved c (map Data (response_segments st e) @ es) []"
  have "can_continue_function k c = bnd get_resp (\<lambda>r. bnd (gets cerrno) (\<lambda>e. sq (print_error e) (ret r))) ?c"
    using assms by (simp add: can_continue_function_def bnd_run [of _ _ c] c_recv_number)
  with refused_run [of ?c st e es id] show ?thesis by simp
qed

section \<open>The calls\<close>

lemma openFile_does:
  assumes "client_ok c" and "length nm < 2 ^ 63" and "inp (csock c) = map Data (response_segments st e) @ es"
  shows "does (openFile nm flgs) c (answer_of st e) es (request_segments OPEN_FILE nm flgs) e"
  by (rule doesI [where out = "cout c" and errs = "cerr c"])
    (use assms in \<open>simp add: openFile_def bnd_run send_req_run get_resp_run answer_of_def moved_def\<close>)

lemma removeFile_does:
  assumes "client_ok c" and "length nm < 2 ^ 63" and "inp (csock c) = map Data (response_segments st e) @ es"
  shows "does (removeFile (Some nm)) c (answer_of st e) es (request_segments REMOVE_FILE nm 0) e"
  by (rule doesI [where out = "cout c" and errs = "cerr c"])
    (use assms in \<open>simp add: removeFile_def bnd_run send_req_run get_resp_run answer_of_def moved_def\<close>)

text \<open>\<open>readFile\<close>: the whole file, or what the refusal says.\<close>

lemma readFile_does:
  assumes c: "client_ok c" and nm: "length nm < 2 ^ 63"
    and small: "\<And>f. lookup_file nm fs = Some f \<Longrightarrow> length (ccontent f) < 2 ^ 31 \<and>
      malloc_ok (slibc (csock c)) (of_nat (length (ccontent f)) + 1)"
    and inp: "inp (csock c) = map Data (reply_bytes (spec_read pol nm fs)) @ es"
  defines "r \<equiv> spec_read pol nm fs"
  shows "does (readFile nm) c (status r, if status r = OK
      then map_option (\<lambda>f. (ccontent f @ [NUL], of_nat (length (ccontent f)))) (lookup_file nm fs) else None)
    es (request_segments READ_FILE nm 0) (err r)"
proof -
  let ?req = "request_segments READ_FILE nm 0"
  have req: "send_req READ_FILE nm 0 c = (Inr 0, moved c (inp (csock c)) ?req)" by (rule send_req_run [OF c nm])
  show ?thesis
  proof (cases "lookup_file nm fs")
    case None
    let ?c = "moved c (map Data (response_segments NOT_OK ENOENT) @ es) ?req"
    have "readFile nm c = bnd get_resp (\<lambda>st. bnd (gets cerrno) (\<lambda>e. sq (print_error e) (ret (st, None)))) ?c"
      using inp None by (simp add: readFile_def bnd_run [of _ _ c] req c_recv_number bnd_run [of _ _ "moved _ _ _"] spec_read_def reply_bytes_def)
    with refused_run [of ?c NOT_OK ENOENT es "\<lambda>st. (st, None)"] obtain errs where
      "readFile nm c = (Inr (NOT_OK, None), (moved c es ?req)\<lparr>cerr := errs, cerrno := ENOENT\<rparr>)"
      by (auto simp: answer_of_def)
    with None show ?thesis
      by (intro doesI [where out = "cout c" and errs = errs]) (simp add: r_def spec_read_def moved_def)
  next
    case (Some f)
    show ?thesis
    proof (cases "copen f")
      case False
      let ?c = "moved c (map Data (response_segments NOT_OK EACCES) @ es) ?req"
      have "readFile nm c = bnd get_resp (\<lambda>st. bnd (gets cerrno) (\<lambda>e. sq (print_error e) (ret (st, None)))) ?c"
        using inp Some False by (simp add: readFile_def bnd_run [of _ _ c] req c_recv_number bnd_run [of _ _ "moved _ _ _"] spec_read_def reply_bytes_def)
      with refused_run [of ?c NOT_OK EACCES es "\<lambda>st. (st, None)"] obtain errs where
        "readFile nm c = (Inr (NOT_OK, None), (moved c es ?req)\<lparr>cerr := errs, cerrno := EACCES\<rparr>)"
        by (auto simp: answer_of_def)
      with Some False show ?thesis
        by (intro doesI [where out = "cout c" and errs = errs]) (simp add: r_def spec_read_def moved_def)
    next
      case True
      let ?bs = "ccontent f" and ?es1 = "map Data (response_segments OK 0) @ es"
      let ?n = "of_nat (length ?bs) :: u64"
      let ?c0 = "moved c (Data (num ?n) # map Data (message_segments ?bs) @ ?es1) ?req"
      have "readFile nm c = read_body ?c0"
        using inp Some True by (simp add: readFile_def bnd_run [of _ _ c] req c_recv_number bnd_run [of _ _ "moved _ _ _"] spec_read_def reply_bytes_def)
      moreover obtain out errs where b: "read_body ?c0 = (Inr (OK, Some (?bs @ [NUL], ?n)),
          (moved c es ?req)\<lparr>cout := out, cerr := errs, cerrno := 0\<rparr>)"
      proof -
        define c1 where "c1 = c\<lparr>cout := cout c @ [(line ''File size : %zu'', [LN ?n])]\<rparr>"
        define warn where "warn = (if ?n = 0
            then c_eprintf (line ''Zero file size arrived, have you wrote something to the server ?'') [] else ret ())"
        obtain c2 where w: "\<And>es segs. warn (moved c1 es segs) = (Inr (), moved c2 es segs)"
          and c2: "c2 = c\<lparr>cout := cout c2, cerr := cerr c2\<rparr>"
        proof (cases "?n = 0")
          case True
          show thesis
            by (rule that [of "c1\<lparr>cerr := cerr c1 @ [(line ''Zero file size arrived, have you wrote something to the server ?'', [])]\<rparr>"])
              (use True in \<open>simp_all add: warn_def c1_def moved_def\<close>)
        next
          case False
          show thesis by (rule that [of c1]) (use False in \<open>simp_all add: warn_def c1_def\<close>)
        qed
        have ck: "csock c2 = csock c" by (subst c2) simp
        let ?c3 = "moved c2 (map Data (message_segments ?bs) @ ?es1) ?req"
        have m: "on_server recv_message ?c3 = (Inr (Some (?bs @ [NUL])), moved c2 ?es1 ?req)"
          using c_recv_message [of ?c3 ?bs ?es1] small [OF Some] by (simp add: ck)
        have n: "on_server recv_number ?c0 = (Inr ?n, moved c (map Data (message_segments ?bs) @ ?es1) ?req)"
          by (simp add: c_recv_number)
        have p: "c_printf (line ''File size : %zu'') [LN ?n] (moved c es' segs) = (Inr (), moved c1 es' segs)" for es' segs
          by (simp add: c1_def moved_def)
        have "read_body ?c0 = bnd (on_server recv_message) (\<lambda>file_cont.
            case file_cont of None \<Rightarrow> ret (-1, None) | Some buf \<Rightarrow> bnd get_resp (\<lambda>st. ret (st, Some (buf, ?n)))) ?c3"
          by (simp only: read_body_def warn_def [symmetric] bnd_Inr [where m = "on_server recv_number", OF n]
              sq_Inr [where m = "c_printf f as" for f as, OF p] sq_Inr [where m = warn, OF w])
        also have "\<dots> = (Inr (OK, Some (?bs @ [NUL], ?n)), moved (c2\<lparr>cerrno := 0\<rparr>) es ?req)"
          by (simp add: bnd_run m get_resp_run)
        also have "moved (c2\<lparr>cerrno := 0\<rparr>) es ?req = (moved c es ?req)\<lparr>cout := cout c2, cerr := cerr c2, cerrno := 0\<rparr>"
          by (subst c2) (simp add: moved_def)
        finally show thesis by (rule that)
      qed
      ultimately show ?thesis using Some True
        by (intro doesI [where out = out and errs = errs]) (simp add: r_def spec_read_def)
    qed
  qed
qed

section \<open>Writing a file\<close>

lemma fread_loop_run:
  assumes "n = length bs" and "0 < n" and "length buf = n"
  shows "fread_loop (Suc (Suc (Suc k))) n bs False buf c = (Inr bs, c)"
  using assms by (simp add: fread_def)

text \<open>An empty file: reading no items never meets the end of the file.\<close>

lemma fread_loop_empty: "fread_loop k 0 rest False buf = stop Diverges"
  by (induction k arbitrary: buf) (simp_all add: fread_def)

lemma file_size_run:
  "lfiles c nm = Some bs \<Longrightarrow> file_size nm c = (Inr (int (length bs)), c)"
  by (simp add: file_size_def bnd_run)

lemma sints [simp]: "(of_int (int n) :: u64) = of_nat n"
  by simp

text \<open>
  \<open>writeFile\<close> against the specification of the server's answer, on every branch: it sends the
  content as far as the server asks for it and returns what the server answers.
\<close>

definition wf_end :: "i32 ccmd" where
  "wf_end = can_continue_function get_resp"

definition wf_send :: "char list \<Rightarrow> u64 \<Rightarrow> i32 ccmd" where
  "wf_send bs n = bnd (on_server (send_message bs n)) (\<lambda>err.
     if err \<noteq> 0 then sq (c_eprintf (line ''File not properly wrote'') []) (ret (-1)) else wf_end)"

definition wf_content :: "string \<Rightarrow> int \<Rightarrow> i32 ccmd" where
  "wf_content nm sz = bnd (gets lfiles) (\<lambda>fs.
     case fs nm of
       None \<Rightarrow> sq print_strerror (ret (-1))
     | Some content \<Rightarrow>
         bnd (fread_loop (length content + 3) (nat sz) content False (replicate (nat sz) NUL)) (\<lambda>buf.
           wf_send buf (of_int sz)))"

definition wf_size :: "string \<Rightarrow> i32 ccmd" where
  "wf_size nm = bnd (file_size nm) (\<lambda>sz.
     if sz < 0 then sq print_strerror (ret (-1))
     else bnd (on_server (send_number (of_int sz))) (\<lambda>err.
       if err < 0 then sq (c_eprintf (line ''Error sending number for WRITE'') []) (ret (-1))
       else can_continue_function (wf_content nm sz)))"

lemma writeFile_parts:
  "writeFile nm = bnd (send_req WRITE_FILE nm 0) (\<lambda>_. can_continue_function (wf_size nm))"
  unfolding writeFile_def wf_size_def wf_content_def wf_send_def wf_end_def by (rule refl)

lemma writeFile_asks:
  assumes "client_ok c" and "length nm < 2 ^ 63"
  shows "writeFile nm c = can_continue_function (wf_size nm) (moved c (inp (csock c)) (request_segments WRITE_FILE nm 0))"
  using send_req_run [OF assms] unfolding writeFile_parts by (rule bnd_Inr)

lemma wf_size_run:
  assumes c: "client_ok c" and f: "lfiles c nm = Some bs"
  shows "wf_size nm c = can_continue_function (wf_content nm (int (length bs))) (moved c (inp (csock c)) [num (of_nat (length bs))])"
  using c_send_number [OF c] by (simp add: wf_size_def bnd_run file_size_run [OF f])

lemma wf_content_run:
  assumes "lfiles c nm = Some bs" and "bs \<noteq> []"
  shows "wf_content nm (int (length bs)) c = wf_send bs (of_nat (length bs)) c"
proof -
  have "fread_loop (length bs + 3) (length bs) bs False (replicate (length bs) NUL) c = (Inr bs, c)"
    using fread_loop_run [of "length bs" bs "replicate (length bs) NUL" "length bs" c] assms(2) by (simp add: numeral_3_eq_3)
  then show ?thesis using assms(1) by (simp add: wf_content_def bnd_run)
qed

lemma wf_send_run:
  assumes "client_ok c" and "length bs < 2 ^ 63"
  shows "wf_send bs (of_nat (length bs)) c = wf_end (moved c (inp (csock c)) (message_segments bs))"
  using assms by (simp add: wf_send_def bnd_run c_send_message)

lemma refused_does:
  assumes "call c = can_continue_function k (moved c (Data (num (widen x)) # map Data (response_segments st e) @ es) segs)"
    and "x \<noteq> CONTINUE"
  shows "does call c (answer_of st e) es segs e"
proof -
  let ?c = "moved c (Data (num (widen x)) # map Data (response_segments st e) @ es) segs"
  from can_continue_refused [of ?c x st e es k] assms(2) obtain errs where
    "can_continue_function k ?c = (Inr (answer_of st e), (moved ?c es [])\<lparr>cerr := errs, cerrno := e\<rparr>)" by auto
  with assms(1) show ?thesis
    by (intro doesI [where out = "cout c" and errs = errs]) (simp add: moved_def)
qed

lemma writeFile_does:
  assumes c: "client_ok c" and nm: "length nm < 2 ^ 63" and f: "lfiles c nm = Some bs" and bs: "bs \<noteq> []" "length bs < 2 ^ 63"
    and inp: "inp (csock c) = map Data (reply_bytes (spec_write pol mf mx nm (length bs) bs fs)) @ es"
  defines "r \<equiv> spec_write pol mf mx nm (length bs) bs fs"
  shows "does (writeFile nm) c (status r) es (request_segments WRITE_FILE nm 0 @ payload mx nm bs fs) (err r)"
proof -
  let ?req = "request_segments WRITE_FILE nm 0" and ?n = "num (of_nat (length bs))"
  let ?gs = "cache_result 0 (length bs) mf mx (touch pol nm fs)"
  note asks = writeFile_asks [OF c nm]
  have steps: "writeFile nm c = can_continue_function (wf_content nm (int (length bs))) (moved c es' (?req @ [?n]))"
    if "inp (csock c) = Data (num (widen CONTINUE)) # es'" for es'
    using that asks c f by (simp add: can_continue_go wf_size_run)
  have sends: "writeFile nm c = wf_end (moved c es' (?req @ write_input bs))"
    if "inp (csock c) = Data (num (widen CONTINUE)) # Data (num (widen CONTINUE)) # es'" for es'
    using that steps [OF that] c f bs by (simp add: can_continue_go wf_content_run wf_send_run write_input_def)
  consider "\<not> has_file nm fs" | "has_file nm fs" "mx < length bs" | "has_file nm fs" "\<not> mx < length bs" "\<not> has_file nm ?gs"
    | "has_file nm fs" "\<not> mx < length bs" "has_file nm ?gs" by blast
  then show ?thesis
  proof cases
    case 1
    let ?in = "Data (num (widen NOT_OK)) # map Data (response_segments NOT_OK ENONET) @ es"
    have "inp (csock c) = ?in" using 1 inp by (simp add: spec_write_def reply_bytes_def)
    then have "writeFile nm c = can_continue_function (wf_size nm) (moved c ?in ?req)" using asks by simp
    then have "does (writeFile nm) c (answer_of NOT_OK ENONET) es ?req ENONET" by (rule refused_does) simp
    with 1 show ?thesis by (simp add: r_def spec_write_def payload_def answer_of_def)
  next
    case 2
    let ?in = "Data (num (widen NO_CONTINUE)) # map Data (response_segments NOT_OK E2BIG) @ es"
    have "inp (csock c) = Data (num (widen CONTINUE)) # ?in" using inp 2 by (simp add: spec_write_def reply_bytes_def)
    from steps [OF this] have "does (writeFile nm) c (answer_of NOT_OK E2BIG) es (?req @ [?n]) E2BIG"
      by (rule refused_does) simp
    with 2 show ?thesis by (simp add: r_def spec_write_def payload_def answer_of_def)
  next
    case 3
    let ?in = "Data (num (widen NOT_OK)) # map Data (response_segments NOT_OK ENOENT) @ es"
    have "inp (csock c) = Data (num (widen CONTINUE)) # Data (num (widen CONTINUE)) # ?in"
      using inp 3 by (simp add: spec_write_def reply_bytes_def)
    from sends [OF this] have "does (writeFile nm) c (answer_of NOT_OK ENOENT) es (?req @ write_input bs) ENOENT"
      unfolding wf_end_def by (rule refused_does) simp
    with 3 show ?thesis by (simp add: r_def spec_write_def payload_def answer_of_def)
  next
    case 4
    let ?in = "map Data (response_segments OK 0) @ es"
    have "inp (csock c) = Data (num (widen CONTINUE)) # Data (num (widen CONTINUE)) # Data (num (widen CONTINUE)) # ?in"
      using inp 4 by (simp add: spec_write_def reply_bytes_def)
    from sends [OF this] have "writeFile nm c = get_resp (moved c ?in (?req @ write_input bs))"
      by (simp add: wf_end_def can_continue_go)
    then show ?thesis using 4
      by (intro doesI [where out = "cout c" and errs = "cerr c"])
        (simp add: get_resp_run r_def spec_write_def payload_def moved_def)
  qed
qed

text \<open>A local file that is empty: the request never ends.\<close>

lemma writeFile_empty:
  assumes c: "client_ok c" and nm: "length nm < 2 ^ 63" and f: "lfiles c nm = Some []"
    and inp: "inp (csock c) = Data (num (widen CONTINUE)) # Data (num (widen CONTINUE)) # es"
  shows "fst (writeFile nm c) = Inl Diverges"
proof -
  have w: "wf_content nm 0 c' = (Inl Diverges, c')" if "lfiles c' nm = Some []" for c'
    using that by (simp add: wf_content_def bnd_run fread_loop_empty)
  then show ?thesis
    using writeFile_asks [OF c nm] wf_size_run [of _ nm "[]"] c f inp by (simp add: can_continue_go)
qed

end
