(* ===== verification/Client_Reads.thy ===== *)
theory Client_Reads
  imports Client_Runs
begin

text \<open>
  The other calls of the client on what the server answers: appending, reading many files,
  and where the two ends do not agree on the protocol.
\<close>

section \<open>Appending\<close>

definition af_send :: "char list \<Rightarrow> i32 ccmd" where
  "af_send bs = bnd (on_server (send_number (of_nat (length bs)))) (\<lambda>err.
     if err < 0 then sq (c_eprintf (line ''Error sending number for APPEND'') []) (ret (-1))
     else bnd (on_server (send_message bs (of_nat (length bs)))) (\<lambda>err.
       if err \<noteq> 0 then sq (c_eprintf (line ''File not properly wrote'') []) (ret (-1))
       else get_resp))"

lemma appendToFile_asks:
  assumes "client_ok c" and "length nm < 2 ^ 63"
  shows "appendToFile nm bs (of_nat (length bs)) c =
    can_continue_function (af_send bs) (moved c (inp (csock c)) (request_segments APPEND_FILE nm 0))"
  using send_req_run [OF assms] unfolding appendToFile_def af_send_def by (rule bnd_Inr)

lemma af_send_run:
  assumes "client_ok c" and "length bs < 2 ^ 63"
  shows "af_send bs c = get_resp (moved c (inp (csock c)) (write_input bs))"
  using assms by (simp add: af_send_def bnd_run c_send_number c_send_message write_input_def)

text \<open>An append the server accepts, or refuses before it asks for the content.\<close>

lemma appendToFile_does:
  assumes c: "client_ok c" and nm: "length nm < 2 ^ 63" and bs: "length bs < 2 ^ 63" and fits: "length bs \<le> mx"
    and inp: "inp (csock c) = map Data (reply_bytes (spec_append pol mf mx nm bs fs)) @ es"
  defines "r \<equiv> spec_append pol mf mx nm bs fs"
  shows "does (appendToFile nm bs (of_nat (length bs))) c (status r) es
    (request_segments APPEND_FILE nm 0 @ payload mx nm bs fs) (err r)"
proof -
  let ?req = "request_segments APPEND_FILE nm 0"
  note asks = appendToFile_asks [OF c nm, of bs]
  show ?thesis
  proof (cases "has_file nm fs")
    case False
    let ?in = "Data (num (widen NOT_OK)) # map Data (response_segments NOT_OK ENONET) @ es"
    have "inp (csock c) = ?in" using False inp by (simp add: spec_append_def reply_bytes_def)
    then have "appendToFile nm bs (of_nat (length bs)) c = can_continue_function (af_send bs) (moved c ?in ?req)"
      using asks by simp
    then have "does (appendToFile nm bs (of_nat (length bs))) c (answer_of NOT_OK ENONET) es ?req ENONET"
      by (rule refused_does) simp
    with False show ?thesis by (simp add: r_def spec_append_def payload_def answer_of_def)
  next
    case True
    let ?in = "map Data (response_segments OK 0) @ es"
    have "inp (csock c) = Data (num (widen CONTINUE)) # ?in"
      using True fits inp by (simp add: spec_append_def reply_bytes_def)
    then have "appendToFile nm bs (of_nat (length bs)) c = get_resp (moved c ?in (?req @ write_input bs))"
      using asks c bs by (simp add: can_continue_go af_send_run)
    then show ?thesis using True fits
      by (intro doesI [where out = "cout c" and errs = "cerr c"])
        (simp add: get_resp_run r_def spec_append_def payload_def moved_def)
  qed
qed

text \<open>
  A content beyond the limit: the server refuses after the size, and the client, which does
  not wait for a second go-ahead, sends the content anyway and takes the refusal for the
  status of the answer. A number of the answer stays on the socket.
\<close>

lemma appendToFile_too_big:
  assumes c: "client_ok c" and nm: "length nm < 2 ^ 63" and bs: "length bs < 2 ^ 63" and big: "mx < length bs"
    and has: "has_file nm fs"
    and inp: "inp (csock c) = map Data (reply_bytes (spec_append pol mf mx nm bs fs)) @ es"
  shows "does (appendToFile nm bs (of_nat (length bs))) c NO_CONTINUE (Data (num (widen E2BIG)) # es)
    (request_segments APPEND_FILE nm 0 @ write_input bs) 0"
proof -
  let ?in = "map Data (response_segments NO_CONTINUE NOT_OK) @ Data (num (widen E2BIG)) # es"
  have "inp (csock c) = Data (num (widen CONTINUE)) # ?in"
    using has big inp by (simp add: spec_append_def reply_bytes_def response_segments_def)
  then have "appendToFile nm bs (of_nat (length bs)) c =
      get_resp (moved c ?in (request_segments APPEND_FILE nm 0 @ write_input bs))"
    using appendToFile_asks [OF c nm, of bs] c bs by (simp add: can_continue_go af_send_run)
  then show ?thesis
    by (intro doesI [where out = "cout c" and errs = "cerr c"]) (simp add: get_resp_run moved_def)
qed

section \<open>Reading many files\<close>

text \<open>What the loop stores: the files that are not empty, under their position in the answer.\<close>

definition readn_name :: "string \<Rightarrow> nat \<Rightarrow> string" where
  "readn_name d i = d @ ''/READN_FILE_'' @ dec i"

fun stored :: "string option \<Rightarrow> nat \<Rightarrow> cfile list \<Rightarrow> (string \<rightharpoonup> char list) \<Rightarrow> (string \<rightharpoonup> char list)" where
  "stored dirname i [] fs = fs"
| "stored dirname i (f # gs) fs =
     stored dirname (Suc i) gs (case dirname of
       None \<Rightarrow> fs
     | Some d \<Rightarrow>
         if ccontent f = [] then fs
         else fs(readn_name d i \<mapsto> ccontent f @
           drop (length (ccontent f)) (case fs (readn_name d i) of None \<Rightarrow> [] | Some old \<Rightarrow> old)))"

lemma store_local_run:
  assumes "creatable c p" and "length bs < 2 ^ 63"
  shows "store_local p (bs @ [NUL]) (of_nat (length bs)) c =
    (Inr True, c\<lparr>lfiles := (lfiles c)(p \<mapsto> bs @ drop (length bs) (case lfiles c p of None \<Rightarrow> [] | Some old \<Rightarrow> old))\<rparr>)"
proof -
  have "unat (of_nat (length bs) :: u64) = length bs" using assms(2) by (simp add: unat_of_nat_small)
  then show ?thesis using assms(1) by (cases c) (simp add: store_local_def bnd_run sq_def Let_def)
qed

lemma readn_loop_run:
  assumes "client_ok c" and "\<forall>f \<in> set gs. length (ccontent f) < 2 ^ 31 \<and>
      malloc_ok (slibc (csock c)) (of_nat (length (ccontent f)) + 1)"
    and "\<And>d j. dirname = Some d \<Longrightarrow> j < i + length gs \<Longrightarrow> creatable c (readn_name d j) \<and> length (readn_name d j) < 256"
    and "inp (csock c) = map Data (concat (map file_segments gs)) @ es"
  shows "readn_loop_files (length gs) i dirname c = (Inr (), (moved c es [])\<lparr>lfiles := stored dirname i gs (lfiles c)\<rparr>)"
  using assms
proof (induction gs arbitrary: i c)
  case Nil
  then show ?case by (auto simp: moved_def)
next
  case (Cons f gs)
  let ?bs = "ccontent f" and ?rest = "map Data (concat (map file_segments gs)) @ es"
  let ?n = "of_nat (length ?bs) :: u64"
  have f: "length ?bs < 2 ^ 31" "malloc_ok (slibc (csock c)) (?n + 1)" using Cons.prems(2) by auto
  have n0: "?n = 0 \<longleftrightarrow> ?bs = []"
  proof -
    have "unat ?n = length ?bs" using f(1) by (intro unat_of_nat_small) simp
    then show ?thesis by (metis length_0_conv unat_eq_zero)
  qed
  let ?c1 = "moved c (Data (num ?n) # ?rest) []" and ?c2 = "moved c ?rest []"
  have m: "on_server recv_message c = (Inr (Some (?bs @ [NUL])), ?c1)"
    by (rule c_recv_message) (use Cons.prems(4) f in \<open>simp_all add: file_segments_def [of f]\<close>)
  have n: "on_server recv_number ?c1 = (Inr ?n, ?c2)" by (simp add: c_recv_number)
  have gs2: "\<forall>f \<in> set gs. length (ccontent f) < 2 ^ 31 \<and> malloc_ok (slibc (csock c)) (of_nat (length (ccontent f)) + 1)"
    using Cons.prems(2) by auto
  have go: "readn_loop_files (length gs) (Suc i) dirname c' =
      (Inr (), (moved c es [])\<lparr>lfiles := stored dirname (Suc i) gs (lfiles c')\<rparr>)"
    if c': "c' = ?c2\<lparr>lfiles := fs\<rparr>" for c' fs
  proof -
    have "readn_loop_files (length gs) (Suc i) dirname c' =
        (Inr (), (moved c' es [])\<lparr>lfiles := stored dirname (Suc i) gs (lfiles c')\<rparr>)"
      by (rule Cons.IH) (use Cons.prems(1,3) gs2 in \<open>auto simp: c' client_ok_def\<close>)
    then show ?thesis by (simp add: c' moved_def)
  qed
  have step: "readn_loop_files (length (f # gs)) i dirname c =
      (if ?n = 0 then readn_loop_files (length gs) (Suc i) dirname
       else case dirname of
         None \<Rightarrow> readn_loop_files (length gs) (Suc i) dirname
       | Some d \<Rightarrow>
           if length (readn_name d i) \<ge> 256 then stop Out_of_bounds
           else bnd (store_local (readn_name d i) (?bs @ [NUL]) ?n) (\<lambda>ok.
             if ok then readn_loop_files (length gs) (Suc i) dirname else ret ())) ?c2"
    by (simp add: bnd_run m n readn_name_def Let_def del: of_nat_0_eq_iff cong: if_cong split: option.split)
  show ?case
  proof (cases "?bs = [] \<or> dirname = None")
    case True
    then have "stored dirname i (f # gs) (lfiles c) = stored dirname (Suc i) gs (lfiles c)"
      by (auto split: option.splits)
    moreover have "readn_loop_files (length (f # gs)) i dirname c = readn_loop_files (length gs) (Suc i) dirname ?c2"
      unfolding step using True n0 by (auto split: option.splits)
    ultimately show ?thesis using go [of ?c2 "lfiles c"] by (simp add: moved_def)
  next
    case False
    then obtain d where d: "dirname = Some d" and ne: "?bs \<noteq> []" by auto
    let ?p = "readn_name d i"
    have p: "creatable c ?p" "length ?p < 256" using Cons.prems(3) [OF d, of i] by auto
    let ?fs = "(lfiles c)(?p \<mapsto> ?bs @ drop (length ?bs) (case lfiles c ?p of None \<Rightarrow> [] | Some old \<Rightarrow> old))"
    have st: "store_local ?p (?bs @ [NUL]) ?n ?c2 = (Inr True, ?c2\<lparr>lfiles := ?fs\<rparr>)"
      using store_local_run [of ?c2 ?p ?bs] p(1) f(1) by simp
    have "readn_loop_files (length (f # gs)) i dirname c = readn_loop_files (length gs) (Suc i) dirname (?c2\<lparr>lfiles := ?fs\<rparr>)"
      unfolding step using d ne n0 p(2) st by (simp add: bnd_run)
    then show ?thesis using go [OF refl, of ?fs] d ne by simp
  qed
qed

definition rf_mkdir :: "string option \<Rightarrow> unit ccmd" where
  "rf_mkdir dirname = (case dirname of None \<Rightarrow> ret () | Some d \<Rightarrow> modify (ldirs_update (\<lambda>ds. ds(d := True))))"

definition rf_body :: "i32 \<Rightarrow> string option \<Rightarrow> i32 ccmd" where
  "rf_body n dirname =
     (if sint n < 0 then stop Out_of_bounds
      else can_continue_function (sq (readn_loop_files (nat (sint n)) 0 dirname) get_resp))"

definition rf_count :: "string option \<Rightarrow> i32 ccmd" where
  "rf_count dirname = bnd (on_server recv_number) (\<lambda>real_N.
     if (narrow real_N :: i32) = 0
     then sq (c_eprintf (line ''Server can provide only 0 files'') []) (ret NOT_OK)
     else sq (rf_mkdir dirname) (rf_body (narrow real_N) dirname))"

abbreviation asked :: "i32 \<Rightarrow> i32" where
  "asked N \<equiv> (if sint N < 0 then 0 else N)"

lemma readNFiles_parts:
  "readNFiles N dirname =
     sq (set_cerrno 0) (bnd (send_req READN_FILE ''readNString'' (asked N)) (\<lambda>_. rf_count dirname))"
  unfolding readNFiles_def rf_count_def rf_body_def rf_mkdir_def by (rule refl)

lemma readNFiles_asks:
  assumes "client_ok c"
  shows "readNFiles N dirname c =
    rf_count dirname (moved (c\<lparr>cerrno := 0\<rparr>) (inp (csock c)) (request_segments READN_FILE ''readNString'' (asked N)))"
proof -
  have "set_cerrno 0 c = (Inr (), c\<lparr>cerrno := 0\<rparr>)" by (cases c) simp
  moreover have "send_req READN_FILE ''readNString'' (asked N) (c\<lparr>cerrno := 0\<rparr>) =
      (Inr 0, moved (c\<lparr>cerrno := 0\<rparr>) (inp (csock c)) (request_segments READN_FILE ''readNString'' (asked N)))"
    using send_req_run [of "c\<lparr>cerrno := 0\<rparr>" "''readNString''" READN_FILE "asked N"] assms by (simp add: client_ok_def)
  ultimately show ?thesis by (simp only: readNFiles_parts sq_Inr [where m = "set_cerrno 0"]
      bnd_Inr [where m = "send_req READN_FILE ''readNString'' (asked N)"])
qed

lemma rf_mkdir_run: "\<exists>ds. rf_mkdir dirname c = (Inr (), c\<lparr>ldirs := ds\<rparr>)"
proof (cases dirname)
  case None
  then show ?thesis by (intro exI [of _ "ldirs c"]) (simp add: rf_mkdir_def)
next
  case (Some d)
  then show ?thesis by (intro exI [of _ "(ldirs c)(d := True)"]) (cases c, simp add: rf_mkdir_def)
qed

lemma readNFiles_does:
  assumes c: "client_ok c" and ne: "fs \<noteq> []" and len: "length fs < 2 ^ 31"
    and small: "\<forall>f \<in> set fs. length (ccontent f) < 2 ^ 31 \<and> malloc_ok (slibc (csock c)) (of_nat (length (ccontent f)) + 1)"
    and names: "\<And>d j. dirname = Some d \<Longrightarrow> j < length fs \<Longrightarrow> creatable c (readn_name d j) \<and> length (readn_name d j) < 256"
    and inp: "inp (csock c) = map Data (reply_bytes (spec_readn (asked N) fs)) @ es"
  defines "k \<equiv> readn_count (asked N) (length fs)"
  shows "\<exists>ds. readNFiles N dirname c = (Inr OK,
    (moved c es (request_segments READN_FILE ''readNString'' (asked N)))\<lparr>
      lfiles := stored dirname 0 (take k fs) (lfiles c), ldirs := ds, cerrno := 0\<rparr>)"
proof -
  let ?gs = "take k fs" and ?req = "request_segments READN_FILE ''readNString'' (asked N)"
  let ?c0 = "c\<lparr>cerrno := 0\<rparr>"
  have k: "0 < k" "k \<le> length fs" using ne by (auto simp: k_def readn_count_def min_def unat_gt_0)
  let ?es1 = "map Data (response_segments OK 0) @ es"
  let ?es2 = "map Data (concat (map file_segments ?gs)) @ ?es1"
  have inp': "inp (csock c) = Data (num (of_nat k)) # Data (num (widen CONTINUE)) # ?es2"
    using inp ne by (simp add: spec_readn_def Let_def reply_bytes_def k_def)
  have nk: "(narrow (of_nat k) :: i32) = of_nat k" "sint (of_nat k :: i32) = int k"
    using k len by (simp_all add: sint_of_nat_small)
  have k0: "(of_nat k :: i32) \<noteq> 0"
  proof -
    have "unat (of_nat k :: u32) = k" by (rule unat32_of_nat_small) (use k len in simp)
    then show ?thesis using k(1) by (metis unat_0 less_irrefl)
  qed
  let ?c1 = "moved ?c0 (Data (num (widen CONTINUE)) # ?es2) ?req"
  obtain ds where ds: "rf_mkdir dirname ?c1 = (Inr (), ?c1\<lparr>ldirs := ds\<rparr>)" using rf_mkdir_run by blast
  let ?body = "sq (readn_loop_files k 0 dirname) get_resp"
  have "readNFiles N dirname c = rf_count dirname (moved ?c0 (Data (num (of_nat k)) # Data (num (widen CONTINUE)) # ?es2) ?req)"
    using readNFiles_asks [OF c, of N dirname] inp' by simp
  also have "\<dots> = sq (rf_mkdir dirname) (rf_body (of_nat k) dirname) ?c1"
    using k0 by (simp add: rf_count_def bnd_run [of _ _ "moved _ _ _"] c_recv_number nk)
  also have "\<dots> = can_continue_function ?body (?c1\<lparr>ldirs := ds\<rparr>)"
    by (simp only: sq_Inr [where m = "rf_mkdir dirname", OF ds] rf_body_def nk) simp
  also have "\<dots> = ?body ((moved ?c0 ?es2 ?req)\<lparr>ldirs := ds\<rparr>)"
    by (subst can_continue_go [where es = ?es2]) simp_all
  also have "\<dots> = get_resp ((moved ?c0 ?es1 ?req)\<lparr>ldirs := ds, lfiles := stored dirname 0 ?gs (lfiles c)\<rparr>)"
  proof -
    let ?c2 = "(moved ?c0 ?es2 ?req)\<lparr>ldirs := ds\<rparr>"
    have "readn_loop_files (length ?gs) 0 dirname ?c2 =
        (Inr (), (moved ?c2 ?es1 [])\<lparr>lfiles := stored dirname 0 ?gs (lfiles ?c2)\<rparr>)"
    proof (rule readn_loop_run)
      show "\<forall>f \<in> set ?gs. length (ccontent f) < 2 ^ 31 \<and>
          malloc_ok (slibc (csock ?c2)) (of_nat (length (ccontent f)) + 1)"
        using small by (auto dest: in_set_takeD)
      show "creatable ?c2 (readn_name d j) \<and> length (readn_name d j) < 256"
        if "dirname = Some d" "j < 0 + length ?gs" for d j
        using names [OF that(1), of j] that(2) k by simp
    qed (use c in \<open>simp_all add: client_ok_def\<close>)
    moreover have "length ?gs = k" using k(2) by simp
    ultimately have "readn_loop_files k 0 dirname ?c2 =
        (Inr (), (moved ?c2 ?es1 [])\<lparr>lfiles := stored dirname 0 ?gs (lfiles ?c2)\<rparr>)" by simp
    then have "?body ?c2 = get_resp ((moved ?c2 ?es1 [])\<lparr>lfiles := stored dirname 0 ?gs (lfiles ?c2)\<rparr>)" by (rule sq_Inr)
    then show ?thesis by simp
  qed
  also have "\<dots> = (Inr OK, (moved c es ?req)\<lparr>lfiles := stored dirname 0 ?gs (lfiles c), ldirs := ds, cerrno := 0\<rparr>)"
    by (subst get_resp_run [where st = OK and e = 0 and es = es]) (simp_all add: moved_def)
  finally show ?thesis by blast
qed

text \<open>
  An empty server answers \<open>READN_FILE\<close> with one number, a refusal; the client reads a count
  there, takes the status for the go-ahead it does not get, the error for the status, and
  waits for an error that never comes.
\<close>

lemma readNFiles_empty:
  assumes c: "client_ok c" and inp: "inp (csock c) = map Data (reply_bytes (spec_readn n []))"
  shows "fst (readNFiles N dirname c) = Inl Blocked"
proof -
  let ?req = "request_segments READN_FILE ''readNString'' (asked N)"
  let ?c1 = "moved (c\<lparr>cerrno := 0\<rparr>) [Data (num (widen NOT_OK)), Data (num (widen ENODATA))] ?req"
  obtain ds where ds: "rf_mkdir dirname ?c1 = (Inr (), ?c1\<lparr>ldirs := ds\<rparr>)" using rf_mkdir_run by blast
  have pc: "\<not> peer_closed (csock c)" using c by (simp add: client_ok_def)
  have "inp (csock c) = [Data (num (widen NO_CONTINUE)), Data (num (widen NOT_OK)), Data (num (widen ENODATA))]"
    using inp by (simp add: spec_readn_def reply_bytes_def response_segments_def)
  then have "readNFiles N dirname c = sq (rf_mkdir dirname) (rf_body 1074 dirname) ?c1"
    using readNFiles_asks [OF c, of N dirname]
    by (simp add: rf_count_def bnd_run [of _ _ "moved _ _ _"] c_recv_number)
  also have "\<dots> = can_continue_function (sq (readn_loop_files 1074 0 dirname) get_resp) (?c1\<lparr>ldirs := ds\<rparr>)"
    by (simp only: sq_Inr [where m = "rf_mkdir dirname", OF ds]) (simp add: rf_body_def)
  also have "fst \<dots> = Inl Blocked"
    using pc by (simp add: can_continue_function_def get_resp_def sq_def bnd_run c_recv_number c_recv_blocked)
  finally show ?thesis .
qed

end
