(* ===== verification/Dialogue.thy ===== *)
theory Dialogue
  imports Client_Reads
begin

text \<open>
  The client and the server talking to each other. Each end is a function of what it has
  heard so far to what it has said so far; starting from silence, a round lets the client
  react to what the server said and the server to what the client said. What an end has
  said when it waits for more stays said, so the rounds grow towards the whole exchange.
\<close>

section \<open>Rounds\<close>

definition hears :: "client \<Rightarrow> char list list \<Rightarrow> client" where
  "hears c down = c\<lparr>csock := (csock c)\<lparr>inp := map Data down, outp := []\<rparr>\<rparr>"

definition receives :: "srv \<Rightarrow> nat \<Rightarrow> char list list \<Rightarrow> srv" where
  "receives s fd up = s\<lparr>socks := (socks s)(fd := (socks s fd)\<lparr>inp := map Data up, outp := []\<rparr>)\<rparr>"

definition client_says :: "'a ccmd \<Rightarrow> client \<Rightarrow> char list list \<Rightarrow> char list list" where
  "client_says call c down = outp (csock (snd (call (hears c down))))"

definition server_says :: "nat \<Rightarrow> addr \<Rightarrow> srv \<Rightarrow> char list list \<Rightarrow> char list list" where
  "server_says fd l s up = outp (socks (snd (session fd l (receives s fd up))) fd)"

text \<open>What the server has said after so many rounds.\<close>

fun conversation :: "nat \<Rightarrow> 'a ccmd \<Rightarrow> client \<Rightarrow> nat \<Rightarrow> addr \<Rightarrow> srv \<Rightarrow> char list list" where
  "conversation 0 call c fd l s = []"
| "conversation (Suc n) call c fd l s =
     server_says fd l s (client_says call c (conversation n call c fd l s))"

text \<open>
  After \<open>n\<close> rounds the exchange is complete: the call returns, the session returns, and
  neither leaves a byte of the other unread.
\<close>

definition settles :: "nat \<Rightarrow> 'a ccmd \<Rightarrow> client \<Rightarrow> nat \<Rightarrow> addr \<Rightarrow> srv \<Rightarrow> 'a \<Rightarrow> client \<Rightarrow> srv \<Rightarrow> bool" where
  "settles n call c fd l s x c' s' \<longleftrightarrow>
     (let down = conversation n call c fd l s; up = client_says call c down in
      call (hears c down) = (Inr x, c') \<and> session fd l (receives s fd up) = (Inr True, s') \<and>
      server_says fd l s up = down \<and> inp (csock c') = [] \<and> inp (socks s' fd) = [])"

lemma hears_sel [simp]: "inp (csock (hears c down)) = map Data down" "outp (csock (hears c down)) = []"
  "slibc (csock (hears c down)) = slibc (csock c)" "lfiles (hears c down) = lfiles c" "client_ok (hears c down) = client_ok c"
  by (simp_all add: hears_def client_ok_def)

lemma receives_sel [simp]: "inp (socks (receives s fd up) fd) = map Data up" "outp (socks (receives s fd up) fd) = []"
  "mem (receives s fd up) = mem s" "conf (receives s fd up) = conf s" "idle (receives s fd up) fs F l = idle s fs F l"
  "link_ok (receives s fd up) fd = link_ok s fd" "ready (receives s fd up) fd mf mx = ready s fd mf mx"
  "peer_closed (socks (receives s fd up) fd) = peer_closed (socks s fd)"
  "jfresh (receives s fd up) = jfresh s" "arrives (receives s fd up) fd up' [] = (up = up')"
  by (auto simp: receives_def idle_def srv_ok_def link_ok_def ready_def arrives_def inj_def)

text \<open>A call that ends, in these terms; and one that waits having said \<open>segs\<close>.\<close>

lemma client_says_does:
  assumes "does call (hears c down) x [] segs e"
  shows "client_says call c down = segs"
    and "\<exists>c'. call (hears c down) = (Inr x, c') \<and> inp (csock c') = [] \<and> lfiles c' = lfiles c \<and> cerrno c' = e"
  using assms by (auto simp: does_def client_says_def)

lemma server_says_served:
  assumes "served fd l (receives s fd up) F [] r s'"
  shows "server_says fd l s up = reply_bytes r" and "inp (socks s' fd) = []"
  using assms by (simp_all add: served_def server_says_def reply_bytes_def)

text \<open>A call that sends its whole request before it reads settles in one round.\<close>

lemma settles_at:
  assumes down: "conversation n call c fd l s = reply_bytes r"
    and ends: "does call (hears c (reply_bytes r)) x [] req e"
    and srv: "served fd l (receives s fd req) F [] r s'"
  shows "\<exists>c'. settles n call c fd l s x c' s' \<and> lfiles c' = lfiles c \<and> cerrno c' = e"
proof -
  note cs = client_says_does [OF ends]
  obtain c' where c': "call (hears c (reply_bytes r)) = (Inr x, c')" "inp (csock c') = []" "lfiles c' = lfiles c" "cerrno c' = e"
    using cs(2) by blast
  have "session fd l (receives s fd req) = (Inr True, s')" using srv by (simp add: served_def)
  with c' cs(1) server_says_served [OF srv] down show ?thesis by (auto simp: settles_def Let_def)
qed

lemma settles_once:
  assumes asks: "client_says call c [] = req"
    and ends: "does call (hears c (reply_bytes r)) x [] req e"
    and srv: "served fd l (receives s fd req) F [] r s'"
  shows "\<exists>c'. settles 1 call c fd l s x c' s' \<and> lfiles c' = lfiles c \<and> cerrno c' = e"
  by (rule settles_at [OF _ ends srv]) (use asks server_says_served [OF srv] in simp)

section \<open>Calls that settle in one round\<close>

lemma waits [simp]: "client_ok c \<Longrightarrow> on_server recv_number (moved c [] segs) = (Inl Blocked, moved c [] segs)"
  by (rule c_recv_blocked) (simp_all add: client_ok_def)

lemma get_resp_waits: "client_ok c \<Longrightarrow> snd (get_resp (moved c [] segs)) = moved (c\<lparr>cerrno := 0\<rparr>) [] segs"
  by (simp add: get_resp_def sq_def bnd_run waits [of "c\<lparr>cerrno := 0\<rparr>"] client_ok_def)

lemma can_continue_waits: "client_ok c \<Longrightarrow> can_continue_function k (moved c [] segs) = (Inl Blocked, moved c [] segs)"
  by (simp add: can_continue_function_def bnd_run)

lemma openFile_asks:
  assumes "client_ok c" and "length nm < 2 ^ 63"
  shows "client_says (openFile nm flgs) c [] = request_segments OPEN_FILE nm flgs"
  using send_req_run [of "hears c []" nm OPEN_FILE flgs] get_resp_waits [of "hears c []"] assms
  by (simp add: client_says_def openFile_def bnd_run)

lemma removeFile_asks:
  assumes "client_ok c" and "length nm < 2 ^ 63"
  shows "client_says (removeFile (Some nm)) c [] = request_segments REMOVE_FILE nm 0"
  using send_req_run [of "hears c []" nm REMOVE_FILE 0] get_resp_waits [of "hears c []"] assms
  by (simp add: client_says_def removeFile_def bnd_run)

lemma readFile_asks:
  assumes "client_ok c" and "length nm < 2 ^ 63"
  shows "client_says (readFile nm) c [] = request_segments READ_FILE nm 0"
  using send_req_run [of "hears c []" nm READ_FILE 0] waits [of "hears c []"] assms
  by (simp add: client_says_def readFile_def bnd_run)

lemma name_len: "name_ok nm \<Longrightarrow> length nm < 2 ^ 63"
  by (simp add: name_ok_def)

lemma content_small:
  assumes "f \<in> set fs" and "content_bytes fs < 2 ^ 31"
  shows "length (ccontent f) < 2 ^ 31"
proof -
  have "length (ccontent f) \<le> content_bytes fs"
    unfolding content_bytes_def using assms(1) by (intro member_le_sum_list) auto
  with assms(2) show ?thesis by simp
qed

text \<open>The client's calls, against an idle server: each returns what the abstract cache replies.\<close>

lemma dialogue_open:
  assumes "idle s fs F l" and "ready s fd mf mx" and "within mf mx fs" and "client_ok c" and "name_ok nm"
  defines "r \<equiv> spec_of (policy (conf s)) mf mx (Create nm) fs"
  shows "\<exists>c' s'. settles 1 (openFile nm O_CREATE) c fd l s (status r) c' s' \<and> idle s' (files r) F l \<and>
    lfiles c' = lfiles c \<and> cerrno c' = err r"
proof -
  obtain s' where s': "served fd l (receives s fd (request_segments OPEN_FILE nm O_CREATE)) F [] r s'"
    using request_run [of "receives s fd (request_segments OPEN_FILE nm O_CREATE)" fs F l fd mf mx "Create nm" "[]"] assms
    by (auto simp: r_def)
  have a: "answer_of (status r) (err r) = status r"
    by (auto simp: r_def spec_create_def answer_of_def)
  have "wire r = []" by (simp add: r_def spec_create_def)
  then have "does (openFile nm O_CREATE) (hears c (reply_bytes r)) (status r) [] (request_segments OPEN_FILE nm O_CREATE) (err r)"
    using openFile_does [of "hears c (reply_bytes r)" nm "status r" "err r" "[]" O_CREATE] assms(4) name_len [OF assms(5)] a
    by (simp add: reply_bytes_def)
  from settles_once [OF openFile_asks this s'] assms(4) name_len [OF assms(5)] served_idle [OF s'] show ?thesis by blast
qed

lemma dialogue_remove:
  assumes "idle s fs F l" and "ready s fd mf mx" and "within mf mx fs" and "client_ok c" and "name_ok nm"
  defines "r \<equiv> spec_of (policy (conf s)) mf mx (Remove nm) fs"
  shows "\<exists>c' s'. settles 1 (removeFile (Some nm)) c fd l s (status r) c' s' \<and> idle s' (files r) F l \<and>
    lfiles c' = lfiles c \<and> cerrno c' = err r"
proof -
  obtain s' where s': "served fd l (receives s fd (request_segments REMOVE_FILE nm 0)) F [] r s'"
    using request_run [of "receives s fd (request_segments REMOVE_FILE nm 0)" fs F l fd mf mx "Remove nm" "[]"] assms
    by (auto simp: r_def)
  have a: "answer_of (status r) (err r) = status r"
    by (auto simp: r_def spec_remove_def answer_of_def)
  have "wire r = []" by (simp add: r_def spec_remove_def)
  then have "does (removeFile (Some nm)) (hears c (reply_bytes r)) (status r) [] (request_segments REMOVE_FILE nm 0) (err r)"
    using removeFile_does [of "hears c (reply_bytes r)" nm "status r" "err r" "[]"] assms(4) name_len [OF assms(5)] a
    by (simp add: reply_bytes_def)
  from settles_once [OF removeFile_asks this s'] assms(4) name_len [OF assms(5)] served_idle [OF s'] show ?thesis by blast
qed

lemma dialogue_read:
  assumes "idle s fs F l" and "ready s fd mf mx" and "within mf mx fs" and "client_ok c" and "name_ok nm"
    and "\<And>n. n \<le> mx \<Longrightarrow> malloc_ok (slibc (csock c)) (of_nat n + 1)"
  defines "r \<equiv> spec_of (policy (conf s)) mf mx (Read nm) fs"
  shows "\<exists>c' s'. settles 1 (readFile nm) c fd l s
      (status r, if status r = OK then map_option (\<lambda>f. (ccontent f @ [NUL], of_nat (length (ccontent f)))) (lookup_file nm fs) else None)
      c' s' \<and> idle s' (files r) F l \<and> lfiles c' = lfiles c \<and> cerrno c' = err r"
proof -
  let ?req = "request_segments READ_FILE nm 0"
  obtain s' where s': "served fd l (receives s fd ?req) F [] r s'"
    using request_run [of "receives s fd ?req" fs F l fd mf mx "Read nm" "[]"] assms(1-5) by (auto simp: r_def)
  have lim: "mx < 2 ^ 31" using assms(2) by (simp add: ready_def limits_def)
  have small: "length (ccontent f) < 2 ^ 31 \<and> malloc_ok (slibc (csock c)) (of_nat (length (ccontent f)) + 1)"
    if "lookup_file nm fs = Some f" for f
  proof -
    have "length (ccontent f) \<le> content_bytes fs"
      unfolding content_bytes_def using lookup_Some [OF that] by (intro member_le_sum_list) auto
    then show ?thesis using assms(3,6) lim by (simp add: within_def)
  qed
  have "does (readFile nm) (hears c (reply_bytes r))
      (status r, if status r = OK then map_option (\<lambda>f. (ccontent f @ [NUL], of_nat (length (ccontent f)))) (lookup_file nm fs) else None)
      [] ?req (err r)"
    unfolding r_def spec_of.simps
    by (rule readFile_does) (use assms(4) name_len [OF assms(5)] small in auto)
  from settles_once [OF readFile_asks this s'] assms(4) name_len [OF assms(5)] served_idle [OF s'] show ?thesis by blast
qed

end
