(* ===== verification/Client_Session.thy ===== *)
theory Client_Session
  imports Dialogue
begin

text \<open>
  A whole run of the client program: the requests its actions make of the server, the local
  files they leave, and the proof that the code of \<^verbatim>\<open>src/client.c\<close> makes exactly these
  requests when the server answers as the abstract cache does.
\<close>

section \<open>Calls in sequence\<close>

text \<open>
  \<open>acts m c x es segs lf\<close>: the call returns \<open>x\<close> having read up to \<open>es\<close> and sent \<open>segs\<close>, and
  leaves the local files \<open>lf\<close>; what it prints, \<open>errno\<close> and the directories may change.
\<close>

definition acts :: "'a ccmd \<Rightarrow> client \<Rightarrow> 'a \<Rightarrow> rd_event list \<Rightarrow> char list list \<Rightarrow> (string \<rightharpoonup> char list) \<Rightarrow> bool" where
  "acts m c x es segs lf \<longleftrightarrow> (\<exists>out errs e ds. m c =
     (Inr x, (moved c es segs)\<lparr>cout := out, cerr := errs, cerrno := e, lfiles := lf, ldirs := ds\<rparr>))"

text \<open>What the next call finds.\<close>

definition goes_on :: "client \<Rightarrow> rd_event list \<Rightarrow> (string \<rightharpoonup> char list) \<Rightarrow> client \<Rightarrow> bool" where
  "goes_on c es lf c1 \<longleftrightarrow> client_ok c1 = client_ok c \<and> inp (csock c1) = es \<and> lfiles c1 = lf \<and>
     creatable c1 = creatable c \<and> slibc (csock c1) = slibc (csock c)"

lemma acts_next:
  assumes "acts m c x es segs lf"
  shows "\<exists>c1. m c = (Inr x, c1) \<and> goes_on c es lf c1 \<and> outp (csock c1) = outp (csock c) @ segs"
  using assms by (auto simp: acts_def goes_on_def client_ok_def moved_def sends_def)

lemma actsI: "m c = (Inr x, (moved c es segs)\<lparr>cout := out, cerr := errs, cerrno := e, lfiles := lf, ldirs := ds\<rparr>) \<Longrightarrow>
    acts m c x es segs lf"
  unfolding acts_def by blast

lemma acts_bnd:
  assumes "acts m c x es1 segs1 lf1"
    and "\<And>c1. goes_on c es1 lf1 c1 \<Longrightarrow> acts (k x) c1 y es2 segs2 lf2"
  shows "acts (bnd m k) c y es2 (segs1 @ segs2) lf2"
proof -
  obtain out errs e ds where
    m: "m c = (Inr x, (moved c es1 segs1)\<lparr>cout := out, cerr := errs, cerrno := e, lfiles := lf1, ldirs := ds\<rparr>)"
    using assms(1) by (auto simp: acts_def)
  let ?c1 = "(moved c es1 segs1)\<lparr>cout := out, cerr := errs, cerrno := e, lfiles := lf1, ldirs := ds\<rparr>"
  have "goes_on c es1 lf1 ?c1" by (simp add: goes_on_def client_ok_def moved_def sends_def)
  from assms(2) [OF this] obtain out' errs' e' ds' where
    "k x ?c1 = (Inr y, (moved ?c1 es2 segs2)\<lparr>cout := out', cerr := errs', cerrno := e', lfiles := lf2, ldirs := ds'\<rparr>)"
    by (auto simp: acts_def)
  with m show ?thesis
    by (intro actsI [where out = out' and errs = errs' and e = e' and ds = ds']) (simp add: bnd_run moved_def sends_def)
qed

lemma acts_sq:
  assumes "acts m c x es1 segs1 lf1" and "\<And>c1. goes_on c es1 lf1 c1 \<Longrightarrow> acts k c1 y es2 segs2 lf2"
  shows "acts (sq m k) c y es2 (segs1 @ segs2) lf2"
  unfolding sq_def by (rule acts_bnd [of m c x es1 segs1 lf1 "\<lambda>_. k", OF assms])

text \<open>A step that sends and reads nothing.\<close>

lemma acts_silent_bnd:
  assumes "acts m c x (inp (csock c)) [] (lfiles c)"
    and "\<And>c1. goes_on c (inp (csock c)) (lfiles c) c1 \<Longrightarrow> acts (k x) c1 y es segs lf"
  shows "acts (bnd m k) c y es segs lf"
  using acts_bnd [of m c x "inp (csock c)" "[]" "lfiles c" k y es segs lf] assms by simp

lemma acts_silent_sq:
  assumes "acts m c x (inp (csock c)) [] (lfiles c)"
    and "\<And>c1. goes_on c (inp (csock c)) (lfiles c) c1 \<Longrightarrow> acts k c1 y es segs lf"
  shows "acts (sq m k) c y es segs lf"
  unfolding sq_def by (rule acts_silent_bnd [of m c x "\<lambda>_. k", OF assms])

lemma acts_last:
  assumes "acts m c x es segs lf" and "\<And>c1. goes_on c es lf c1 \<Longrightarrow> acts (k x) c1 y es [] lf"
  shows "acts (bnd m k) c y es segs lf"
  using acts_bnd [of m c x es segs lf k y es "[]" lf] assms by simp

lemma acts_ret: "acts (ret x) c x (inp (csock c)) [] (lfiles c)"
  by (rule actsI [where out = "cout c" and errs = "cerr c" and e = "cerrno c" and ds = "ldirs c"])
    (cases c, simp add: moved_def sends_def)

lemma acts_done [simp]:
  assumes "inp (csock c) = es"
  shows "acts (ret x) c x es [] (lfiles c)" and "acts (Pair (Inr x)) c x es [] (lfiles c)"
proof -
  show a: "acts (ret x) c x es [] (lfiles c)" using acts_ret [of x c] assms by simp
  have "ret x = (Pair (Inr x) :: client \<Rightarrow> _)" by (rule ext) simp
  with a show "acts (Pair (Inr x)) c x es [] (lfiles c)" by simp
qed

lemma acts_local: "m c = (Inr x, c\<lparr>cout := out, cerr := errs, cerrno := e, lfiles := lf, ldirs := ds\<rparr>) \<Longrightarrow>
    acts m c x (inp (csock c)) [] lf"
  by (rule actsI [where out = out and errs = errs and e = e and ds = ds]) (simp add: moved_def)

lemma does_acts: "does m c x es segs e \<Longrightarrow> acts m c x es segs (lfiles c)"
  unfolding does_def
  by (elim exE, rule actsI [where ds = "ldirs c"]) (cases c, auto simp: moved_def)

lemma goes_onD:
  assumes "goes_on c es lf c1"
  shows "client_ok c1 = client_ok c" and "inp (csock c1) = es" and "lfiles c1 = lf" and "creatable c1 = creatable c"
    and "slibc (csock c1) = slibc (csock c)"
  using assms by (simp_all add: goes_on_def)

section \<open>The steps of an action\<close>

lemma apiCall_acts: "acts (apiCall r k f n doPrint) c () (inp (csock c)) [] (lfiles c)"
proof -
  have "\<exists>out errs. apiCall r k f n doPrint c = (Inr (), c\<lparr>cout := out, cerr := errs\<rparr>)"
  proof (cases "doPrint \<and> r \<noteq> OK")
    case True
    let ?msg = "c_printf (if k = WRITE then line ''[%s] on %s: %s'' else line ''[%s] on %s : %s'')
              [LS (call_name k), LS (shown f), LS BAD]"
    obtain out where out: "?msg c = (Inr (), c\<lparr>cout := out\<rparr>)" using c_printf_run(1) by blast
    have "apiCall r k f n doPrint c = sq ?msg (print_error (cerrno c)) c"
      using True by (simp add: apiCall_def bnd_run)
    also have "\<dots> = print_error (cerrno c) (c\<lparr>cout := out\<rparr>)" by (simp only: sq_Inr [where m = ?msg, OF out])
    finally show ?thesis using print_error_run [of "c\<lparr>cout := out\<rparr>"] by auto
  next
    case False
    have same: "\<exists>o' e'. c = c\<lparr>cout := o', cerr := e'\<rparr>" "\<exists>o' e'. c\<lparr>cout := out\<rparr> = c\<lparr>cout := o', cerr := e'\<rparr>" for out
      by (rule exI [of _ "cout c"], rule exI [of _ "cerr c"], cases c, simp,
          rule exI [of _ out], rule exI [of _ "cerr c"], cases c, simp)
    show ?thesis using False by (cases k) (auto simp: apiCall_def bnd_run intro: same)
  qed
  then obtain out errs where "apiCall r k f n doPrint c = (Inr (), c\<lparr>cout := out, cerr := errs\<rparr>)" by blast
  then show ?thesis
    by (intro acts_local [where out = out and errs = errs and e = "cerrno c" and ds = "ldirs c"]) (cases c, simp)
qed

lemma file_size_acts: "lfiles c p = Some bs \<Longrightarrow> acts (file_size p) c (int (length bs)) (inp (csock c)) [] (lfiles c)"
  using acts_ret [of "int (length bs)" c] by (simp add: acts_def file_size_run)

lemma real_name_acts: "length (realpath v nm) < 256 \<Longrightarrow> acts (real_name v nm) c (realpath v nm) (inp (csock c)) [] (lfiles c)"
  using acts_ret [of "realpath v nm" c] by (simp add: real_name_def)

text \<open>Opening, creating and removing send their request and take the answer.\<close>

lemma openFile_acts:
  assumes "client_ok c" and "name_ok p" and "inp (csock c) = map Data (reply_bytes (spec_of pol mf mx r fs)) @ es"
    and "r = Create p \<and> flgs = O_CREATE \<or> r = Open p \<and> flgs = 0"
  shows "acts (openFile p flgs) c (status (spec_of pol mf mx r fs)) es (request_bytes mx r fs) (lfiles c)"
proof -
  let ?r = "spec_of pol mf mx r fs"
  have a: "answer_of (status ?r) (err ?r) = status ?r" "wire ?r = []"
    using assms(4) by (cases "has_file p fs"; auto simp: spec_create_def spec_open_def answer_of_def)+
  have "does (openFile p flgs) c (answer_of (status ?r) (err ?r)) es (request_segments OPEN_FILE p flgs) (err ?r)"
    by (rule openFile_does) (use assms(1-3) a name_len in \<open>simp_all add: reply_bytes_def\<close>)
  with a assms(4) show ?thesis using does_acts by fastforce
qed

lemma removeFile_acts:
  assumes "client_ok c" and "name_ok p" and "inp (csock c) = map Data (reply_bytes (spec_of pol mf mx (Remove p) fs)) @ es"
  shows "acts (removeFile (Some p)) c (status (spec_of pol mf mx (Remove p) fs)) es (request_bytes mx (Remove p) fs) (lfiles c)"
proof -
  let ?r = "spec_of pol mf mx (Remove p) fs"
  have a: "answer_of (status ?r) (err ?r) = status ?r" "wire ?r = []"
    by (auto simp: spec_remove_def answer_of_def)
  have "does (removeFile (Some p)) c (answer_of (status ?r) (err ?r)) es (request_segments REMOVE_FILE p 0) (err ?r)"
    by (rule removeFile_does) (use assms a name_len in \<open>simp_all add: reply_bytes_def\<close>)
  with a show ?thesis using does_acts by fastforce
qed

text \<open>What a read brings: the content of a file that is there and open.\<close>

definition got :: "string \<Rightarrow> cfile list \<Rightarrow> char list option" where
  "got p fs = (case lookup_file p fs of None \<Rightarrow> None | Some f \<Rightarrow> if copen f then Some (ccontent f) else None)"

definition roomy :: "client \<Rightarrow> nat \<Rightarrow> bool" where
  "roomy c mx \<longleftrightarrow> (\<forall>n \<le> mx. malloc_ok (slibc (csock c)) (of_nat n + 1))"

lemma content_le: "f \<in> set fs \<Longrightarrow> length (ccontent f) \<le> content_bytes fs"
  unfolding content_bytes_def by (intro member_le_sum_list) auto

lemma readFile_acts:
  assumes "client_ok c" and "name_ok p" and "within mf mx fs" and "mx < 2 ^ 31" and "roomy c mx"
    and "inp (csock c) = map Data (reply_bytes (spec_of pol mf mx (Read p) fs)) @ es"
  shows "acts (readFile p) c (status (spec_of pol mf mx (Read p) fs),
      map_option (\<lambda>bs. (bs @ [NUL], of_nat (length bs))) (got p fs)) es (request_bytes mx (Read p) fs) (lfiles c)"
proof -
  have small: "length (ccontent f) < 2 ^ 31 \<and> malloc_ok (slibc (csock c)) (of_nat (length (ccontent f)) + 1)"
    if "lookup_file p fs = Some f" for f
  proof -
    have "length (ccontent f) \<le> mx" using content_le [of f fs] lookup_Some [OF that] assms(3) by (simp add: within_def)
    then show ?thesis using assms(4,5) by (simp add: roomy_def)
  qed
  have g: "(if status (spec_read pol p fs) = OK
      then map_option (\<lambda>f. (ccontent f @ [NUL], of_nat (length (ccontent f)) :: u64)) (lookup_file p fs) else None) =
      map_option (\<lambda>bs. (bs @ [NUL], of_nat (length bs))) (got p fs)"
    by (auto simp: got_def spec_read_def split: option.split)
  have "does (readFile p) c (status (spec_read pol p fs), map_option (\<lambda>bs. (bs @ [NUL], of_nat (length bs))) (got p fs))
      es (request_segments READ_FILE p 0) (err (spec_read pol p fs))"
    unfolding g [symmetric] by (rule readFile_does) (use assms(1,6) name_len [OF assms(2)] small in auto)
  then show ?thesis using does_acts by fastforce
qed

section \<open>Sending files\<close>

definition uploads :: "(string \<rightharpoonup> char list) \<Rightarrow> string list \<Rightarrow> request list" where
  "uploads lf ps = concat (map (\<lambda>p. [Create p, Write p (the (lf p))]) ps)"

lemma uploads_simps [simp]: "uploads lf [] = []" "uploads lf (p # ps) = Create p # Write p (the (lf p)) # uploads lf ps"
  by (simp_all add: uploads_def)

text \<open>
  A local file that can be sent: not empty (an empty one is not sent at all) and not of
  exactly the server's limit.
\<close>

definition sendable :: "nat \<Rightarrow> (string \<rightharpoonup> char list) \<Rightarrow> string \<Rightarrow> bool" where
  "sendable mx lf p \<longleftrightarrow> name_ok p \<and> (case lf p of None \<Rightarrow> False | Some bs \<Rightarrow> bs \<noteq> [] \<and> length bs < 2 ^ 31 \<and> length bs \<noteq> mx)"

lemma create_and_write_acts:
  assumes "client_ok c" and "sendable mx (lfiles c) p"
    and "inp (csock c) = map Data (replies pol mf mx [Create p, Write p (the (lfiles c p))] fs) @ es"
  shows "acts (create_and_write doPrint p) c () es (stream pol mf mx [Create p, Write p (the (lfiles c p))] fs) (lfiles c)"
proof -
  obtain bs where bs: "lfiles c p = Some bs" "bs \<noteq> []" "length bs < 2 ^ 31" and nm: "name_ok p"
    using assms(2) by (auto simp: sendable_def split: option.splits)
  let ?r = "spec_of pol mf mx (Create p) fs"
  let ?w = "spec_of pol mf mx (Write p bs) (files ?r)"
  let ?es1 = "map Data (reply_bytes ?w) @ es"
  have "acts (create_and_write doPrint p) c () es
      (request_bytes mx (Create p) fs @ request_bytes mx (Write p bs) (files ?r)) (lfiles c)"
    unfolding create_and_write_def
  proof (rule acts_bnd [where ?es1.0 = ?es1 and ?lf1.0 = "lfiles c"])
    show "acts (openFile p O_CREATE) c (status ?r) ?es1 (request_bytes mx (Create p) fs) (lfiles c)"
      by (rule openFile_acts) (use assms(1,3) nm bs(1) in simp_all)
    fix c1 assume "goes_on c ?es1 (lfiles c) c1"
    note c1 = goes_onD [OF this]
    show "acts (sq (apiCall (status ?r) OPEN (Some p) 0 doPrint) (bnd (writeFile p) (\<lambda>err. bnd (file_size p)
        (\<lambda>n. apiCall err WRITE (Some p) n doPrint)))) c1 () es (request_bytes mx (Write p bs) (files ?r)) (lfiles c)"
    proof (rule acts_silent_sq [OF apiCall_acts], rule acts_last)
      fix c2 assume "goes_on c1 (inp (csock c1)) (lfiles c1) c2"
      note c2 = goes_onD [OF this]
      have "does (writeFile p) c2 (status ?w) es (request_bytes mx (Write p bs) (files ?r)) (err ?w)"
        unfolding spec_of.simps request_bytes.simps
        by (rule writeFile_does) (use assms(1) c1 c2 bs nm name_len in \<open>simp_all add: reply_bytes_def\<close>)
      from does_acts [OF this] show "acts (writeFile p) c2 (status ?w) es (request_bytes mx (Write p bs) (files ?r)) (lfiles c)"
        using c1 c2 by simp
      fix c3 assume "goes_on c2 es (lfiles c) c3"
      note c3 = goes_onD [OF this]
      have "acts (bnd (file_size p) (\<lambda>n. apiCall (status ?w) WRITE (Some p) n doPrint)) c3 () (inp (csock c3)) [] (lfiles c3)"
        by (rule acts_silent_bnd [OF file_size_acts [where bs = bs]])
          (use c3 bs(1) goes_onD apiCall_acts in \<open>simp, metis\<close>)
      with c3 show "acts (bnd (file_size p) (\<lambda>n. apiCall (status ?w) WRITE (Some p) n doPrint)) c3 () es [] (lfiles c)" by simp
    qed
  qed
  with bs(1) show ?thesis by simp
qed

section \<open>The actions\<close>

lemma replies_inp:
  "inp k = map Data (replies pol mf mx (rs @ rs2) fs) @ es \<Longrightarrow>
    inp k = map Data (replies pol mf mx rs fs) @ map Data (replies pol mf mx rs2 (spec_run pol mf mx rs fs)) @ es"
  by simp

lemma act_W_acts:
  assumes "client_ok c" and "\<forall>nm \<in> set nms. sendable mx (lfiles c) (realpath v nm)"
    and "inp (csock c) = map Data (replies pol mf mx (uploads (lfiles c) (map (realpath v) nms)) fs) @ es"
  shows "acts (act_W v doPrint nms) c () es (stream pol mf mx (uploads (lfiles c) (map (realpath v) nms)) fs) (lfiles c)"
  using assms
proof (induction nms arbitrary: c fs)
  case Nil
  then show ?case by simp
next
  case (Cons nm nms)
  let ?p = "realpath v nm" and ?lf = "lfiles c"
  let ?up = "[Create ?p, Write ?p (the (?lf ?p))]" and ?rest = "uploads ?lf (map (realpath v) nms)"
  let ?gs = "spec_run pol mf mx ?up fs"
  let ?es1 = "map Data (replies pol mf mx ?rest ?gs) @ es"
  have send: "sendable mx ?lf ?p" using Cons.prems(2) by simp
  have len: "length ?p < 256" using send by (simp add: sendable_def name_ok_def)
  have "acts (act_W v doPrint (nm # nms)) c () es (stream pol mf mx ?up fs @ stream pol mf mx ?rest ?gs) ?lf"
    unfolding act_W.simps
  proof (rule acts_silent_bnd [OF real_name_acts [OF len]], rule acts_sq)
    fix c1 assume "goes_on c (inp (csock c)) ?lf c1"
    note c1 = goes_onD [OF this]
    have "acts (create_and_write doPrint ?p) c1 () ?es1 (stream pol mf mx [Create ?p, Write ?p (the (lfiles c1 ?p))] fs) (lfiles c1)"
      by (rule create_and_write_acts [where mx = mx]) (use Cons.prems c1 send in simp_all)
    then show "acts (create_and_write doPrint ?p) c1 () ?es1 (stream pol mf mx ?up fs) ?lf" by (simp only: c1)
    fix c2 assume "goes_on c1 ?es1 ?lf c2"
    note c2 = goes_onD [OF this]
    show "acts (act_W v doPrint nms) c2 () es (stream pol mf mx ?rest ?gs) ?lf"
      using Cons.IH [of c2 ?gs] Cons.prems c1 c2 by (simp only: c2) simp
  qed
  then show ?case by simp
qed

lemma send_files_acts:
  assumes "client_ok c" and "\<forall>p \<in> set (take k ps). sendable mx (lfiles c) p"
    and "inp (csock c) = map Data (replies pol mf mx (uploads (lfiles c) (take k ps)) fs) @ es"
  shows "acts (send_files doPrint k ps) c () es (stream pol mf mx (uploads (lfiles c) (take k ps)) fs) (lfiles c)"
  using assms
proof (induction doPrint k ps arbitrary: c fs rule: send_files.induct)
  case (3 doPrint k p ps)
  let ?lf = "lfiles c"
  let ?up = "[Create p, Write p (the (?lf p))]" and ?rest = "uploads ?lf (take k ps)"
  let ?gs = "spec_run pol mf mx ?up fs"
  let ?es1 = "map Data (replies pol mf mx ?rest ?gs) @ es"
  have send: "sendable mx ?lf p" using "3.prems"(2) by simp
  then obtain bs where bs: "?lf p = Some bs" by (auto simp: sendable_def split: option.splits)
  have "acts (send_files doPrint (Suc k) (p # ps)) c () es (stream pol mf mx ?up fs @ stream pol mf mx ?rest ?gs) ?lf"
    unfolding send_files.simps
  proof (rule acts_silent_bnd [OF file_size_acts [OF bs]])
    fix c1 assume "goes_on c (inp (csock c)) ?lf c1"
    note c1 = goes_onD [OF this]
    have "acts (sq (create_and_write doPrint p) (send_files doPrint k ps)) c1 () es
        (stream pol mf mx ?up fs @ stream pol mf mx ?rest ?gs) ?lf"
    proof (rule acts_sq)
      have "acts (create_and_write doPrint p) c1 () ?es1 (stream pol mf mx [Create p, Write p (the (lfiles c1 p))] fs) (lfiles c1)"
        by (rule create_and_write_acts [where mx = mx]) (use "3.prems" c1 send in simp_all)
      then show "acts (create_and_write doPrint p) c1 () ?es1 (stream pol mf mx ?up fs) ?lf" by (simp only: c1)
      fix c2 assume "goes_on c1 ?es1 ?lf c2"
      note c2 = goes_onD [OF this]
      show "acts (send_files doPrint k ps) c2 () es (stream pol mf mx ?rest ?gs) ?lf"
        using "3.IH" [of "int (length bs)" c2 ?gs] "3.prems" c1 c2 by (simp only: c2) simp
    qed
    then show "acts (if int (length bs) = -1 then ret () else sq (create_and_write doPrint p) (send_files doPrint k ps)) c1 () es
        (stream pol mf mx ?up fs @ stream pol mf mx ?rest ?gs) ?lf" by simp
  qed
  then show ?case by simp
qed simp_all

definition removals :: "string list \<Rightarrow> request list" where
  "removals ps = map Remove ps"

lemma act_c_acts:
  assumes "client_ok c" and "\<forall>nm \<in> set nms. name_ok (realpath v nm)"
    and "inp (csock c) = map Data (replies pol mf mx (removals (map (realpath v) nms)) fs) @ es"
  shows "acts (act_c v doPrint nms) c () es (stream pol mf mx (removals (map (realpath v) nms)) fs) (lfiles c)"
  using assms
proof (induction nms arbitrary: c fs)
  case Nil
  then show ?case by (simp add: removals_def)
next
  case (Cons nm nms)
  let ?p = "realpath v nm" and ?lf = "lfiles c" and ?rest = "removals (map (realpath v) nms)"
  let ?r = "spec_of pol mf mx (Remove ?p) fs"
  let ?es1 = "map Data (replies pol mf mx ?rest (files ?r)) @ es"
  have nm: "name_ok ?p" "length ?p < 256" using Cons.prems(2) by (simp_all add: name_ok_def)
  have "acts (act_c v doPrint (nm # nms)) c () es (request_bytes mx (Remove ?p) fs @ stream pol mf mx ?rest (files ?r)) ?lf"
    unfolding act_c.simps
  proof (rule acts_silent_bnd [OF real_name_acts [OF nm(2)]], rule acts_bnd)
    fix c1 assume "goes_on c (inp (csock c)) ?lf c1"
    note c1 = goes_onD [OF this]
    have "acts (removeFile (Some ?p)) c1 (status ?r) ?es1 (request_bytes mx (Remove ?p) fs) (lfiles c1)"
      by (rule removeFile_acts) (use Cons.prems c1 nm in \<open>simp_all add: removals_def\<close>)
    then show "acts (removeFile (Some ?p)) c1 (status ?r) ?es1 (request_bytes mx (Remove ?p) fs) ?lf" by (simp only: c1)
    fix c2 assume "goes_on c1 ?es1 ?lf c2"
    note c2 = goes_onD [OF this]
    show "acts (sq (apiCall (status ?r) REMOVE (Some ?p) 0 doPrint) (act_c v doPrint nms)) c2 () es
        (stream pol mf mx ?rest (files ?r)) ?lf"
    proof (rule acts_silent_sq [OF apiCall_acts])
      fix c3 assume "goes_on c2 (inp (csock c2)) (lfiles c2) c3"
      note c3 = goes_onD [OF this]
      show "acts (act_c v doPrint nms) c3 () es (stream pol mf mx ?rest (files ?r)) ?lf"
        using Cons.IH [of c3 "files ?r"] Cons.prems c1 c2 c3 by (simp only: c2 c3) simp
    qed
  qed
  then show ?case by (simp add: removals_def)
qed

section \<open>Fetching files\<close>

definition downloads :: "env \<Rightarrow> string list \<Rightarrow> request list" where
  "downloads v nms = concat (map (\<lambda>nm. [Open nm, Read (realpath v nm)]) nms)"

lemma downloads_simps [simp]: "downloads v [] = []"
  "downloads v (nm # nms) = [Open nm, Read (realpath v nm)] @ downloads v nms"
  by (simp_all add: downloads_def)

text \<open>A local file written from its start: what it held beyond stays.\<close>

definition overwritten :: "string \<Rightarrow> char list \<Rightarrow> (string \<rightharpoonup> char list) \<Rightarrow> (string \<rightharpoonup> char list)" where
  "overwritten p bs lf = lf(p \<mapsto> bs @ drop (length bs) (case lf p of None \<Rightarrow> [] | Some old \<Rightarrow> old))"

fun fetched :: "cache_policy_t \<Rightarrow> env \<Rightarrow> string option \<Rightarrow> string list \<Rightarrow> cfile list \<Rightarrow> (string \<rightharpoonup> char list) \<Rightarrow>
    (string \<rightharpoonup> char list)" where
  "fetched pol v dir [] fs lf = lf"
| "fetched pol v dir (nm # nms) fs lf =
     (let gs = files (spec_open pol nm fs) in
      fetched pol v dir nms (files (spec_read pol (realpath v nm) gs))
        (case (dir, got (realpath v nm) gs) of
           (Some d, Some bs) \<Rightarrow> overwritten (d @ ''/'' @ nm) bs lf
         | _ \<Rightarrow> lf))"

definition fetchable :: "env \<Rightarrow> string option \<Rightarrow> string \<Rightarrow> bool" where
  "fetchable v dir nm \<longleftrightarrow> name_ok nm \<and> name_ok (realpath v nm) \<and>
     (case dir of None \<Rightarrow> True | Some d \<Rightarrow> length (d @ ''/'' @ nm) < 256)"

definition writes_anywhere :: "client \<Rightarrow> bool" where
  "writes_anywhere c \<longleftrightarrow> (\<forall>p. creatable c p)"

lemma got_small:
  assumes "got p fs = Some bs" and "within mf mx fs"
  shows "length bs \<le> mx"
proof -
  obtain f where "lookup_file p fs = Some f" "bs = ccontent f"
    using assms(1) by (auto simp: got_def split: option.splits if_splits)
  then show ?thesis using content_le [of f fs] lookup_Some [of p fs f] assms(2) by (simp add: within_def)
qed

lemma store_local_acts:
  assumes "writes_anywhere c" and "length bs < 2 ^ 63"
  shows "acts (store_local p (bs @ [NUL]) (of_nat (length bs))) c True (inp (csock c)) [] (overwritten p bs (lfiles c))"
  using store_local_run [of c p bs] assms
  by (intro acts_local [where out = "cout c" and errs = "cerr c" and e = "cerrno c" and ds = "ldirs c"])
    (cases c, simp add: writes_anywhere_def overwritten_def)

text \<open>What follows a read: the content is stored under the directory of \<open>-d\<close>, when there is one.\<close>

definition fetched_one :: "string option \<Rightarrow> string \<Rightarrow> char list option \<Rightarrow> (string \<rightharpoonup> char list) \<Rightarrow> (string \<rightharpoonup> char list)" where
  "fetched_one dir nm content lf =
     (case (dir, content) of (Some d, Some bs) \<Rightarrow> overwritten (d @ ''/'' @ nm) bs lf | _ \<Rightarrow> lf)"

definition store_read :: "string option \<Rightarrow> string \<Rightarrow> (char list \<times> u64) option \<Rightarrow> unit ccmd \<Rightarrow> unit ccmd" where
  "store_read dir nm file k =
     (case (dir, file) of
        (Some d, Some (buf, sz)) \<Rightarrow>
          if length (d @ ''/'' @ nm) \<ge> 256 then stop Out_of_bounds
          else bnd (store_local (d @ ''/'' @ nm) buf sz) (\<lambda>ok. if ok then k else ret ())
      | _ \<Rightarrow> k)"

lemma store_read_acts:
  assumes "writes_anywhere c" and "fetchable v dir nm" and "\<And>bs. content = Some bs \<Longrightarrow> length bs < 2 ^ 63"
    and "\<And>c'. goes_on c (inp (csock c)) (fetched_one dir nm content (lfiles c)) c' \<Longrightarrow> acts k c' () es segs lf"
  shows "acts (store_read dir nm (map_option (\<lambda>bs. (bs @ [NUL], of_nat (length bs))) content) k) c () es segs lf"
proof (cases "\<exists>d bs. dir = Some d \<and> content = Some bs")
  case False
  have "goes_on c (inp (csock c)) (lfiles c) c" by (simp add: goes_on_def)
  with False assms(4) [of c] show ?thesis by (cases dir; cases content) (simp_all add: fetched_one_def store_read_def)
next
  case True
  then obtain d bs where d: "dir = Some d" "content = Some bs" by blast
  have "acts (bnd (store_local (d @ ''/'' @ nm) (bs @ [NUL]) (of_nat (length bs))) (\<lambda>ok. if ok then k else ret ()))
      c () es ([] @ segs) lf"
    by (rule acts_bnd [OF store_local_acts]) (use assms d in \<open>simp_all add: fetched_one_def\<close>)
  with d assms(2) show ?thesis by (simp add: fetchable_def store_read_def)
qed

lemma fetched_Cons: "fetched pol v dir (nm # nms) fs lf =
    fetched pol v dir nms (spec_run pol mf mx [Open nm, Read (realpath v nm)] fs)
      (fetched_one dir nm (got (realpath v nm) (files (spec_of pol mf mx (Open nm) fs))) lf)"
  by (simp add: Let_def fetched_one_def)

text \<open>One name: it is opened and read, and what came is stored.\<close>

definition fetch_one :: "env \<Rightarrow> bool \<Rightarrow> string option \<Rightarrow> string \<Rightarrow> unit ccmd \<Rightarrow> unit ccmd" where
  "fetch_one v doPrint dir nm k =
     bnd (openFile nm 0) (\<lambda>er.
     sq (apiCall er OPEN (Some (realpath v nm)) 0 doPrint)
     (bnd (readFile (realpath v nm)) (\<lambda>(er, file).
      sq (apiCall er READ (Some (realpath v nm)) 0 doPrint)
      (store_read dir nm file k))))"

lemma fetch_one_acts:
  assumes "client_ok c" and "roomy c mx" and "writes_anywhere c" and "sound mf mx fs" and "1 < mf" and "mx < 2 ^ 31"
    and "fetchable v dir nm"
    and "inp (csock c) = map Data (replies pol mf mx [Open nm, Read (realpath v nm)] fs) @ es1"
    and k: "\<And>c'. goes_on c es1 (fetched_one dir nm (got (realpath v nm) (files (spec_of pol mf mx (Open nm) fs))) (lfiles c)) c' \<Longrightarrow>
      acts k c' () es segs lf"
  shows "acts (fetch_one v doPrint dir nm k) c () es (stream pol mf mx [Open nm, Read (realpath v nm)] fs @ segs) lf"
proof -
  let ?p = "realpath v nm" and ?lf = "lfiles c" and ?o = "spec_of pol mf mx (Open nm) fs"
  let ?r = "spec_of pol mf mx (Read ?p) (files ?o)" and ?got = "got ?p (files ?o)"
  let ?es2 = "map Data (reply_bytes ?r) @ es1"
  have nm: "name_ok nm" "name_ok ?p" using assms(7) by (simp_all add: fetchable_def)
  have g: "sound mf mx (files ?o)" by (rule sound_request [OF assms(4,5)]) (use nm in simp)
  have small: "length bs < 2 ^ 63" if "?got = Some bs" for bs
    using got_small [OF that] g assms(6) by (fastforce simp: sound_def)
  have "acts (fetch_one v doPrint dir nm k) c () es (request_bytes mx (Open nm) fs @ request_bytes mx (Read ?p) (files ?o) @ segs) lf"
    unfolding fetch_one_def
  proof (rule acts_bnd)
    show "acts (openFile nm 0) c (status ?o) ?es2 (request_bytes mx (Open nm) fs) ?lf"
      by (rule openFile_acts) (use assms(1,8) nm in simp_all)
    fix c2 assume "goes_on c ?es2 ?lf c2"
    note c2 = goes_onD [OF this]
    show "acts (sq (apiCall (status ?o) OPEN (Some ?p) 0 doPrint) (bnd (readFile ?p) (\<lambda>(er, file).
        sq (apiCall er READ (Some ?p) 0 doPrint) (store_read dir nm file k)))) c2 () es
        (request_bytes mx (Read ?p) (files ?o) @ segs) lf"
    proof (rule acts_silent_sq [OF apiCall_acts], rule acts_bnd)
      fix c3 assume "goes_on c2 (inp (csock c2)) (lfiles c2) c3"
      note c3 = goes_onD [OF this]
      have "acts (readFile ?p) c3 (status ?r, map_option (\<lambda>bs. (bs @ [NUL], of_nat (length bs))) ?got)
          es1 (request_bytes mx (Read ?p) (files ?o)) (lfiles c3)"
        by (rule readFile_acts [where mf = mf]) (use assms c2 c3 nm g in \<open>simp_all add: sound_def roomy_def\<close>)
      then show "acts (readFile ?p) c3 (status ?r, map_option (\<lambda>bs. (bs @ [NUL], of_nat (length bs))) ?got)
          es1 (request_bytes mx (Read ?p) (files ?o)) ?lf" by (simp only: c2 c3)
      fix c4 assume "goes_on c3 es1 ?lf c4"
      note c4 = goes_onD [OF this]
      show "acts (case (status ?r, map_option (\<lambda>bs. (bs @ [NUL], of_nat (length bs))) ?got) of (er, file) \<Rightarrow>
          sq (apiCall er READ (Some ?p) 0 doPrint) (store_read dir nm file k)) c4 () es segs lf"
        unfolding prod.case
      proof (rule acts_silent_sq [OF apiCall_acts], rule store_read_acts [OF _ assms(7) small])
        fix c5 assume "goes_on c4 (inp (csock c4)) (lfiles c4) c5"
        note c5 = goes_onD [OF this]
        show "writes_anywhere c5" using assms(3) c2 c3 c4 c5 by (simp add: writes_anywhere_def)
        fix c' assume "goes_on c5 (inp (csock c5)) (fetched_one dir nm ?got (lfiles c5)) c'"
        then show "acts k c' () es segs lf" using c2 c3 c4 c5 by (intro k) (simp add: goes_on_def)
      qed
    qed
  qed
  then show ?thesis by simp
qed

lemma act_r_acts:
  assumes "client_ok c" and "roomy c mx" and "writes_anywhere c" and "sound mf mx fs" and "1 < mf" and "mx < 2 ^ 31"
    and "\<forall>nm \<in> set nms. fetchable v dir nm"
    and "inp (csock c) = map Data (replies pol mf mx (downloads v nms) fs) @ es"
  shows "acts (act_r v doPrint dir nms) c () es (stream pol mf mx (downloads v nms) fs) (fetched pol v dir nms fs (lfiles c))"
  using assms
proof (induction nms arbitrary: c fs)
  case (Cons nm nms)
  let ?two = "[Open nm, Read (realpath v nm)]"
  let ?hs = "spec_run pol mf mx ?two fs"
  have nm: "fetchable v dir nm" "length (realpath v nm) < 256" "requests_ok pol mf mx ?two fs"
    using Cons.prems(7) by (simp_all add: fetchable_def name_ok_def)
  have h: "sound mf mx ?hs" by (rule sound_run [OF Cons.prems(4,5) nm(3)])
  have "acts (fetch_one v doPrint dir nm (act_r v doPrint dir nms)) c1 () es
      (stream pol mf mx ?two fs @ stream pol mf mx (downloads v nms) ?hs) (fetched pol v dir (nm # nms) fs (lfiles c))"
    if "goes_on c (inp (csock c)) (lfiles c) c1" for c1
  proof -
    note c1 = goes_onD [OF that]
    show ?thesis
      unfolding fetched_Cons [where mf = mf and mx = mx]
    proof (rule fetch_one_acts [OF _ _ _ Cons.prems(4-6) nm(1)])
      show "inp (csock c1) = map Data (replies pol mf mx ?two fs) @ map Data (replies pol mf mx (downloads v nms) ?hs) @ es"
        using Cons.prems(8) unfolding downloads_simps run_append map_append append_assoc c1(2) .
      fix c' assume "goes_on c1 (map Data (replies pol mf mx (downloads v nms) ?hs) @ es)
        (fetched_one dir nm (got (realpath v nm) (files (spec_of pol mf mx (Open nm) fs))) (lfiles c1)) c'"
      note c' = goes_onD [OF this]
      have "acts (act_r v doPrint dir nms) c' () es (stream pol mf mx (downloads v nms) ?hs)
          (fetched pol v dir nms ?hs (lfiles c'))"
        by (rule Cons.IH) (use Cons.prems c1 c' h in \<open>simp_all add: roomy_def writes_anywhere_def\<close>)
      then show "acts (act_r v doPrint dir nms) c' () es (stream pol mf mx (downloads v nms) ?hs) (fetched pol v dir nms ?hs
          (fetched_one dir nm (got (realpath v nm) (files (spec_of pol mf mx (Open nm) fs))) (lfiles c)))"
        by (simp only: c' c1)
    qed (use Cons.prems c1 in \<open>simp_all add: roomy_def writes_anywhere_def\<close>)
  qed
  then have "acts (act_r v doPrint dir (nm # nms)) c () es
      (stream pol mf mx ?two fs @ stream pol mf mx (downloads v nms) ?hs) (fetched pol v dir (nm # nms) fs (lfiles c))"
    unfolding act_r.simps fetch_one_def store_read_def by (rule acts_silent_bnd [OF real_name_acts [OF nm(2)]])
  then show ?case by (simp only: downloads_simps run_append)
qed simp

end
