(* ===== verification/Client_Program.thy ===== *)
theory Client_Program
  imports Client_Session
begin

text \<open>
  The client program as a list of actions: the requests they make in order, and the run of
  \<^verbatim>\<open>main\<close> from the command line to the closing of the connection.
\<close>

section \<open>What an action asks for\<close>

definition action_names :: "action \<Rightarrow> string list" where
  "action_names a = (case aargs a of None \<Rightarrow> [] | Some nms \<Rightarrow> nms)"

definition target :: "action option \<Rightarrow> string option" where
  "target dirToWrite = (case dirToWrite of None \<Rightarrow> None | Some d \<Rightarrow> singleArg d)"

text \<open>The files of a directory that \<open>-w\<close> sends: the first \<open>n\<close> of them, none when \<open>n\<close> is 0.\<close>

definition walk :: "env \<Rightarrow> action \<Rightarrow> fault + string list" where
  "walk v a = (case singleArg a of None \<Rightarrow> Inl Null_deref | Some d \<Rightarrow> visitDir (depth v) (realpath v) (readdir v) d [])"

definition to_send :: "env \<Rightarrow> action \<Rightarrow> string list" where
  "to_send v a = (case walk v a of Inl e \<Rightarrow> [] | Inr ps \<Rightarrow> take (nat (sint (an a))) ps)"

definition action_requests :: "env \<Rightarrow> (string \<rightharpoonup> char list) \<Rightarrow> action \<Rightarrow> request list" where
  "action_requests v lf a =
     (if aop a = CHR ''w'' then uploads lf (to_send v a)
      else if aop a = CHR ''W'' then uploads lf (map (realpath v) (action_names a))
      else if aop a = CHR ''r'' then downloads v (action_names a)
      else if aop a = CHR ''c'' then removals (map (realpath v) (action_names a))
      else if aop a = CHR ''R'' then [ReadN (asked (an a))]
      else [])"

text \<open>The local files after it: reading stores files when there is a directory to store them in.\<close>

definition action_files :: "cache_policy_t \<Rightarrow> env \<Rightarrow> action option \<Rightarrow> action \<Rightarrow> cfile list \<Rightarrow> (string \<rightharpoonup> char list) \<Rightarrow>
    (string \<rightharpoonup> char list)" where
  "action_files pol v dir a fs lf =
     (if aop a = CHR ''r'' then fetched pol v (target dir) (action_names a) fs lf
      else if aop a = CHR ''R'' then stored (target dir) 0 (take (readn_count (asked (an a)) (length fs)) fs) lf
      else lf)"

text \<open>
  What an action needs: an argument of its kind, names that fit, files that can be sent, a
  directory that can be opened for \<open>-w\<close>, \<open>-d\<close> and a server that is not empty for \<open>-R\<close>.
\<close>

definition action_ok :: "env \<Rightarrow> nat \<Rightarrow> action option \<Rightarrow> action \<Rightarrow> cfile list \<Rightarrow> (string \<rightharpoonup> char list) \<Rightarrow> bool" where
  "action_ok v mx dir a fs lf \<longleftrightarrow>
     (if aop a = CHR ''w'' then
        (case singleArg a of None \<Rightarrow> False | Some d \<Rightarrow> opendir v d) \<and>
        (case walk v a of Inl e \<Rightarrow> False | Inr ps \<Rightarrow> True) \<and> (\<forall>p \<in> set (to_send v a). sendable mx lf p)
      else if aop a = CHR ''W'' then aargs a \<noteq> None \<and> (\<forall>nm \<in> set (action_names a). sendable mx lf (realpath v nm))
      else if aop a = CHR ''r'' then aargs a \<noteq> None \<and> (\<forall>nm \<in> set (action_names a). fetchable v (target dir) nm)
      else if aop a = CHR ''c'' then aargs a \<noteq> None \<and> (\<forall>nm \<in> set (action_names a). name_ok (realpath v nm))
      else if aop a = CHR ''R'' then dir \<noteq> None \<and> fs \<noteq> [] \<and>
        (case target dir of None \<Rightarrow> True | Some d \<Rightarrow> \<forall>j < length fs. length (readn_name d j) < 256)
      else True)"

section \<open>One action\<close>

lemma uploads_ok: "\<forall>p \<in> set ps. sendable mx lf p \<Longrightarrow> requests_ok pol mf mx (uploads lf ps) fs"
  by (induction ps arbitrary: fs) (auto simp: sendable_def split: option.splits)

lemma downloads_ok: "\<forall>nm \<in> set nms. fetchable v dir nm \<Longrightarrow> requests_ok pol mf mx (downloads v nms) fs"
  by (induction nms arbitrary: fs) (auto simp: fetchable_def)

lemma removals_ok: "\<forall>p \<in> set ps. name_ok p \<Longrightarrow> requests_ok pol mf mx (removals ps) fs"
  by (induction ps arbitrary: fs) (auto simp: removals_def)

lemma action_requests_ok: "action_ok v mx dir a fs lf \<Longrightarrow> requests_ok pol mf mx (action_requests v lf a) fs"
  by (auto simp: action_ok_def action_requests_def intro!: uploads_ok downloads_ok removals_ok)


lemma act_R_acts:
  assumes "client_ok c" and "roomy c mx" and "writes_anywhere c" and "within mf mx fs" and "mf < 2 ^ 31" and "mx < 2 ^ 31"
    and "dir \<noteq> None" and "fs \<noteq> []" and "case target dir of None \<Rightarrow> True | Some d \<Rightarrow> \<forall>j < length fs. length (readn_name d j) < 256"
    and "inp (csock c) = map Data (reply_bytes (spec_readn (asked N) fs)) @ es"
  shows "acts (act_R doPrint dir N) c () es (request_segments READN_FILE ''readNString'' (asked N))
    (stored (target dir) 0 (take (readn_count (asked N) (length fs)) fs) (lfiles c))"
proof -
  obtain d where d: "dir = Some d" using assms(7) by blast
  have small: "\<forall>f \<in> set fs. length (ccontent f) < 2 ^ 31 \<and> malloc_ok (slibc (csock c)) (of_nat (length (ccontent f)) + 1)"
  proof
    fix f assume "f \<in> set fs"
    then have "length (ccontent f) \<le> mx" using content_le assms(4) by (fastforce simp: within_def)
    then show "length (ccontent f) < 2 ^ 31 \<and> malloc_ok (slibc (csock c)) (of_nat (length (ccontent f)) + 1)"
      using assms(2,6) by (simp add: roomy_def)
  qed
  have len: "length fs < 2 ^ 31" using assms(4,5) by (simp add: within_def)
  have creat: "creatable c (readn_name p j) \<and> length (readn_name p j) < 256" if "target dir = Some p" "j < length fs" for p j
    using assms(3,9) that by (simp add: writes_anywhere_def)
  obtain ds where "readNFiles N (target dir) c = (Inr OK,
      (moved c es (request_segments READN_FILE ''readNString'' (asked N)))\<lparr>
        lfiles := stored (target dir) 0 (take (readn_count (asked N) (length fs)) fs) (lfiles c), ldirs := ds, cerrno := 0\<rparr>)"
    using readNFiles_does [OF assms(1,8) len small creat assms(10)] by blast
  then have r: "acts (readNFiles N (target dir)) c OK es (request_segments READN_FILE ''readNString'' (asked N))
      (stored (target dir) 0 (take (readn_count (asked N) (length fs)) fs) (lfiles c))"
    by (intro actsI [where out = "cout c" and errs = "cerr c" and e = 0 and ds = ds]) (simp add: moved_def)
  have "acts (bnd (readNFiles N (target dir)) (\<lambda>err. apiCall err READN None (sint N) doPrint)) c () es
      (request_segments READN_FILE ''readNString'' (asked N))
      (stored (target dir) 0 (take (readn_count (asked N) (length fs)) fs) (lfiles c))"
    by (rule acts_last [OF r]) (metis apiCall_acts goes_onD(2,3))
  with d show ?thesis by (simp add: act_R_def target_def)
qed

text \<open>Every action but \<open>-w\<close>, which is over the list of actions.\<close>

definition client_able :: "client \<Rightarrow> nat \<Rightarrow> bool" where
  "client_able c mx \<longleftrightarrow> client_ok c \<and> roomy c mx \<and> writes_anywhere c"

lemma able_goes_on: "goes_on c es lf c1 \<Longrightarrow> client_able c1 mx = client_able c mx"
  by (simp add: goes_on_def client_able_def roomy_def writes_anywhere_def)

definition server_fit :: "nat \<Rightarrow> nat \<Rightarrow> cfile list \<Rightarrow> bool" where
  "server_fit mf mx fs \<longleftrightarrow> sound mf mx fs \<and> 1 < mf \<and> mf < 2 ^ 31 \<and> mx < 2 ^ 31"

lemma make_dir_acts: "acts (case dir of None \<Rightarrow> ret ()
    | Some d \<Rightarrow> (case singleArg d of None \<Rightarrow> ret () | Some p \<Rightarrow> modify (ldirs_update (\<lambda>ds. ds(p := True))))) c ()
    (inp (csock c)) [] (lfiles c)"
proof -
  have "modify (ldirs_update (\<lambda>ds. ds(p := True))) c = (Inr (), c\<lparr>cout := cout c, cerr := cerr c, cerrno := cerrno c,
      lfiles := lfiles c, ldirs := (ldirs c)(p := True)\<rparr>)" for p
    by (cases c) simp
  then have "acts (modify (ldirs_update (\<lambda>ds. ds(p := True)))) c () (inp (csock c)) [] (lfiles c)" for p
    by (rule acts_local)
  then show ?thesis by (simp split: option.split)
qed

lemma act_other_acts:
  assumes "client_able c mx" and "server_fit mf mx fs" and "action_ok v mx dir a fs (lfiles c)" and "aop a \<noteq> CHR ''w''"
    and "inp (csock c) = map Data (replies pol mf mx (action_requests v (lfiles c) a) fs) @ es"
  shows "acts (act_other v doPrint dir a) c () es (stream pol mf mx (action_requests v (lfiles c) a) fs)
    (action_files pol v dir a fs (lfiles c))"
proof -
  note ok = assms(1) [unfolded client_able_def] assms(2) [unfolded server_fit_def]
  consider "aop a = CHR ''W''" | "aop a = CHR ''r''" | "aop a = CHR ''c''" | "aop a = CHR ''R''"
    | "aop a \<notin> {CHR ''W'', CHR ''r'', CHR ''c'', CHR ''R''}" by blast
  then show ?thesis
  proof cases
    case 1
    then show ?thesis using act_W_acts [of c "action_names a" mx v pol mf fs es doPrint] ok assms(3,5)
      by (auto simp: act_other_def action_requests_def action_files_def action_ok_def action_names_def)
  next
    case 2
    then obtain nms where nms: "aargs a = Some nms" "action_names a = nms" using assms(3) by (auto simp: action_ok_def action_names_def)
    have fetch: "\<forall>nm \<in> set nms. fetchable v (target dir) nm" using assms(3) 2 nms by (simp add: action_ok_def)
    have "acts (act_r v doPrint (target dir) nms) c1 () es (stream pol mf mx (downloads v nms) fs)
        (fetched pol v (target dir) nms fs (lfiles c))" if "goes_on c (inp (csock c)) (lfiles c) c1" for c1
    proof -
      note c1 = goes_onD [OF that]
      have "client_able c1 mx" using able_goes_on [OF that] assms(1) by simp
      with act_r_acts [of c1 mx mf fs nms v "target dir" pol es doPrint] fetch ok assms(5) 2 nms c1 show ?thesis
        by (simp add: client_able_def action_requests_def)
    qed
    then have "acts (sq (case dir of None \<Rightarrow> ret () | Some d \<Rightarrow>
          (case singleArg d of None \<Rightarrow> ret () | Some p \<Rightarrow> modify (ldirs_update (\<lambda>ds. ds(p := True)))))
        (act_r v doPrint (target dir) nms)) c () es (stream pol mf mx (downloads v nms) fs)
        (fetched pol v (target dir) nms fs (lfiles c))"
      by (rule acts_silent_sq [OF make_dir_acts])
    with 2 nms show ?thesis by (simp add: act_other_def action_requests_def action_files_def target_def)
  next
    case 3
    then show ?thesis using act_c_acts [of c "action_names a" v pol mf mx fs es doPrint] ok assms(3,5)
      by (auto simp: act_other_def action_requests_def action_files_def action_ok_def action_names_def)
  next
    case 4
    have sel: "action_requests v (lfiles c) a = [ReadN (asked (an a))]" using 4 by (simp add: action_requests_def)
    have "acts (act_R doPrint dir (an a)) c () es (request_segments READN_FILE ''readNString'' (asked (an a)))
        (stored (target dir) 0 (take (readn_count (asked (an a)) (length fs)) fs) (lfiles c))"
      by (rule act_R_acts [where mx = mx and mf = mf])
        (use 4 ok assms(3,5) in \<open>simp_all add: sel action_ok_def sound_def\<close>)
    with 4 sel show ?thesis by (simp add: act_other_def action_files_def)
  next
    case 5
    then show ?thesis using assms(4,5) by (simp add: act_other_def action_requests_def action_files_def)
  qed
qed

text \<open>\<open>-w\<close>: it gives the actions that are left.\<close>

lemma act_w_acts:
  assumes "client_able c mx" and "action_ok v mx dir a fs (lfiles c)" and "aop a = CHR ''w''"
    and "inp (csock c) = map Data (replies pol mf mx (action_requests v (lfiles c) a) fs) @ es"
  shows "acts (act_w v doPrint (a # as)) c as es (stream pol mf mx (action_requests v (lfiles c) a) fs) (lfiles c)"
proof -
  obtain d ps where d: "singleArg a = Some d" "opendir v d" and ps: "visitDir (depth v) (realpath v) (readdir v) d [] = Inr ps"
    using assms(2,3) by (auto simp: action_ok_def walk_def split: option.splits sum.splits)
  let ?n = "nat (sint (an a))"
  have send: "to_send v a = take ?n ps" using d ps by (simp add: to_send_def walk_def)
  have "acts (send_files doPrint ?n ps) c () es (stream pol mf mx (uploads (lfiles c) (take ?n ps)) fs) (lfiles c)"
    by (rule send_files_acts [where mx = mx])
      (use assms send in \<open>simp_all add: client_able_def action_ok_def action_requests_def\<close>)
  moreover have "(if an a \<noteq> 0 then send_files doPrint ?n ps else ret ()) = send_files doPrint ?n ps" by simp
  ultimately have "acts (sq (if an a \<noteq> 0 then send_files doPrint ?n ps else ret ()) (ret as)) c as es
      (stream pol mf mx (uploads (lfiles c) (take ?n ps)) fs @ []) (lfiles c)"
    by (intro acts_sq) (simp_all, metis acts_done(1) goes_onD(2,3))
  with assms(3) d ps send show ?thesis by (simp add: act_w_def action_requests_def)
qed

section \<open>The list of actions\<close>

fun program_requests :: "cache_policy_t \<Rightarrow> env \<Rightarrow> nat \<Rightarrow> nat \<Rightarrow> action option \<Rightarrow> action list \<Rightarrow> cfile list \<Rightarrow>
    (string \<rightharpoonup> char list) \<Rightarrow> request list" where
  "program_requests pol v mf mx dir [] fs lf = []"
| "program_requests pol v mf mx dir (a # as) fs lf =
     action_requests v lf a @
     program_requests pol v mf mx dir as (spec_run pol mf mx (action_requests v lf a) fs) (action_files pol v dir a fs lf)"

fun program_files :: "cache_policy_t \<Rightarrow> env \<Rightarrow> nat \<Rightarrow> nat \<Rightarrow> action option \<Rightarrow> action list \<Rightarrow> cfile list \<Rightarrow>
    (string \<rightharpoonup> char list) \<Rightarrow> (string \<rightharpoonup> char list)" where
  "program_files pol v mf mx dir [] fs lf = lf"
| "program_files pol v mf mx dir (a # as) fs lf =
     program_files pol v mf mx dir as (spec_run pol mf mx (action_requests v lf a) fs) (action_files pol v dir a fs lf)"

fun program_ok :: "cache_policy_t \<Rightarrow> env \<Rightarrow> nat \<Rightarrow> nat \<Rightarrow> action option \<Rightarrow> action list \<Rightarrow> cfile list \<Rightarrow>
    (string \<rightharpoonup> char list) \<Rightarrow> bool" where
  "program_ok pol v mf mx dir [] fs lf \<longleftrightarrow> True"
| "program_ok pol v mf mx dir (a # as) fs lf \<longleftrightarrow>
     action_ok v mx dir a fs lf \<and>
     program_ok pol v mf mx dir as (spec_run pol mf mx (action_requests v lf a) fs) (action_files pol v dir a fs lf)"

lemma program_requests_ok:
  "program_ok pol v mf mx dir as fs lf \<Longrightarrow> requests_ok pol mf mx (program_requests pol v mf mx dir as fs lf) fs"
  by (induction as arbitrary: fs lf) (auto intro: action_requests_ok)

lemma action_files_w: "aop a = CHR ''w'' \<Longrightarrow> action_files pol v dir a fs lf = lf"
  by (simp add: action_files_def)

text \<open>One round of the loop of \<open>main\<close>: an action, and what is left of the list.\<close>

lemma run_actions_Cons:
  "run_actions v doPrint dir (Suc fuel) (a # as) =
     bnd (if aop a = CHR ''w'' then act_w v doPrint (a # as) else sq (act_other v doPrint dir a) (ret as))
       (run_actions v doPrint dir fuel)"
  by (rule ext) (simp add: run_actions.simps [of v doPrint dir "Suc fuel"] sq_def bnd_run split: prod.split sum.split)

lemma round_acts:
  assumes "client_able c mx" and "server_fit mf mx fs" and "action_ok v mx dir a fs (lfiles c)"
    and "inp (csock c) = map Data (replies pol mf mx (action_requests v (lfiles c) a) fs) @ es"
  shows "acts (if aop a = CHR ''w'' then act_w v doPrint (a # as) else sq (act_other v doPrint dir a) (ret as)) c as es
    (stream pol mf mx (action_requests v (lfiles c) a) fs) (action_files pol v dir a fs (lfiles c))"
proof (cases "aop a = CHR ''w''")
  case True
  with act_w_acts [OF assms(1,3) True assms(4)] show ?thesis by (simp add: action_files_w)
next
  case False
  have "acts (sq (act_other v doPrint dir a) (ret as)) c as es
      (stream pol mf mx (action_requests v (lfiles c) a) fs @ []) (action_files pol v dir a fs (lfiles c))"
    by (rule acts_sq [OF act_other_acts [OF assms(1-3) False assms(4)]]) (metis acts_done(1) goes_onD(2,3))
  with False show ?thesis by simp
qed

lemma run_actions_acts:
  assumes "client_able c mx" and "server_fit mf mx fs" and "program_ok pol v mf mx dir as fs (lfiles c)"
    and "inp (csock c) = map Data (replies pol mf mx (program_requests pol v mf mx dir as fs (lfiles c)) fs) @ es"
  shows "acts (run_actions v doPrint dir (Suc (length as)) as) c () es
    (stream pol mf mx (program_requests pol v mf mx dir as fs (lfiles c)) fs) (program_files pol v mf mx dir as fs (lfiles c))"
  using assms
proof (induction as arbitrary: c fs)
  case Nil
  then show ?case by (simp add: run_actions.simps [of v doPrint dir "Suc 0"])
next
  case (Cons a as)
  let ?lf = "lfiles c"
  let ?rs = "action_requests v ?lf a" and ?lf1 = "action_files pol v dir a fs ?lf"
  let ?gs = "spec_run pol mf mx ?rs fs"
  let ?es1 = "map Data (replies pol mf mx (program_requests pol v mf mx dir as ?gs ?lf1) ?gs) @ es"
  have ok: "action_ok v mx dir a fs ?lf" using Cons.prems(3) by simp
  have fit: "server_fit mf mx ?gs"
    using sound_run [of mf mx fs pol ?rs] action_requests_ok [OF ok] Cons.prems(2) by (simp add: server_fit_def)
  have "acts (bnd (if aop a = CHR ''w'' then act_w v doPrint (a # as) else sq (act_other v doPrint dir a) (ret as))
        (run_actions v doPrint dir (Suc (length as)))) c () es
      (stream pol mf mx ?rs fs @ stream pol mf mx (program_requests pol v mf mx dir as ?gs ?lf1) ?gs)
      (program_files pol v mf mx dir as ?gs ?lf1)"
  proof (rule acts_bnd)
    show "acts (if aop a = CHR ''w'' then act_w v doPrint (a # as) else sq (act_other v doPrint dir a) (ret as)) c as ?es1
        (stream pol mf mx ?rs fs) ?lf1"
      by (rule round_acts [OF Cons.prems(1,2) ok]) (use Cons.prems(4) in simp)
    fix c1 assume c1: "goes_on c ?es1 ?lf1 c1"
    have "acts (run_actions v doPrint dir (Suc (length as)) as) c1 () es
        (stream pol mf mx (program_requests pol v mf mx dir as ?gs (lfiles c1)) ?gs)
        (program_files pol v mf mx dir as ?gs (lfiles c1))"
      by (rule Cons.IH) (use Cons.prems fit goes_onD [OF c1] able_goes_on [OF c1] in simp_all)
    then show "acts (run_actions v doPrint dir (Suc (length as)) as) c1 () es
        (stream pol mf mx (program_requests pol v mf mx dir as ?gs ?lf1) ?gs) (program_files pol v mf mx dir as ?gs ?lf1)"
      by (simp only: goes_onD(3) [OF c1])
  qed
  then show ?case unfolding length_Cons run_actions_Cons by simp
qed

section \<open>The whole program\<close>

definition goodbye :: "char list list" where
  "goodbye = response_segments OK 0"

lemma closeConnection_acts:
  assumes "client_ok c" and "length p \<le> PATH_MAX" and "inp (csock c) = map Data goodbye @ es"
  shows "acts (closeConnection (Some p)) c OK es (request_segments CLOSE_CONNECTION ''Close connection'' 0) (lfiles c)"
proof -
  have "closeConnection (Some p) c =
      (Inr OK, moved (c\<lparr>cerrno := 0\<rparr>) es (request_segments CLOSE_CONNECTION ''Close connection'' 0))"
    using assms send_req_run [of c "''Close connection''" CLOSE_CONNECTION 0]
    by (simp add: closeConnection_def bnd_run goodbye_def get_resp_run [where st = OK and e = 0 and es = es])
  then show ?thesis
    by (intro actsI [where out = "cout c" and errs = "cerr c" and e = 0 and ds = "ldirs c"]) (cases c, simp add: moved_def)
qed

text \<open>No \<open>-f\<close>: the socket is the one of the configuration, and the first attempt to connect succeeds.\<close>

lemma client_main_acts:
  assumes "client_able c mx" and "server_fit mf mx fs" and "program_ok pol v mf mx dir as fs (lfiles c)"
    and line: "2 \<le> argc" "parseArgs after w_args0 opts = Inr (as, out)" "lookup as CHR ''f'' = Inr None"
      "lookup as CHR ''d'' = Inr dir"
    and sock: "socket_path (snd (c_get_config fopen_r ''config.txt'' cfg0)) = sk" "length sk < sun_path_size"
    and inp: "inp (csock c) = map Data (replies pol mf mx (program_requests pol v mf mx dir as fs (lfiles c)) fs @ goodbye) @ es"
  shows "acts (client_main v fopen_r True (True # connects) (t # clock) abstime after w_args0 argc opts cfg0) c () es
    (stream pol mf mx (program_requests pol v mf mx dir as fs (lfiles c)) fs @
      request_segments CLOSE_CONNECTION ''Close connection'' 0)
    (program_files pol v mf mx dir as fs (lfiles c))"
proof -
  obtain pr where pr: "lookup as CHR ''p'' = Inr pr" using line(3) by (auto simp: lookup_def split: if_splits)
  have conn: "openConnection True (True # connects) (t # clock) sk abstime = Inr 0"
    using sock(2) by (simp add: openConnection_def)
  let ?note = "c_printf (line (line ''No -f detected, using default config to select socket'')) []"
  let ?main = "sq (run_actions v (pr \<noteq> None) dir (Suc (length as)) as) (bnd (closeConnection (Some sk)) (\<lambda>_. ret ()))"
  have eq: "client_main v fopen_r True (True # connects) (t # clock) abstime after w_args0 argc opts cfg0 =
      sq (modify (cout_update (\<lambda>o'. o' @ out))) (sq ?note ?main)"
  proof -
    have step: "bnd (sq m (ret x)) k = sq m (k x)" for m :: "unit ccmd" and x :: string and k :: "string \<Rightarrow> unit ccmd"
      by (rule ext) (simp add: sq_def bnd_def ret_def split: prod.splits sum.splits)
    show ?thesis using line pr sock conn by (simp add: client_main_def step)
  qed
  have printed: "acts (modify (cout_update (\<lambda>o'. o' @ out))) c () (inp (csock c)) [] (lfiles c)"
    by (rule acts_local [where out = "cout c @ out" and errs = "cerr c" and e = "cerrno c" and ds = "ldirs c"])
      (cases c, simp)
  have noted: "acts ?note c1 () (inp (csock c1)) [] (lfiles c1)" for c1
    by (rule acts_local [where out = "cout c1 @ [(line (line ''No -f detected, using default config to select socket''), [])]"
        and errs = "cerr c1" and e = "cerrno c1" and ds = "ldirs c1"]) (cases c1, simp add: c_printf_def)
  have main: "acts ?main c1 () es (stream pol mf mx (program_requests pol v mf mx dir as fs (lfiles c)) fs @
      request_segments CLOSE_CONNECTION ''Close connection'' 0) (program_files pol v mf mx dir as fs (lfiles c))"
    if c1: "goes_on c (inp (csock c)) (lfiles c) c1" for c1
  proof (rule acts_sq)
    have "acts (run_actions v (pr \<noteq> None) dir (Suc (length as)) as) c1 () (map Data goodbye @ es)
        (stream pol mf mx (program_requests pol v mf mx dir as fs (lfiles c1)) fs)
        (program_files pol v mf mx dir as fs (lfiles c1))"
      by (rule run_actions_acts) (use assms goes_onD [OF c1] able_goes_on [OF c1] in simp_all)
    then show "acts (run_actions v (pr \<noteq> None) dir (Suc (length as)) as) c1 () (map Data goodbye @ es)
        (stream pol mf mx (program_requests pol v mf mx dir as fs (lfiles c)) fs) (program_files pol v mf mx dir as fs (lfiles c))"
      by (simp only: goes_onD(3) [OF c1])
    fix c2 assume c2: "goes_on c1 (map Data goodbye @ es) (program_files pol v mf mx dir as fs (lfiles c)) c2"
    have "client_ok c2" using assms(1) goes_onD(1) [OF c1] goes_onD(1) [OF c2] by (simp add: client_able_def)
    then have "acts (closeConnection (Some sk)) c2 OK es (request_segments CLOSE_CONNECTION ''Close connection'' 0) (lfiles c2)"
      by (rule closeConnection_acts) (use sock(2) goes_onD [OF c2] in simp_all)
    then show "acts (bnd (closeConnection (Some sk)) (\<lambda>_. ret ())) c2 () es
        (request_segments CLOSE_CONNECTION ''Close connection'' 0) (program_files pol v mf mx dir as fs (lfiles c))"
      unfolding goes_onD(3) [OF c2] by (rule acts_last) (metis acts_done(1) goes_onD(2,3))
  qed
  have "acts (sq ?note ?main) c1 () es (stream pol mf mx (program_requests pol v mf mx dir as fs (lfiles c)) fs @
      request_segments CLOSE_CONNECTION ''Close connection'' 0) (program_files pol v mf mx dir as fs (lfiles c))"
    if c1: "goes_on c (inp (csock c)) (lfiles c) c1" for c1
    by (rule acts_silent_sq [OF noted], rule main) (use c1 in \<open>simp add: goes_on_def\<close>)
  then show ?thesis unfolding eq by (rule acts_silent_sq [OF printed])
qed

end
