(* ===== verification/Dialogue_Write.thy ===== *)
theory Dialogue_Write
  imports Dialogue
begin

text \<open>
  Writing a local file to the server: the one exchange that goes back and forth, since the
  client waits for a go-ahead before the size, before the content and before the answer.
\<close>

section \<open>The server waiting in the middle of a write\<close>

lemma recv_number_waits: "inp k = [] \<Longrightarrow> \<not> peer_closed k \<Longrightarrow> recv_number k = (Inl Blocked, k)"
  by (rule recv_number_blocked)

lemma recv_message_waits: "inp k = [] \<Longrightarrow> \<not> peer_closed k \<Longrightarrow> recv_message k = (Inl Blocked, k)"
  by (simp add: recv_message_def bnd_run recv_number_waits)

lemma case_write_waits_size:
  assumes ok: "srv_ok s fs F" and job: "job_ok s F j w" and has: "has_file (jfilename w) fs"
    and inp: "inp (socks s (client_fd w)) = []" and pc: "\<not> peer_closed (socks s (client_fd w))"
  shows "\<exists>m. case_write (Some j) w s = (Inl Blocked,
    stt s (client_fd w) m (sends (socks s (client_fd w)) [] [num (widen CONTINUE)]))"
proof -
  let ?nm = "jfilename w" and ?fd = "client_fd w" and ?pol = "policy (conf s)"
  let ?k = "socks s ?fd"
  have st: "stores (mem s) fs" and wr: "wrs ?k = []" using ok job by (simp_all add: srv_ok_def job_ok_def)
  from store_find_present [OF st has, of ?pol] obtain a m1 where
    m1: "find_file (Some ?nm) ?pol (mem s) = (Inr (Some a), m1)" "stores m1 (touch ?pol ?nm fs)" by blast
  have "case_write (Some j) w (stt s ?fd (mem s) ?k) = (Inl Blocked,
      stt s ?fd (cleared (logged (line ''Requested write file from client File : %s'') [LS ?nm] m1))
        (sends ?k [] [num (widen CONTINUE)]))"
    using wr inp pc m1(2) by (simp add: case_write_def case_simps m1(1) recv_number_waits)
  then show ?thesis using stt_start [of s ?fd] by auto
qed

lemma case_write_waits_content:
  assumes ok: "srv_ok s fs F" and job: "job_ok s F j w" and has: "has_file (jfilename w) fs"
    and lim: "limits (mem s) mf mx" and n: "n < 2 ^ 31" "n \<le> mx" and b: "content_bytes fs < 2 ^ 31"
    and inp: "inp (socks s (client_fd w)) = [Data (num (of_nat n))]" and pc: "\<not> peer_closed (socks s (client_fd w))"
  shows "\<exists>m. case_write (Some j) w s = (Inl Blocked,
    stt s (client_fd w) m (sends (socks s (client_fd w)) [] [num (widen CONTINUE), num (widen CONTINUE)]))"
proof -
  let ?nm = "jfilename w" and ?fd = "client_fd w" and ?pol = "policy (conf s)"
  let ?k = "socks s ?fd"
  have st: "stores (mem s) fs" and wr: "wrs ?k = []" using ok job by (simp_all add: srv_ok_def job_ok_def)
  from store_find_present [OF st has, of ?pol] obtain a m1 where
    m1: "find_file (Some ?nm) ?pol (mem s) = (Inr (Some a), m1)" "stores m1 (touch ?pol ?nm fs)" "keeps (mem s) m1" by blast
  let ?m2 = "cleared (logged (line ''Requested write file from client File : %s'') [LS ?nm] m1)"
  have st2: "stores ?m2 (touch ?pol ?nm fs)" using m1(2) by simp
  have lim2: "limits ?m2 mf mx" using keeps_limits [OF m1(3) lim] by simp
  from write_room [OF st2 lim2 n(1)] b n(2) obtain m3 where
    m3: "cache_algorithm 0 (of_nat n) ?m2 = (Inr (), m3)" "errno m3 \<noteq> E2BIG" by auto
  let ?k3 = "sends ?k [] [num (widen CONTINUE), num (widen CONTINUE)]"
  have "recv_message ?k3 = (Inl Blocked, ?k3)" using pc by (intro recv_message_waits) (simp_all add: sends_def)
  then have "case_write (Some j) w (stt s ?fd (mem s) ?k) = (Inl Blocked, stt s ?fd (cleared m3) ?k3)"
    using wr inp m1(2) m3(2) by (simp add: case_write_def case_simps m1(1) m3(1))
  then show ?thesis using stt_start [of s ?fd] by auto
qed

text \<open>A request whose job waits in the switch: what was sent stays sent.\<close>

lemma session_waits:
  assumes idle: "idle s fs F l" and nm: "name_ok nm" and link: "link_ok s fd"
    and arr: "arrives s fd (request_segments opc nm flgs) es"
    and waits: "\<And>s1. serving s F fd es (jfresh s) (request_job opc nm flgs fd l) fs s1 \<Longrightarrow>
      \<exists>s2. serve (Some (jfresh s)) s1 = (Inl Blocked, s2) \<and> socks s2 fd = sends (socks s1 fd) es' segs"
  shows "\<exists>s'. session fd l s = (Inl Blocked, s') \<and> socks s' fd = sends (socks s fd) es' segs"
proof -
  have "inp (socks s fd) = map Data (request_segments opc nm flgs) @ es" using arr by (simp add: arrives_def)
  moreover have "nul_free nm" "length nm < MAXNAME" "small_ok (slibc (socks s fd))" "wrs (socks s fd) = []"
    using nm link by (simp_all add: name_ok_def link_ok_def)
  ultimately obtain s1 where
    s1: "session fd l s = bnd (serve (Some (jfresh s))) (\<lambda>_. client_response (Some l)) s1"
      "serving s F fd es (jfresh s) (request_job opc nm flgs fd l) fs s1"
    using session_begins [OF idle] by blast
  have "socks s1 fd = sends (socks s fd) es []" using s1(2) by (simp add: serving_def)
  with waits [OF s1(2)] s1(1) show ?thesis by (auto simp: bnd_run)
qed

lemma server_asks_size:
  assumes idle: "idle s fs F l" and nm: "name_ok nm" and link: "link_ok s fd" and pc: "\<not> peer_closed (socks s fd)"
    and has: "has_file nm fs"
  shows "server_says fd l s (request_segments WRITE_FILE nm 0) = [num (widen CONTINUE)]"
proof -
  let ?s = "receives s fd (request_segments WRITE_FILE nm 0)"
  have "\<exists>s'. session fd l ?s = (Inl Blocked, s') \<and> socks s' fd = sends (socks ?s fd) [] [num (widen CONTINUE)]"
  proof (rule session_waits)
    fix s1 let ?w = "request_job WRITE_FILE nm 0 fd l"
    assume s1: "serving ?s F fd [] (jfresh ?s) ?w fs s1"
    note d = servingD [OF s1]
    have "\<not> peer_closed (socks s1 fd)" using s1 pc by (auto simp: serving_def)
    with case_write_waits_size [OF d(1,2)] has d(5) serve_is(4) [OF d(7)] show
      "\<exists>s2. serve (Some (jfresh ?s)) s1 = (Inl Blocked, s2) \<and> socks s2 fd = sends (socks s1 fd) [] [num (widen CONTINUE)]"
      by (auto simp: stt_def)
  qed (use assms in simp_all)
  then show ?thesis by (auto simp: server_says_def)
qed

lemma server_asks_content:
  assumes idle: "idle s fs F l" and nm: "name_ok nm" and link: "link_ok s fd" and pc: "\<not> peer_closed (socks s fd)"
    and has: "has_file nm fs" and lim: "limits (mem s) mf mx" and n: "n < 2 ^ 31" "n \<le> mx" and b: "content_bytes fs < 2 ^ 31"
  shows "server_says fd l s (request_segments WRITE_FILE nm 0 @ [num (of_nat n)]) = [num (widen CONTINUE), num (widen CONTINUE)]"
proof -
  let ?s = "receives s fd (request_segments WRITE_FILE nm 0 @ [num (of_nat n)])"
  have "\<exists>s'. session fd l ?s = (Inl Blocked, s') \<and>
      socks s' fd = sends (socks ?s fd) [] [num (widen CONTINUE), num (widen CONTINUE)]"
  proof (rule session_waits)
    show "arrives ?s fd (request_segments WRITE_FILE nm 0) [Data (num (of_nat n))]" by (simp add: arrives_def)
    fix s1 let ?w = "request_job WRITE_FILE nm 0 fd l"
    assume s1: "serving ?s F fd [Data (num (of_nat n))] (jfresh ?s) ?w fs s1"
    note d = servingD [OF s1]
    have "\<not> peer_closed (socks s1 fd)" using s1 pc by (auto simp: serving_def)
    with case_write_waits_content [OF d(1,2), of mf mx n] has d(3,5) lim n b serve_is(4) [OF d(7)] show
      "\<exists>s2. serve (Some (jfresh ?s)) s1 = (Inl Blocked, s2) \<and>
        socks s2 fd = sends (socks s1 fd) [] [num (widen CONTINUE), num (widen CONTINUE)]"
      by (auto simp: stt_def)
  qed (use assms in simp_all)
  then show ?thesis by (auto simp: server_says_def)
qed

section \<open>The client waiting in the middle of a write\<close>

lemma writeFile_says:
  assumes c: "client_ok c" and nm: "length nm < 2 ^ 63" and f: "lfiles c nm = Some bs" and bs: "bs \<noteq> []" "length bs < 2 ^ 63"
  shows "client_says (writeFile nm) c [] = request_segments WRITE_FILE nm 0"
    and "client_says (writeFile nm) c [num (widen CONTINUE)] = request_segments WRITE_FILE nm 0 @ [num (of_nat (length bs))]"
    and "client_says (writeFile nm) c [num (widen CONTINUE), num (widen CONTINUE)] =
      request_segments WRITE_FILE nm 0 @ write_input bs"
proof -
  have asks: "writeFile nm (hears c down) = can_continue_function (wf_size nm)
      (moved (hears c down) (map Data down) (request_segments WRITE_FILE nm 0))" for down
    using writeFile_asks [of "hears c down" nm] c nm by simp
  show "client_says (writeFile nm) c [] = request_segments WRITE_FILE nm 0"
    using asks [of "[]"] c by (simp add: client_says_def can_continue_waits)
  show "client_says (writeFile nm) c [num (widen CONTINUE)] = request_segments WRITE_FILE nm 0 @ [num (of_nat (length bs))]"
    using asks [of "[num (widen CONTINUE)]"] c f
    by (simp add: client_says_def can_continue_go wf_size_run [where bs = bs] can_continue_waits)
  show "client_says (writeFile nm) c [num (widen CONTINUE), num (widen CONTINUE)] =
      request_segments WRITE_FILE nm 0 @ write_input bs"
    using asks [of "[num (widen CONTINUE), num (widen CONTINUE)]"] c f bs
    by (simp add: client_says_def can_continue_go wf_size_run [where bs = bs] wf_content_run wf_send_run wf_end_def
        can_continue_waits write_input_def)
qed

section \<open>The exchange\<close>

text \<open>How many rounds the exchange of a write takes.\<close>

definition write_rounds :: "nat \<Rightarrow> string \<Rightarrow> char list \<Rightarrow> cfile list \<Rightarrow> nat" where
  "write_rounds mx nm bs fs = (if \<not> has_file nm fs then 1 else if mx < length bs then 2 else 3)"

lemma dialogue_write:
  assumes idle: "idle s fs F l" and rdy: "ready s fd mf mx" and w: "within mf mx fs" and c: "client_ok c" and nm: "name_ok nm"
    and pc: "\<not> peer_closed (socks s fd)" and f: "lfiles c nm = Some bs" and bs: "bs \<noteq> []" "length bs < 2 ^ 31"
  defines "r \<equiv> spec_of (policy (conf s)) mf mx (Write nm bs) fs"
  shows "\<exists>c' s'. settles (write_rounds mx nm bs fs) (writeFile nm) c fd l s (status r) c' s' \<and> idle s' (files r) F l \<and>
    lfiles c' = lfiles c \<and> cerrno c' = err r"
proof -
  let ?req = "request_segments WRITE_FILE nm 0 @ payload mx nm bs fs"
  have link: "link_ok s fd" and lim: "limits (mem s) mf mx" using rdy by (simp_all add: ready_def)
  have b: "content_bytes fs < 2 ^ 31" using w lim by (simp add: within_def limits_def)
  have len: "length nm < 2 ^ 63" "length bs < 2 ^ 63" using nm bs by (simp_all add: name_ok_def)
  obtain s' where s': "served fd l (receives s fd ?req) F [] r s'"
    using request_run [of "receives s fd ?req" fs F l fd mf mx "Write nm bs" "[]"] assms by (auto simp: r_def)
  note says = writeFile_says [OF c len(1) f bs(1) len(2), simplified]
  have r: "reply_bytes r = server_says fd l s ?req" using server_says_served [OF s'] by simp
  have "conversation (write_rounds mx nm bs fs) (writeFile nm) c fd l s = reply_bytes r"
  proof -
    consider "\<not> has_file nm fs" | "has_file nm fs" "mx < length bs" | "has_file nm fs" "length bs \<le> mx" by linarith
    then show ?thesis
    proof cases
      case 1
      then show ?thesis by (simp add: write_rounds_def says r payload_def)
    next
      case 2
      have "server_says fd l s (request_segments WRITE_FILE nm 0) = [num (widen CONTINUE)]"
        by (rule server_asks_size [OF idle nm link pc 2(1)])
      with 2 show ?thesis by (simp add: write_rounds_def numeral_2_eq_2 says r payload_def)
    next
      case 3
      have "server_says fd l s (request_segments WRITE_FILE nm 0) = [num (widen CONTINUE)]"
        by (rule server_asks_size [OF idle nm link pc 3(1)])
      moreover have "server_says fd l s (request_segments WRITE_FILE nm 0 @ [num (of_nat (length bs))]) =
          [num (widen CONTINUE), num (widen CONTINUE)]"
        by (rule server_asks_content [OF idle nm link pc 3(1) lim bs(2) _ b]) (use 3 in simp)
      ultimately show ?thesis using 3 by (simp add: write_rounds_def numeral_3_eq_3 says r payload_def)
    qed
  qed
  note conv = this
  have "does (writeFile nm) (hears c (reply_bytes r)) (status r) [] ?req (err r)"
    unfolding r_def spec_of.simps
    by (rule writeFile_does) (use c len f bs in auto)
  from settles_at [OF conv this s'] obtain c' where
    "settles (write_rounds mx nm bs fs) (writeFile nm) c fd l s (status r) c' s'" "lfiles c' = lfiles c" "cerrno c' = err r"
    by blast
  with served_idle [OF s'] show ?thesis by blast
qed

end
