(* ===== verification/Dialogue_Props.thy ===== *)
theory Dialogue_Props
  imports Dialogue_Write Examples
begin

text \<open>
  Properties of the client's calls: against the server's own code, round by round, and
  against the answers the server gives.
\<close>

section \<open>A client\<close>

text \<open>Two local files; it can create files anywhere.\<close>

definition ex_client :: client where
  "ex_client = \<lparr>csock = ex_sock [], cerrno = 0, lfiles = [''/new'' \<mapsto> ''hi'', ''/void'' \<mapsto> []],
     ldirs = (\<lambda>_. False), creatable = (\<lambda>_. True), cout = [], cerr = []\<rparr>"

lemma ex_client_ok [simp]: "client_ok ex_client" "client_ok (hears ex_client down)"
  by (simp_all add: client_ok_def ex_client_def ex_sock_def hears_def)

lemma ex_client_sel [simp]: "lfiles ex_client ''/new'' = Some ''hi''" "lfiles ex_client ''/void'' = Some []"
  "slibc (csock ex_client) = ex_libc" "creatable (hears ex_client down) p"
  by (simp_all add: ex_client_def ex_sock_def hears_def)

lemma ex_open_peer [simp]: "\<not> peer_closed (ex_sock es)"
  by (simp add: ex_sock_def)

section \<open>The two ends together\<close>

text \<open>
  C7. Writing a local file that is not empty and below \<open>2 ^ 31\<close> bytes, both programs
  together (for an empty file the client never ends): started from silence, the client's
  \<open>writeFile\<close> and an idle server exchange go-aheads, size and content without deadlock and
  settle in 1 round if the server has no such file, in 2 if the content is larger than the
  limit and in 3 otherwise, the exact limit included; the call returns the status and leaves
  the error of the abstract cache, the server is idle again with the files of the abstract
  cache, and no byte is left unread at either end.
\<close>

theorem write_dialogue:
  assumes "idle s fs F l" and "ready s fd mf mx" and "within mf mx fs" and "client_ok c" and "name_ok nm"
    and "\<not> peer_closed (socks s fd)" and "lfiles c nm = Some bs" and "bs \<noteq> []" and "length bs < 2 ^ 31"
  shows "\<exists>c' s'. settles (write_rounds mx nm bs fs) (writeFile nm) c fd l s
      (status (spec_of (policy (conf s)) mf mx (Write nm bs) fs)) c' s' \<and>
    idle s' (files (spec_of (policy (conf s)) mf mx (Write nm bs) fs)) F l \<and>
    lfiles c' = lfiles c \<and> cerrno c' = err (spec_of (policy (conf s)) mf mx (Write nm bs) fs)"
  using dialogue_write [OF assms] .

theorem write_dialogue_witness:
  "\<exists>c' s'. settles 3 (writeFile ''/new'') ex_client 4 1 (ex_quiet FIFO []) OK c' s' \<and> cerrno c' = 0"
  using write_dialogue [of "ex_quiet FIFO []" ex_files ex_F 1 4 2 10 ex_client "''/new''" "''hi''"]
  by (simp add: ex_name_ok write_rounds_def spec_write_def Let_def cache_result_def room_def after_file_round_def
      touch_def split: if_splits) auto

text \<open>
  C12. Reading a file, both programs together: \<open>readFile\<close> settles with the server in one
  round and returns exactly the content and its size if the file exists and is open, and the
  server's refusal otherwise.
\<close>

theorem read_dialogue:
  assumes "idle s fs F l" and "ready s fd mf mx" and "within mf mx fs" and "client_ok c" and "name_ok nm"
    and "\<forall>n. n \<le> mx \<longrightarrow> malloc_ok (slibc (csock c)) (of_nat n + 1)"
  shows "\<exists>c' s'. settles 1 (readFile nm) c fd l s
      (case lookup_file nm fs of
         None \<Rightarrow> (NOT_OK, None)
       | Some f \<Rightarrow> if copen f then (OK, Some (ccontent f @ [NUL], of_nat (length (ccontent f)))) else (NOT_OK, None))
      c' s' \<and>
    idle s' (case lookup_file nm fs of None \<Rightarrow> fs | Some f \<Rightarrow> touch (policy (conf s)) nm fs) F l \<and>
    cerrno c' = (case lookup_file nm fs of None \<Rightarrow> ENOENT | Some f \<Rightarrow> if copen f then 0 else EACCES)"
proof -
  have "(status (spec_read (policy (conf s)) nm fs), if status (spec_read (policy (conf s)) nm fs) = OK
        then map_option (\<lambda>f. (ccontent f @ [NUL], of_nat (length (ccontent f)) :: u64)) (lookup_file nm fs) else None) =
      (case lookup_file nm fs of
         None \<Rightarrow> (NOT_OK, None)
       | Some f \<Rightarrow> if copen f then (OK, Some (ccontent f @ [NUL], of_nat (length (ccontent f)))) else (NOT_OK, None))"
    "files (spec_read (policy (conf s)) nm fs) = (case lookup_file nm fs of None \<Rightarrow> fs | Some f \<Rightarrow> touch (policy (conf s)) nm fs)"
    "err (spec_read (policy (conf s)) nm fs) = (case lookup_file nm fs of None \<Rightarrow> ENOENT | Some f \<Rightarrow> if copen f then 0 else EACCES)"
    by (simp_all add: spec_read_def split: option.split)
  then show ?thesis using dialogue_read [OF assms(1-5)] assms(6) by fastforce
qed

theorem read_dialogue_witness:
  "\<exists>c' s'. settles 1 (readFile ''/new'') ex_client 4 1 (ex_quiet LRU []) (OK, Some (''defg'' @ [NUL], of_nat (length ''defg''))) c' s'"
  using read_dialogue [of "ex_quiet LRU []" ex_files ex_F 1 4 2 10 ex_client "''/new''"]
  by (auto simp: ex_name_ok word_less_nat_alt unat_word_ariths unat_of_nat)

section \<open>One end against the answers of the other\<close>

text \<open>
  C13. \<open>readNFiles\<close> on a server that is not empty, when the local files can be created: it
  asks for 0 when the number is negative, and writes the bytes of each non-empty file of the
  answer to the start of a local file named after its position in the answer. A local file
  that was there and is longer keeps the rest of what it held (\<open>stored\<close>), since the code opens
  it without truncating.
\<close>

theorem readNFiles_stores:
  assumes "client_ok c" and "fs \<noteq> []" and "length fs < 2 ^ 31"
    and "\<forall>f \<in> set fs. length (ccontent f) < 2 ^ 31 \<and> malloc_ok (slibc (csock c)) (of_nat (length (ccontent f)) + 1)"
    and "\<forall>d j. dirname = Some d \<and> j < length fs \<longrightarrow> creatable c (readn_name d j) \<and> length (readn_name d j) < 256"
    and "inp (csock c) = map Data (reply_bytes (spec_readn (asked N) fs)) @ es"
  shows "\<exists>c'. readNFiles N dirname c = (Inr OK, c') \<and> inp (csock c') = es \<and>
    outp (csock c') = outp (csock c) @ request_segments READN_FILE ''readNString'' (asked N) \<and>
    lfiles c' = stored dirname 0 (take (readn_count (asked N) (length fs)) fs) (lfiles c)"
  using readNFiles_does [OF assms(1-4), of dirname N es] assms(5,6) by fastforce

lemma ex_readn_names [simp]: "readn_name ''d'' 0 = ''d/READN_FILE_0''" "length (readn_name ''d'' 0) < 256"
  "length (readn_name ''d'' (Suc 0)) < 256"
  by code_simp+

theorem readNFiles_stores_witness:
  "\<exists>c'. readNFiles 1 (Some ''d'') (hears ex_client (reply_bytes (spec_readn 1 ex_files))) = (Inr OK, c') \<and>
    lfiles c' ''d/READN_FILE_0'' = Some ''defg''"
proof -
  have "\<exists>c'. readNFiles 1 (Some ''d'') (hears ex_client (reply_bytes (spec_readn (asked 1) ex_files))) = (Inr OK, c') \<and>
      inp (csock c') = [] \<and> outp (csock c') = outp (csock (hears ex_client (reply_bytes (spec_readn (asked 1) ex_files)))) @
        request_segments READN_FILE ''readNString'' (asked 1) \<and>
      lfiles c' = stored (Some ''d'') 0 (take (readn_count (asked 1) (length ex_files)) ex_files)
        (lfiles (hears ex_client (reply_bytes (spec_readn (asked 1) ex_files))))"
    by (rule readNFiles_stores)
      (auto simp: ex_files_def less_Suc_eq word_less_nat_alt unat_word_ariths)
  then show ?thesis by (auto simp: readn_count_def ex_files_def ex_client_def)
qed

text \<open>
  C31. \<open>readNFiles\<close> on an empty server never returns, with a directory to store into or
  without: the single refusal the server sends is taken for a count, the status for the
  go-ahead and the error for the status, and the call waits for an error that does not come.
\<close>

theorem readNFiles_hangs_on_empty:
  assumes "client_ok c" and "inp (csock c) = map Data (reply_bytes (spec_readn n []))"
  shows "fst (readNFiles N dirname c) = Inl Blocked"
  using readNFiles_empty [OF assms] .

theorem readNFiles_hangs_on_empty_witness:
  "fst (readNFiles 0 (Some ''d'') (hears ex_client (reply_bytes (spec_readn 0 [])))) = Inl Blocked"
  by (rule readNFiles_hangs_on_empty [where n = 0]) simp_all

text \<open>
  C32. Writing an empty local file never ends: the buffer holds no items, \<open>fread\<close> of no items
  does not meet the end of the file, and the loop waits for it.
\<close>

theorem writeFile_empty_diverges:
  assumes "client_ok c" and "length nm < 2 ^ 63" and "lfiles c nm = Some []"
    and "inp (csock c) = Data (num (widen CONTINUE)) # Data (num (widen CONTINUE)) # es"
  shows "fst (writeFile nm c) = Inl Diverges \<and> (\<forall>fuel. fread_loop fuel 0 [] False [] = stop Diverges)"
  using writeFile_empty [OF assms] by (simp add: fread_loop_empty)

theorem writeFile_empty_diverges_witness:
  "fst (writeFile ''/void'' (hears ex_client [num (widen CONTINUE), num (widen CONTINUE)])) = Inl Diverges"
  using writeFile_empty_diverges [of "hears ex_client [num (widen CONTINUE), num (widen CONTINUE)]" "''/void''" "[]"] by simp

text \<open>
  C33. Appending more than the server can hold loses the connection's step: the call returns
  the go-ahead number as if it were a status, reports no error, has sent content the server
  does not read, and leaves the server's error on the socket for the next call.
\<close>

theorem append_too_big_desynchronises:
  assumes "client_ok c" and "length nm < 2 ^ 63" and "length bs < 2 ^ 63" and "mx < length bs" and "has_file nm fs"
    and "inp (csock c) = map Data (reply_bytes (spec_append pol mf mx nm bs fs)) @ es"
  shows "\<exists>c'. appendToFile nm bs (of_nat (length bs)) c = (Inr NO_CONTINUE, c') \<and> cerrno c' = 0 \<and>
    inp (csock c') = Data (num (widen E2BIG)) # es \<and>
    outp (csock c') = outp (csock c) @ request_segments APPEND_FILE nm 0 @ payload mx nm bs fs @ message_segments bs"
proof -
  have "does (appendToFile nm bs (of_nat (length bs))) c NO_CONTINUE (Data (num (widen E2BIG)) # es)
      (request_segments APPEND_FILE nm 0 @ write_input bs) 0"
    by (rule appendToFile_too_big [OF assms])
  moreover have "write_input bs = payload mx nm bs fs @ message_segments bs"
    using assms(4,5) by (simp add: write_input_def payload_def)
  ultimately show ?thesis by (auto simp: does_def)
qed

theorem append_too_big_desynchronises_witness:
  "\<exists>c'. appendToFile ''/new'' ''hello world'' (of_nat (length ''hello world''))
      (hears ex_client (reply_bytes (spec_append FIFO 2 10 ''/new'' ''hello world'' ex_files))) = (Inr NO_CONTINUE, c') \<and> cerrno c' = 0"
proof -
  have "\<exists>c'. appendToFile ''/new'' ''hello world'' (of_nat (length ''hello world''))
      (hears ex_client (reply_bytes (spec_append FIFO 2 10 ''/new'' ''hello world'' ex_files))) = (Inr NO_CONTINUE, c') \<and> cerrno c' = 0 \<and>
    inp (csock c') = [Data (num (widen E2BIG))] \<and>
    outp (csock c') = outp (csock (hears ex_client (reply_bytes (spec_append FIFO 2 10 ''/new'' ''hello world'' ex_files)))) @
      request_segments APPEND_FILE ''/new'' 0 @ payload 10 ''/new'' ''hello world'' ex_files @ message_segments ''hello world''"
    by (rule append_too_big_desynchronises) simp_all
  then show ?thesis by blast
qed

end
