(* ===== verification/Program_Props.thy ===== *)
theory Program_Props
  imports Client_Program Dialogue_Props
begin



section \<open>An example\<close>









section \<open>The client program against the server\<close>



end
