(* ===== verification/Server_Props.thy ===== *)
theory Server_Props
  imports Examples
begin

text \<open>
  The properties of the worker's switch: each operation of the protocol, from the job to the
  answer, computes its specification on every branch, and the places where the code leaves
  the protocol.
\<close>

section \<open>Operations that compute their specification\<close>

text \<open>
  C17. A write of fewer than \<open>2 ^ 31\<close> bytes by a client that follows the protocol (\<open>payload\<close>:
  it announces the size if the file is there and sends the content if it is not too large), on
  every branch and under either policy. No file of that name: a refusal and \<open>ENONET\<close>. More
  than the limit: a go-ahead, a refusal, \<open>E2BIG\<close>. Otherwise two go-aheads and room is made; if
  that evicted the file itself, a refusal and \<open>ENOENT\<close>; if not, a third go-ahead, exactly the
  bytes received are appended and the answer is OK. The bytes of the request are consumed and
  nothing but the cache, the job and the client's list and socket changes.
\<close>

theorem write_refines:
  assumes "srv_ok s fs F" and "job_ok s F j w" and "op w = WRITE_FILE"
    and "limits (mem s) mf mx" and "length bs < 2 ^ 31" and "content_bytes fs < 2 ^ 31"
    and "inp (socks s (client_fd w)) = map Data (payload mx (jfilename w) bs fs) @ es"
    and "malloc_ok (slibc (socks s (client_fd w))) (of_nat (length bs) + 1)"
  shows "answers (serve (Some j)) s F j w es
    (spec_write (policy (conf s)) mf mx (jfilename w) (length bs) bs fs)"
proof -
  note srv = serve_is(4) [OF job_okD [OF assms(2)] assms(3)]
  consider "\<not> has_file (jfilename w) fs" | "has_file (jfilename w) fs" "mx < length bs"
    | "has_file (jfilename w) fs" "length bs \<le> mx" by linarith
  then show ?thesis
  proof cases
    case 1
    with case_write_absent [OF assms(1,2), of mf mx "length bs" bs] assms(7) show ?thesis
      by (simp add: answers_def srv payload_def)
  next
    case 2
    with case_write_big [OF assms(1,2) _ assms(4,5) _ assms(6), of es bs] assms(7) show ?thesis
      by (simp add: answers_def srv payload_def)
  next
    case 3
    with case_write_run [OF assms(1,2) _ assms(4,5) _ assms(6), of es] assms(7,8) show ?thesis
      by (simp add: answers_def srv payload_def write_input_def)
  qed
qed

theorem write_refines_witness:
  "answers (serve (Some 0))
     (ex_srv LRU (ex_job WRITE_FILE 0 ''/old'') (Data (num 5) # map Data (message_segments ''hello'')))
     ex_F 0 (ex_job WRITE_FILE 0 ''/old'') [] (spec_write LRU 2 10 ''/old'' (length ''hello'') ''hello'' ex_files)"
  using write_refines [of "ex_srv LRU (ex_job WRITE_FILE 0 ''/old'') (Data (num 5) # map Data (message_segments ''hello''))"
      ex_files ex_F 0 "ex_job WRITE_FILE 0 ''/old''" 2 10 "''hello''" "[]"]
  by (simp add: payload_def write_input_def)

text \<open>
  C18. An append keeps the pointer to the file found before room was made. As long as the
  file itself is not evicted, exactly the received bytes are appended and the answer is OK.
\<close>

theorem append_refines:
  assumes "srv_ok s fs F" and "job_ok s F j w" and "op w = APPEND_FILE" and "has_file (jfilename w) fs"
    and "limits (mem s) mf mx" and "length bs < 2 ^ 31" and "length bs \<le> mx" and "content_bytes fs < 2 ^ 31"
    and "inp (socks s (client_fd w)) = Data (num (of_nat (length bs))) # map Data (message_segments bs) @ es"
    and "malloc_ok (slibc (socks s (client_fd w))) (of_nat (length bs) + 1)"
    and "has_file (jfilename w) (cache_result 0 (length bs) mf mx (touch (policy (conf s)) (jfilename w) fs))"
  shows "answers (serve (Some j)) s F j w es (spec_append (policy (conf s)) mf mx (jfilename w) bs fs)"
  using case_append_run [OF assms(1,2,4-11)] by (simp add: answers_def serve_is(5) [OF job_okD [OF assms(2)] assms(3)])

lemma ex_append_room:
  "cache_result 0 (Suc (Suc (Suc (Suc (Suc 0))))) 2 10 ex_files = [\<lparr>cname = ''/new'', ccontent = ''defg'', copen = True\<rparr>]"
  "touch FIFO ''/new'' ex_files = ex_files" "touch FIFO ''/old'' ex_files = ex_files"
  by (simp_all add: cache_result_def room_def after_file_round_def ex_files_def touch_def)

lemma ex_kept: "has_file nm [\<lparr>cname = ''/new'', ccontent = c, copen = b\<rparr>] \<longleftrightarrow> nm = ''/new''"
  by (auto simp: has_file_def)

theorem append_refines_witness:
  "answers (serve (Some 0))
     (ex_srv FIFO (ex_job APPEND_FILE 0 ''/new'') (Data (num 5) # map Data (message_segments ''hello'')))
     ex_F 0 (ex_job APPEND_FILE 0 ''/new'') [] (spec_append FIFO 2 10 ''/new'' ''hello'' ex_files)"
  using append_refines [of "ex_srv FIFO (ex_job APPEND_FILE 0 ''/new'') (Data (num 5) # map Data (message_segments ''hello''))"
      ex_files ex_F 0 "ex_job APPEND_FILE 0 ''/new''" 2 10 "''hello''" "[]"]
  by (simp add: ex_append_room ex_kept)

text \<open>
  C29. If making room evicts the very file that is being appended to, the worker writes
  through the pointer to the freed file.
\<close>

theorem append_uses_freed_file:
  assumes "srv_ok s fs F" and "job_ok s F j w" and "op w = APPEND_FILE" and "has_file (jfilename w) fs"
    and "limits (mem s) mf mx" and "length bs < 2 ^ 31" and "length bs \<le> mx" and "content_bytes fs < 2 ^ 31"
    and "inp (socks s (client_fd w)) = Data (num (of_nat (length bs))) # map Data (message_segments bs) @ es"
    and "malloc_ok (slibc (socks s (client_fd w))) (of_nat (length bs) + 1)"
    and "\<not> has_file (jfilename w) (cache_result 0 (length bs) mf mx (touch (policy (conf s)) (jfilename w) fs))"
  shows "fst (serve (Some j) s) = Inl Use_after_free"
  using case_append_freed [OF assms(1,2,4-11)] serve_is(5) [OF job_okD [OF assms(2)] assms(3)] by simp

theorem append_uses_freed_file_witness:
  "fst (serve (Some 0) (ex_srv FIFO (ex_job APPEND_FILE 0 ''/old'')
     (Data (num 5) # map Data (message_segments ''hello'')))) = Inl Use_after_free"
  by (rule append_uses_freed_file [where fs = ex_files and F = ex_F and w = "ex_job APPEND_FILE 0 ''/old''"
      and mf = 2 and mx = 10 and bs = "''hello''" and es = "[]"])
    (simp_all add: ex_append_room ex_kept)

text \<open>
  C19. Creating a file: an existing name is refused with \<open>EEXIST\<close>; otherwise room for one
  file is made and the new file is empty, open and the first of the list.
\<close>

theorem create_refines:
  assumes "srv_ok s fs F" and "job_ok s F j w" and "op w = OPEN_FILE" and "flags w = O_CREATE"
    and "limits (mem s) mf mx" and "Suc (length fs) < 2 ^ 31" and "content_bytes fs < 2 ^ 31"
  shows "answers (serve (Some j)) s F j w (inp (socks s (client_fd w))) (spec_create mf mx (jfilename w) fs)"
  using case_open_create_run [OF assms(1,2,4-7)] by (simp add: answers_def serve_is(1) [OF job_okD [OF assms(2)] assms(3)])

theorem create_refines_witness:
  "answers (serve (Some 0)) (ex_srv FIFO (ex_job OPEN_FILE O_CREATE ''/third'') []) ex_F 0
     (ex_job OPEN_FILE O_CREATE ''/third'') [] (spec_create 2 10 ''/third'' ex_files)"
  using create_refines [of "ex_srv FIFO (ex_job OPEN_FILE O_CREATE ''/third'') []" ex_files ex_F 0
      "ex_job OPEN_FILE O_CREATE ''/third''" 2 10] by simp

text \<open>
  Opening a file: it must exist, is marked open, and is moved to the front exactly when
  the policy is \<open>LRU\<close>.
\<close>

theorem open_refines:
  assumes "srv_ok s fs F" and "job_ok s F j w" and "op w = OPEN_FILE" and "flags w \<noteq> O_CREATE"
  shows "answers (serve (Some j)) s F j w (inp (socks s (client_fd w)))
    (spec_open (policy (conf s)) (jfilename w) fs)"
  using case_open_run [OF assms(1,2,4)] by (simp add: answers_def serve_is(1) [OF job_okD [OF assms(2)] assms(3)])

theorem open_refines_witness:
  "answers (serve (Some 0)) (ex_srv LRU (ex_job OPEN_FILE 0 ''/old'') []) ex_F 0
     (ex_job OPEN_FILE 0 ''/old'') [] (spec_open LRU ''/old'' ex_files)"
  using open_refines [of "ex_srv LRU (ex_job OPEN_FILE 0 ''/old'') []" ex_files ex_F 0 "ex_job OPEN_FILE 0 ''/old''"]
  by simp

text \<open>
  C20. Reading a file: the client gets two go-aheads, the size and the whole content if the
  file exists and is open, and the matching refusal and error otherwise.
\<close>

theorem read_refines:
  assumes "srv_ok s fs F" and "job_ok s F j w" and "op w = READ_FILE" and "content_bytes fs < 2 ^ 31"
  shows "answers (serve (Some j)) s F j w (inp (socks s (client_fd w)))
    (spec_read (policy (conf s)) (jfilename w) fs)"
  using case_read_run [OF assms(1,2,4)] by (simp add: answers_def serve_is(3) [OF job_okD [OF assms(2)] assms(3)])

theorem read_refines_witness:
  "answers (serve (Some 0)) (ex_srv FIFO (ex_job READ_FILE 0 ''/new'') []) ex_F 0
     (ex_job READ_FILE 0 ''/new'') [] (spec_read FIFO ''/new'' ex_files)"
  using read_refines [of "ex_srv FIFO (ex_job READ_FILE 0 ''/new'') []" ex_files ex_F 0 "ex_job READ_FILE 0 ''/new''"]
  by simp

text \<open>
  C21. Reading many files: the count is the number asked for, cut to the number of files, and
  0, a negative number and a number too large all mean every file; the files are sent in the
  order of the list, each followed by its size.
\<close>

theorem readn_refines:
  assumes "srv_ok s fs F" and "job_ok s F j w" and "op w = READN_FILE" and "content_bytes fs < 2 ^ 31"
  shows "answers (serve (Some j)) s F j w (inp (socks s (client_fd w))) (spec_readn (flags w) fs)"
  using case_readn_run [OF assms(1,2,4)] by (simp add: answers_def serve_is(6) [OF job_okD [OF assms(2)] assms(3)])

theorem readn_refines_witness:
  "answers (serve (Some 0)) (ex_srv FIFO (ex_job READN_FILE (-1) ''readNString'') []) ex_F 0
     (ex_job READN_FILE (-1) ''readNString'') [] (spec_readn (-1) ex_files)"
  using readn_refines [of "ex_srv FIFO (ex_job READN_FILE (-1) ''readNString'') []" ex_files ex_F 0
      "ex_job READN_FILE (-1) ''readNString''"] by simp

text \<open>
  C22. Removing a file: exactly the file of that name leaves the list, the others keep their
  content and order; a missing file is reported as \<open>ENOENT\<close>.
\<close>

theorem remove_refines:
  assumes "srv_ok s fs F" and "job_ok s F j w" and "op w = REMOVE_FILE"
  shows "answers (serve (Some j)) s F j w (inp (socks s (client_fd w)))
    (spec_remove (policy (conf s)) (jfilename w) fs)"
  using case_remove_run [OF assms(1,2)] by (simp add: answers_def serve_is(7) [OF job_okD [OF assms(2)] assms(3)])

theorem remove_refines_witness:
  "answers (serve (Some 0)) (ex_srv LRU (ex_job REMOVE_FILE 0 ''/new'') []) ex_F 0
     (ex_job REMOVE_FILE 0 ''/new'') [] (spec_remove LRU ''/new'' ex_files)"
  using remove_refines [of "ex_srv LRU (ex_job REMOVE_FILE 0 ''/new'') []" ex_files ex_F 0
      "ex_job REMOVE_FILE 0 ''/new''"] by simp

end
