(* ===== verification/Session_Props.thy ===== *)
theory Session_Props
  imports Examples
begin

text \<open>
  Properties of whole requests: from the bytes on the socket to the bytes of the answer, for
  every sequence of requests.
\<close>



text \<open>
  C6. What a client writes it reads back: on an idle server, whatever files it holds and
  whatever its policy, creating a file, writing \<open>bs\<close> to it and reading it succeed, and the
  bytes sent for the read are exactly \<open>bs\<close>.
\<close>

theorem create_write_read_roundtrip:
  assumes "idle s fs F l" and "name_ok nm" and "link_ok s fd" and "limits (mem s) mf mx"
    and "\<not> has_file nm fs" and "Suc (length fs) < 2 ^ 31" and "content_bytes fs + length bs < 2 ^ 31"
    and "length bs \<le> mx" and "malloc_ok (slibc (socks s fd)) (of_nat (length bs) + 1)"
    and "arrives s fd (upload_and_read nm bs) es"
  shows "\<exists>s' gs. sessions 3 fd l s = (Inr (), s') \<and> idle s' gs F l \<and>
    lookup_file nm gs = Some \<lparr>cname = nm, ccontent = bs, copen = True\<rparr> \<and>
    socks s' = (socks s)(fd := sends (socks s fd) es
      (all_good @
       [num (widen CONTINUE), num (widen CONTINUE), num (widen CONTINUE)] @ all_good @
       [num (widen CONTINUE), num (widen CONTINUE), num (of_nat (length bs))] @ message_segments bs @ all_good))"
  using create_write_read [OF assms] .

theorem create_write_read_roundtrip_witness:
  "\<exists>s' gs. sessions 3 4 1 (ex_quiet FIFO (upload_and_read ''/third'' ''hello'')) = (Inr (), s') \<and>
    lookup_file ''/third'' gs = Some \<lparr>cname = ''/third'', ccontent = ''hello'', copen = True\<rparr>"
  using create_write_read_roundtrip [of "ex_quiet FIFO (upload_and_read ''/third'' ''hello'')"
      ex_files ex_F 1 "''/third''" 4 2 10 "''hello''" "[]"]
  by (simp add: ex_name_ok arrives_def del: sessions.simps) blast

end
