(* ===== verification/Cache_Props.thy ===== *)
theory Cache_Props
  imports Examples
begin

text \<open>
  Properties of the file cache: what the replacement algorithm keeps and evicts, the limits
  it misses, and what the order of the list does and does not affect.
\<close>

section \<open>Making room\<close>

text \<open>
  C8. The replacement algorithm, asked for room for \<open>k\<close> files and \<open>amt\<close> bytes below the
  limits: it evicts files from the end of the list only, afterwards the files and bytes fit
  with what was asked for, and no longer prefix of the list would have fitted.
\<close>

theorem cache_algorithm_makes_room:
  assumes "stores m fs" and "limits m mf mx" and "k < mf" and "amt < mx" and "length fs + k < 2 ^ 31"
    and "content_bytes fs + amt < 2 ^ 31 + mx"
  shows "\<exists>m' n. cache_algorithm (of_nat k) (of_nat amt) m = (Inr (), m') \<and> stores m' (take n fs) \<and> n \<le> length fs \<and>
    n + k \<le> mf \<and> content_bytes (take n fs) + amt \<le> mx \<and>
    (\<forall>i \<le> length fs. i + k \<le> mf \<and> content_bytes (take i fs) + amt \<le> mx \<longrightarrow> i \<le> n)"
proof -
  have "amt < 2 ^ 31" using assms(2,4) by (simp add: limits_def)
  with store_cache [OF assms(1,2,5) _ assms(6)] obtain m' where
    m': "cache_algorithm (of_nat k) (of_nat amt) m = (Inr (), m')" "stores m' (cache_result k amt mf mx fs)" by auto
  let ?n = "length (room k amt mf mx fs)"
  have r: "cache_result k amt mf mx fs = take ?n fs" "room k amt mf mx fs = take ?n fs"
    using room_take [of k amt mf mx fs] assms(3,4) by (simp_all add: cache_result_def)
  have "?n \<le> length fs" using arg_cong [OF r(2), of length] by simp
  moreover note room_fits_after [OF assms(3,4), of fs] room_maximal [OF assms(3,4)]
  ultimately show ?thesis using m' r by (intro exI [of _ m'] exI [of _ ?n]) auto
qed

theorem cache_algorithm_makes_room_witness:
  "\<exists>m'. cache_algorithm 1 (of_nat (0::nat)) ex_mem = (Inr (), m') \<and>
    stores m' [\<lparr>cname = ''/new'', ccontent = ''defg'', copen = True\<rparr>]"
proof -
  have "\<exists>m' n. cache_algorithm (of_nat 1) (of_nat 0) ex_mem = (Inr (), m') \<and> stores m' (take n ex_files) \<and> n \<le> length ex_files \<and>
      n + 1 \<le> 2 \<and> content_bytes (take n ex_files) + 0 \<le> 10 \<and>
      (\<forall>i \<le> length ex_files. i + 1 \<le> 2 \<and> content_bytes (take i ex_files) + 0 \<le> 10 \<longrightarrow> i \<le> n)"
    by (rule cache_algorithm_makes_room) simp_all
  then obtain m' n where m': "cache_algorithm (of_nat 1) (of_nat 0) ex_mem = (Inr (), m')" "stores m' (take n ex_files)"
    "n + 1 \<le> 2" and max: "\<forall>i \<le> length ex_files. i + 1 \<le> 2 \<and> content_bytes (take i ex_files) + 0 \<le> 10 \<longrightarrow> i \<le> n"
    by blast
  have "1 \<le> n" using max [rule_format, of 1] by (simp add: ex_files_def)
  with m'(3) have "n = 1" by simp
  with m' show ?thesis by (auto simp: ex_files_def)
qed

text \<open>
  C23. Which file goes: after a file was found by name, making room keeps a beginning of the
  list with that file moved to the front under \<open>LRU\<close>, and of the unchanged list under
  \<open>FIFO\<close>; so under \<open>LRU\<close> the file just used is the last one to be evicted, and under
  \<open>FIFO\<close> use does not count.
\<close>

theorem replacement_order:
  assumes "stores m fs" and "has_file nm fs" and "limits m mf mx" and "length fs + k < 2 ^ 31" and "amt < 2 ^ 31"
    and "content_bytes fs + amt < 2 ^ 31 + mx"
  shows "\<exists>a m1 m2 gs. find_file (Some nm) pol m = (Inr (Some a), m1) \<and>
    cache_algorithm (of_nat k) (of_nat amt) m1 = (Inr (), m2) \<and> stores m2 gs \<and>
    (pol = FIFO \<longrightarrow> (\<exists>n. gs = take n fs)) \<and>
    (pol = LRU \<longrightarrow> (\<exists>n. gs = take n (filter (\<lambda>c. cname c = nm) fs @ filter (\<lambda>c. cname c \<noteq> nm) fs)) \<and>
       (gs \<noteq> [] \<longrightarrow> has_file nm gs))"
proof -
  from store_find_present [OF assms(1,2), of pol] obtain a m1 where
    m1: "find_file (Some nm) pol m = (Inr (Some a), m1)" "stores m1 (touch pol nm fs)" "keeps m m1" by blast
  have "limits m1 mf mx" by (rule keeps_limits [OF m1(3) assms(3)])
  from store_cache [OF m1(2) this, of k amt] assms(4-6) obtain m2 where
    m2: "cache_algorithm (of_nat k) (of_nat amt) m1 = (Inr (), m2)" "stores m2 (cache_result k amt mf mx (touch pol nm fs))"
    by auto
  obtain n where n: "cache_result k amt mf mx (touch pol nm fs) = take n (touch pol nm fs)" using cache_result_take by blast
  have "has_file nm (take n (touch LRU nm fs))" if "take n (touch LRU nm fs) \<noteq> []"
  proof -
    obtain c us where c: "filter (\<lambda>c. cname c = nm) fs = c # us"
      using assms(2) by (cases "filter (\<lambda>c. cname c = nm) fs") (auto simp: has_file_def filter_empty_conv)
    have "c \<in> set (c # us)" by simp
    then have "cname c = nm" unfolding c [symmetric] by simp
    moreover have "n \<noteq> 0" using that by auto
    ultimately show ?thesis using c by (cases n) (auto simp: touch_def has_file_def)
  qed
  with m1(1) m2 n show ?thesis by (intro exI conjI) (auto simp: touch_def)
qed

theorem replacement_order_witness:
  "\<exists>a m1 m2 gs. find_file (Some ''/old'') LRU ex_mem = (Inr (Some a), m1) \<and>
    cache_algorithm (of_nat 1) (of_nat 0) m1 = (Inr (), m2) \<and> stores m2 gs \<and> (gs \<noteq> [] \<longrightarrow> has_file ''/old'' gs)"
  using replacement_order [of ex_mem ex_files "''/old''" 2 10 1 0 LRU] by auto

section \<open>Missing the limits\<close>

text \<open>
  C34. A write of exactly as many bytes as the memory limit evicts nothing (the algorithm
  compares strictly), so the cache afterwards holds more bytes than its limit.
\<close>

theorem exact_write_exceeds_limit:
  assumes "srv_ok s fs F" and "job_ok s F j w" and "op w = WRITE_FILE" and "has_file (jfilename w) fs"
    and "limits (mem s) mf mx" and "within mf mx fs" and "0 < content_bytes fs" and "length bs = mx"
    and "inp (socks s (client_fd w)) = Data (num (of_nat (length bs))) # map Data (message_segments bs) @ es"
    and "malloc_ok (slibc (socks s (client_fd w))) (of_nat (length bs) + 1)"
  shows "\<exists>s' gs. serve (Some j) s = (Inr Next_job, s') \<and> stores (mem s') gs \<and> limits (mem s') mf mx \<and>
    content_bytes gs = content_bytes fs + mx \<and> mx < content_bytes gs"
proof -
  let ?nm = "jfilename w" and ?t = "touch (policy (conf s)) (jfilename w) fs"
  have b: "content_bytes fs < 2 ^ 31" "length bs < 2 ^ 31" using assms(5,6,8) by (simp_all add: within_def limits_def)
  have cr: "cache_result 0 mx mf mx ?t = ?t"
    using assms(6) by (simp add: cache_result_def room_def Let_def after_file_round_def within_def)
  have d: "distinct (map cname ?t)"
    using distinct_touch [OF stores_names(1)] assms(1) by (auto simp: srv_ok_def)
  have has: "has_file ?nm ?t" using assms(4) by simp
  have "answers (serve (Some j)) s F j w es (spec_write (policy (conf s)) mf mx ?nm (length bs) bs fs)"
    using case_write_run [OF assms(1,2,4,5) b(2) _ b(1) assms(9,10)] assms(8)
    by (simp add: answers_def serve_is(4) [OF job_okD [OF assms(2)] assms(3)])
  moreover have "files (spec_write (policy (conf s)) mf mx ?nm (length bs) bs fs) =
      edit ?nm (\<lambda>c. c\<lparr>ccontent := ccontent c @ bs\<rparr>) ?t"
    using assms(4,8) cr by (simp add: spec_write_def)
  ultimately obtain s' where s': "serve (Some j) s = (Inr Next_job, s')"
      "stores (mem s') (edit ?nm (\<lambda>c. c\<lparr>ccontent := ccontent c @ bs\<rparr>) ?t)" "keeps (mem s) (mem s')"
    by (auto simp: answers_def reply_def)
  with content_edit_append [OF d has] assms(7,8) keeps_limits [OF s'(3) assms(5)] show ?thesis by auto
qed

lemma ex_ten: "length ''0123456789'' = 10" by simp

theorem exact_write_exceeds_limit_witness:
  "\<exists>s' gs. serve (Some 0) (ex_srv LRU (ex_job WRITE_FILE 0 ''/old'') (Data (num 10) # map Data (message_segments ''0123456789''))) =
      (Inr Next_job, s') \<and> stores (mem s') gs \<and> content_bytes gs = 17"
  using exact_write_exceeds_limit [of "ex_srv LRU (ex_job WRITE_FILE 0 ''/old'') (Data (num 10) # map Data (message_segments ''0123456789''))"
      ex_files ex_F 0 "ex_job WRITE_FILE 0 ''/old''" 2 10 "''0123456789''" "[]"]
  by auto

text \<open>
  C35. The check of the limits narrows the number of bytes to an \<open>int\<close>: a request for
  $2^{32}$ bytes, more than any limit below it, is found legal in every cache within its
  limits, nothing is evicted and no error is reported.
\<close>

theorem huge_request_is_legal:
  assumes "stores m fs" and "limits m mf mx" and "within mf mx fs"
  shows "\<exists>m'. cache_algorithm 0 (of_nat (2 ^ 32)) m = (Inr (), m') \<and> stores m' fs \<and> errno m' = ECANCELED \<and>
    MaxMemory m < (of_nat (2 ^ 32) :: u64)"
proof -
  have n: "narrow (of_nat (2 ^ 32)) = 0" by (simp add: unsigned_of_nat word_eq_iff_unsigned)
  obtain as where wf: "mem_wf m as" and fs: "view m as = fs" using assms(1) by (auto simp: stores_def)
  have la: "length as = length fs" using fs by (metis length_view)
  have len: "length as < 2 ^ 31" using mem_wfD(5) [OF wf] .
  have "cache_algorithm 0 (of_nat 0) m = (Inr (), (marked 0 0 (m\<lparr>errno := 0\<rparr>))\<lparr>errno := ECANCELED\<rparr>)"
    using cache_algorithm_legal [OF wf assms(2), of 0 0] len assms(3) fs la by (simp add: within_def limits_def)
  moreover have "is_action_legal 0 0 (m\<lparr>errno := 0\<rparr>) = (Inr 1, marked 0 0 (m\<lparr>errno := 0\<rparr>))"
  proof -
    have wf': "mem_wf (m\<lparr>errno := 0\<rparr>) as" "limits (m\<lparr>errno := 0\<rparr>) mf mx" "view (m\<lparr>errno := 0\<rparr>) as = fs"
      using wf assms(2) fs by (simp_all add: limits_def view_def)
    show ?thesis
      using legal_iff [OF wf'(1,2), of 0 0] wf'(3) len assms(2,3) la is_action_legal_run [OF mem_wf_unlocked [OF wf'(1)], of 0 0]
      by (simp add: within_def limits_def)
  qed
  then have "cache_algorithm 0 (of_nat (2 ^ 32)) m = (Inr (), (marked 0 0 (m\<lparr>errno := 0\<rparr>))\<lparr>errno := ECANCELED\<rparr>)"
    unfolding cache_algorithm_def n by (simp add: sq_def bnd_run)
  moreover have "stores ((marked 0 0 (m\<lparr>errno := 0\<rparr>))\<lparr>errno := ECANCELED\<rparr>) fs"
    using wf fs by (auto simp: stores_def view_def)
  moreover have "MaxMemory m < (of_nat (2 ^ 32) :: u64)"
    using assms(2) by (simp add: limits_def word_less_nat_alt unat_of_nat)
  ultimately show ?thesis by auto
qed

theorem huge_request_is_legal_witness:
  "\<exists>m'. cache_algorithm 0 (of_nat (2 ^ 32)) ex_mem = (Inr (), m') \<and> errno m' = ECANCELED"
  using huge_request_is_legal [OF ex_stores ex_limits ex_within] by blast

section \<open>The order of the list\<close>

text \<open>
  C14. The policy decides what is evicted and nothing else: any sequence of opening, closing,
  appending to and removing files by name returns, keeps the cache well formed, and maps the
  names to the same files under \<open>FIFO\<close> and under \<open>LRU\<close>, namely those of the operations
  on the map.
\<close>

theorem policy_keeps_contents:
  assumes "stores m fs" and "\<forall>p \<in> set ps. fop_ok p"
  shows "\<exists>m1 m2 gs hs. by_names cache_find cache_act FIFO ps m = (Inr (), m1) \<and> stores m1 gs \<and>
    by_names cache_find cache_act LRU ps m = (Inr (), m2) \<and> stores m2 hs \<and>
    (\<forall>x. lookup_file x gs = lookup_file x hs \<and> lookup_file x gs = fold fop_map ps (\<lambda>x. lookup_file x fs) x)"
  using store.by_names_law [OF assms, of FIFO] store.by_names_law [OF assms, of LRU] by (metis (no_types))

theorem policy_keeps_contents_witness:
  "\<exists>m1 gs. by_names cache_find cache_act FIFO [Append_named ''/old'' ''hi'', Remove_named ''/new''] ex_mem = (Inr (), m1) \<and>
    stores m1 gs \<and> lookup_file ''/new'' gs = None"
  using policy_keeps_contents [OF ex_stores, of "[Append_named ''/old'' ''hi'', Remove_named ''/new'']"]
  by (simp add: nul_free_def fop_map_def del: by_names.simps) metis

end
