(* ===== verification/Wire_Props.thy ===== *)
theory Wire_Props
  imports Examples
begin

text \<open>
  Properties of the wire: messages and numbers through sockets that cut the stream.
\<close>

lemma recv_message_pieces:
  assumes "inp s = Data (num (of_nat (length (concat cs)))) # map Data cs @ es" and "[] \<notin> set cs"
    and "length (concat cs) < 2 ^ 63" and "malloc_ok (slibc s) (of_nat (length (concat cs)) + 1)"
  shows "recv_message s = (Inr (Some (concat cs @ [NUL])), s\<lparr>inp := es\<rparr>)"
proof -
  let ?n = "of_nat (length (concat cs)) :: u64"
  have n: "unat ?n = length (concat cs)" using assms(3) by (intro unat_of_nat_small) simp
  have si: "sint ?n = int (length (concat cs))" using assms(3) by (rule sint64_of_nat_small)
  have "recv_number s = (Inr ?n, s\<lparr>inp := map Data cs @ es\<rparr>)" using assms(1) by simp
  moreover have "readn (length (concat cs)) (s\<lparr>inp := map Data cs @ es\<rparr>) =
      (Inr (int (length (concat cs)), concat cs), s\<lparr>inp := es\<rparr>)"
    using readn_pieces [of "s\<lparr>inp := map Data cs @ es\<rparr>" cs es] assms(2) by simp
  ultimately show ?thesis using assms(4) by (simp add: recv_message_def bnd_run sq_def n si)
qed

text \<open>
  C15. A message survives sockets that cut its content: if the sender's socket takes the eight
  bytes of the length at once (a length in pieces is misread, C39) and then, write after write,
  any positive number of bytes, the sender reports success, and a receiver to whom the same pieces arrive, with anything behind them,
  gets exactly the message and leaves exactly what was behind it.
\<close>

theorem message_roundtrip:
  assumes "wrs a = Some k # ws" and "8 \<le> k" and "\<forall>w \<in> set ws. \<exists>i. w = Some (Suc i)" and "outp a = []"
    and "length bs < 2 ^ 63" and "malloc_ok (slibc b) (of_nat (length bs) + 1)"
  shows "\<exists>a'. send_message bs (of_nat (length bs)) a = (Inr 0, a') \<and>
    recv_message (b\<lparr>inp := map Data (outp a') @ es\<rparr>) = (Inr (Some (bs @ [NUL])), b\<lparr>inp := es\<rparr>)"
proof -
  let ?n = "of_nat (length bs) :: u64"
  have n: "unat ?n = length bs" using assms(5) by (intro unat_of_nat_small) simp
  let ?a = "a\<lparr>wrs := ws, outp := [num ?n]\<rparr>"
  have sn: "send_number ?n a = (Inr 8, ?a)"
    using assms(1,2,4) by (simp add: send_number_def bnd_run sys_write_def min_def)
  from writen_partial [of ?a bs] assms(3) obtain cs vs where
    cs: "writen bs ?a = (Inr (int (length bs)), ?a\<lparr>wrs := vs, outp := num ?n # cs\<rparr>)" "concat cs = bs" "[] \<notin> set cs" by auto
  let ?a' = "?a\<lparr>wrs := vs, outp := num ?n # cs\<rparr>"
  have "send_message bs ?n a = (Inr 0, ?a')"
    using sn cs(1) by (simp add: send_message_def bnd_run n)
  moreover have "recv_message (b\<lparr>inp := map Data (outp ?a') @ es\<rparr>) = (Inr (Some (bs @ [NUL])), b\<lparr>inp := es\<rparr>)"
    using recv_message_pieces [of "b\<lparr>inp := map Data (outp ?a') @ es\<rparr>" cs es] cs(2,3) assms(5,6) by simp
  ultimately show ?thesis by blast
qed

theorem message_roundtrip_witness:
  "\<exists>a'. send_message ''hello'' (of_nat (length ''hello'')) ((ex_sock [])\<lparr>wrs := [Some 8, Some 2, Some 1]\<rparr>) = (Inr 0, a') \<and>
    recv_message ((ex_sock [])\<lparr>inp := map Data (outp a') @ [Read_error]\<rparr>) = (Inr (Some (''hello'' @ [NUL])), ex_sock [Read_error])"
  using message_roundtrip [of "(ex_sock [])\<lparr>wrs := [Some 8, Some 2, Some 1]\<rparr>" 8 "[Some 2, Some 1]" "''hello''" "ex_sock []" "[Read_error]"]
  by (simp add: ex_sock_def)

text \<open>
  C39. A number is read with a single call: if its eight bytes arrive in two pieces, the bytes
  of the second piece stay on the socket, to be taken for the next number, and for some
  content of the uninitialised variable the result is not the number sent.
\<close>

theorem number_in_pieces_is_misread:
  assumes "inp s = Data b1 # Data b2 # es" and "b1 @ b2 = num n" and "0 < length b1" and "length b1 < 8"
  shows "\<exists>j x. length j = 8 \<and> recv_number (s\<lparr>junk := j\<rparr>) = (Inr x, s\<lparr>junk := j, inp := Data b2 # es\<rparr>) \<and> x \<noteq> n"
proof -
  define c where "c = (if last (num n) = NUL then CHR 0x01 else NUL)"
  define j where "j = replicate 8 c"
  let ?bs = "b1 @ drop (length b1) j"
  have l: "length ?bs = 8" using assms(4) by (simp add: j_def)
  have lb: "?bs \<noteq> []" using l by auto
  have run: "recv_number (s\<lparr>junk := j\<rparr>) = (Inr (bytes_num ?bs), s\<lparr>junk := j, inp := Data b2 # es\<rparr>)"
    using assms(1,3,4) l by (simp add: recv_number_def bnd_run sys_read_def)
  have "last ?bs = c" using assms(4) by (simp add: j_def last_append)
  moreover have "c \<noteq> last (num n)" by (auto simp: c_def)
  ultimately have ne: "?bs \<noteq> num n" by metis
  have "bytes_num ?bs \<noteq> bytes_num (num n)" using bytes_num_inj [OF l length_num_bytes] ne by blast
  with run show ?thesis by (intro exI [of _ j] exI [of _ "bytes_num ?bs"]) (simp add: j_def)
qed

theorem number_in_pieces_is_misread_witness:
  "\<exists>j x. recv_number ((ex_sock [Data [CHR 0x05], Data (replicate 7 NUL)])\<lparr>junk := j\<rparr>) =
    (Inr x, (ex_sock [Data [CHR 0x05], Data (replicate 7 NUL)])\<lparr>junk := j, inp := [Data (replicate 7 NUL)]\<rparr>) \<and> x \<noteq> 5"
proof -
  have "[CHR 0x05] @ replicate 7 NUL = num 5" by code_simp
  from number_in_pieces_is_misread [OF _ this, of "ex_sock [Data [CHR 0x05], Data (replicate 7 NUL)]" "[]"]
  show ?thesis by auto
qed

end
