(* ===== verification/Frame.thy ===== *)
theory Frame
  imports Session
begin

text \<open>
  What a thread's run leaves alone, whatever the bytes on the sockets and the state of the
  cache: the commands on the cache and on the sockets do not touch the jobs and the lists,
  and a case of the switch hands its job to the client's list exactly once. Nothing is
  assumed of the cache here, so this holds of requests the refinement leaves out.
\<close>

named_theorems frame_intros

section \<open>Commands that keep the jobs and the lists\<close>

definition same_lists :: "srv \<Rightarrow> srv \<Rightarrow> bool" where
  "same_lists s t \<longleftrightarrow>
     qs t = qs s \<and> jobs t = jobs s \<and> jfresh t = jfresh s \<and> workList t = workList s \<and> conf t = conf s \<and>
     serverMode t = serverMode s \<and> args_slot t = args_slot s \<and> threads t = threads s \<and> masks t = masks s"

definition frames :: "'a scmd \<Rightarrow> bool" where
  "frames m \<longleftrightarrow> (\<forall>s. same_lists s (snd (m s)))"

lemma same_lists_refl [simp]: "same_lists s s"
  by (simp add: same_lists_def)

lemma same_lists_trans: "same_lists s t \<Longrightarrow> same_lists t u \<Longrightarrow> same_lists s u"
  by (simp add: same_lists_def)

lemma framesD: "frames m \<Longrightarrow> m s = (r, t) \<Longrightarrow> same_lists s t"
  by (metis frames_def snd_conv)

lemma frames_ret [frame_intros]: "frames (ret x)" "frames (stop e)" "frames (gets g)"
  by (simp_all add: frames_def)

lemma frames_mem [frame_intros]: "frames (in_mem m)"
  by (simp add: frames_def zoom_run same_lists_def split: prod.split)

lemma frames_wk [frame_intros]: "frames (in_wk m)"
  by (simp add: frames_def zoom_run same_lists_def split: prod.split)

lemma frames_sock [frame_intros]: "frames (on_sock fd m)"
  by (simp add: frames_def on_sock_def same_lists_def split: prod.split)

lemma frames_bnd [frame_intros]:
  assumes "frames m" and "\<And>x. frames (f x)"
  shows "frames (bnd m f)"
  unfolding frames_def
proof
  fix s
  obtain r t where m: "m s = (r, t)" by fastforce
  have "same_lists t (snd (f x t))" for x using assms(2) by (simp add: frames_def)
  then show "same_lists s (snd (bnd m f s))"
    using framesD [OF assms(1) m] m by (auto simp: bnd_run intro: same_lists_trans split: sum.split)
qed

lemma frames_sq [frame_intros]: "frames m \<Longrightarrow> frames k \<Longrightarrow> frames (sq m k)"
  unfolding sq_def by (rule frames_bnd)

lemma frames_if [frame_intros]: "frames m \<Longrightarrow> frames k \<Longrightarrow> frames (if b then m else k)"
  by simp

lemma frames_send [frame_intros]:
  "frames (s_send_number fd n)" "frames (s_send_message fd bs n)" "frames (error_handling_minus e)"
  unfolding s_send_number_def s_send_message_def error_handling_minus_def by (intro frame_intros)+

lemma frames_jderef [frame_intros]: "frames (jderef p)"
  by (auto simp: frames_def jderef_def bnd_run split: option.split)

lemma frames_readn_files [frame_intros]: "frames (readn_files k fd p)"
  by (induction k arbitrary: p) (auto intro!: frame_intros)

lemma frames_send_count [frame_intros]: "frames (readn_send_count w n)"
  unfolding readn_send_count_def Let_def by (intro frame_intros)

lemma frames_send_response [frame_intros]: "frames (send_response p)"
  unfolding send_response_def by (intro frame_intros)

section \<open>Cases that answer once\<close>

text \<open>
  \<open>answers_once p m\<close>: when \<open>m\<close> returns, it has called
  \<open>set_response_for_client_and_push\<close> on the job exactly once, and the worker goes on.
\<close>

definition answers_once :: "addr option \<Rightarrow> wctl scmd \<Rightarrow> bool" where
  "answers_once p m \<longleftrightarrow>
     (\<forall>s c t. m s = (Inr c, t) \<longrightarrow> c = Next_job \<and>
        (\<exists>s1 s2 e st. same_lists s s1 \<and> set_response_for_client_and_push p e st s1 = (Inr (), s2) \<and> same_lists s2 t))"

lemma once_answer: "answers_once p (answer p e st)"
proof -
  have "\<exists>s1 s2 e st. same_lists s s1 \<and> set_response_for_client_and_push p e st s1 = (Inr (), s2) \<and> same_lists s2 t"
    if "set_response_for_client_and_push p e st s = (Inr (), t)" for s t
    using that same_lists_refl by blast
  then show ?thesis by (auto simp: answers_once_def sq_def bnd_run split: prod.splits sum.splits)
qed

lemma once_then:
  assumes "frames k"
  shows "answers_once p (sq (set_response_for_client_and_push p e st) (sq k (ret Next_job)))"
  unfolding answers_once_def
proof (intro allI impI)
  fix s c t assume "sq (set_response_for_client_and_push p e st) (sq k (ret Next_job)) s = (Inr c, t)"
  then obtain s2 where s2: "set_response_for_client_and_push p e st s = (Inr (), s2)"
      and "sq k (ret Next_job) s2 = (Inr c, t)"
    by (auto simp: sq_def bnd_run [where m = "set_response_for_client_and_push p e st"] split: prod.splits sum.splits)
  then obtain x where "k s2 = (Inr x, t)" "c = Next_job" by (auto simp: sq_def bnd_run split: prod.splits sum.splits)
  with framesD [OF assms] s2 show "c = Next_job \<and> (\<exists>s1 s2 e st. same_lists s s1 \<and>
      set_response_for_client_and_push p e st s1 = (Inr (), s2) \<and> same_lists s2 t)"
    using same_lists_refl by blast
qed

lemma once_stop: "answers_once p (stop e)"
  by (simp add: answers_once_def)

lemma once_bnd:
  assumes "frames m" and "\<And>x. answers_once p (f x)"
  shows "answers_once p (bnd m f)"
  unfolding answers_once_def
proof (intro allI impI)
  fix s c t assume "bnd m f s = (Inr c, t)"
  then obtain x u where m: "m s = (Inr x, u)" and f: "f x u = (Inr c, t)" by (rule bnd_InrE)
  from assms(2) [of x] f obtain s1 s2 e st where
    "c = Next_job" "same_lists u s1" "set_response_for_client_and_push p e st s1 = (Inr (), s2)" "same_lists s2 t"
    unfolding answers_once_def by blast
  with same_lists_trans [OF framesD [OF assms(1) m]]
  show "c = Next_job \<and> (\<exists>s1 s2 e st. same_lists s s1 \<and>
      set_response_for_client_and_push p e st s1 = (Inr (), s2) \<and> same_lists s2 t)" by blast
qed

lemma once_sq: "frames m \<Longrightarrow> answers_once p k \<Longrightarrow> answers_once p (sq m k)"
  unfolding sq_def by (rule once_bnd)

lemma once_if: "answers_once p m \<Longrightarrow> answers_once p k \<Longrightarrow> answers_once p (if b then m else k)"
  by simp

lemma once_option:
  "answers_once p m \<Longrightarrow> (\<And>x. answers_once p (f x)) \<Longrightarrow> answers_once p (case v of None \<Rightarrow> m | Some x \<Rightarrow> f x)"
  by (cases v) simp_all

lemmas once_rules = once_answer once_stop once_if once_option

lemma once_open: "answers_once p (case_open p w)"
  unfolding case_open_def case_open_create_def
  by (rule once_rules once_bnd once_sq frame_intros)+

lemma once_read: "answers_once p (case_read p w)"
  unfolding case_read_def by (rule once_rules once_bnd once_sq frame_intros)+

lemma once_write: "answers_once p (case_write p w)"
  unfolding case_write_def by (rule once_rules once_bnd once_sq frame_intros)+

lemma once_append: "answers_once p (case_append p w)"
  unfolding case_append_def by (rule once_rules once_bnd once_sq frame_intros)+

lemma once_readn: "answers_once p (case_readn p w)"
  unfolding case_readn_def by (rule once_rules once_bnd once_sq frame_intros)+

lemma once_remove: "answers_once p (case_remove p w)"
  unfolding case_remove_def by (rule once_rules once_bnd once_sq frame_intros)+

lemma once_close_connection: "answers_once p (case_close_connection p)"
  unfolding case_close_connection_def by (rule once_then frame_intros)+

text \<open>The operations whose case answers once: all but \<open>CLOSE_FILE\<close>, which runs on into the next.\<close>

definition answering :: "i32 \<Rightarrow> bool" where
  "answering opc \<longleftrightarrow> opc \<in> {OPEN_FILE, READ_FILE, WRITE_FILE, APPEND_FILE, READN_FILE, REMOVE_FILE, CLOSE_CONNECTION}"

lemma serve_once:
  assumes "jobs s j = Some w" and "answering (op w)" and "serve (Some j) s = (Inr c, t)"
  shows "c = Next_job \<and> (\<exists>s1 s2 e st. same_lists s s1 \<and>
    set_response_for_client_and_push (Some j) e st s1 = (Inr (), s2) \<and> same_lists s2 t)"
proof -
  have "\<exists>m. answers_once (Some j) m \<and> serve (Some j) s = m s"
    using assms(2) serve_is [OF assms(1)] once_open once_read once_write once_append once_readn once_remove
      once_close_connection
    unfolding answering_def by blast
  with assms(3) show ?thesis unfolding answers_once_def by metis
qed

text \<open>So the job, with an answer in it, is at the end of its client's list and nothing else changed.\<close>

lemma answer_pushes:
  assumes w: "jobs s j = Some w" and q: "queues (qs s) F"
    and l: "client_queue w = Some l" "F l = Some xs" "length xs < list_cap"
  shows "\<exists>q. set_response_for_client_and_push (Some j) e st s =
      (Inr (), s\<lparr>jobs := (jobs s)(j \<mapsto> w\<lparr>jerr := e, status_request := st\<rparr>), qs := q\<rparr>) \<and> queues q (F(l \<mapsto> xs @ [j]))"
proof -
  from mb.put [OF q l(2,3), of j] obtain q' where
    q': "send_obj l j (qs s) = (Inr 0, q')" "queues q' (F(l \<mapsto> xs @ [j]))" by blast
  have "set_response_for_client_and_push (Some j) e st s =
      (Inr (), s\<lparr>jobs := (jobs s)(j \<mapsto> w\<lparr>jerr := e, status_request := st\<rparr>), qs := q'\<rparr>)"
    using w l(1) q'(1) queues_small [OF q] by (intro set_response_run) simp_all
  with q'(2) show ?thesis by blast
qed

text \<open>Commands that keep the jobs and the lists change the cache, the sockets and the worker count only.\<close>

lemma same_lists_elsewhere: "same_lists s t \<Longrightarrow> t = s\<lparr>mem := mem t, socks := socks t, wk := wk t\<rparr>"
  by (simp add: same_lists_def)

end
