(* ===== verification/Thread_Steps.thy ===== *)
theory Thread_Steps
  imports Frame
begin

text \<open>
  The effect of each thread's run on the jobs and the lists, for whatever arrives on the
  sockets: a client's request, its response, a worker's round, the accepting of a client and
  the flooding of the work list.
\<close>

section \<open>Lists that go and lists that are signalled\<close>

lemma queues_free_list:
  assumes "queues q F"
  shows "queues (q\<lparr>lists := (lists q)(l := None)\<rparr>) (F(l := None))"
proof -
  let ?q = "q\<lparr>lists := (lists q)(l := None)\<rparr>"
  obtain N where b: "boxes q F N" using assms by (auto simp: queues_def)
  have "queue_wf ?q m (N m) \<and> rev (objs ?q (N m)) = map Some xs" if "m \<noteq> l" "F m = Some xs" for m xs
    using queue_wf_frame [OF boxesD(1) [OF b that(2)], of ?q] boxesD(2) [OF b that(2)] that(1) b
    by (simp add: boxes_def)
  then have "boxes ?q (F(l := None)) N" using b by (auto simp: boxes_def)
  then show ?thesis by (auto simp: queues_def)
qed

lemma wake_up_run:
  assumes "queues q F" and "F l = Some xs"
  shows "\<exists>q'. wake_up_all_readers (Some l) q = (Inr (), q') \<and> queues q' F"
proof -
  obtain N where b: "boxes q F N" using assms(1) by (auto simp: queues_def)
  from boxesD(1) [OF b assms(2)] obtain L where L: "lists q l = Some L" "\<not> listLock L" "libc_ok (qlibc q)"
    by (auto simp: queue_wf_def)
  let ?q = "q\<lparr>lists := (lists q)(l \<mapsto> listCond_update Suc L)\<rparr>"
  have "wake_up_all_readers (Some l) q = (Inr (), ?q)"
    using L by (simp add: wake_up_all_readers_def sq_def bnd_run lock_list_def signal_list_def unlock_list_def)
  moreover have "queue_wf ?q m (N m)" if "F m = Some ys" for m ys
    using boxesD(1) [OF b that] L(1) by (auto simp: queue_wf_def)
  then have "boxes ?q F N" using b by (auto simp: boxes_def objs_def)
  ultimately show ?thesis by (auto simp: queues_def)
qed

section \<open>A request\<close>

lemma jobInit_run:
  assumes "small_ok (qlibc (qs s))"
  shows "jobInit opc flgs (Some nm) (Some l) fd s =
    (if MAXNAME \<le> length (cstr nm) then (Inr None, s)
     else (Inr (Some (jfresh s)), s\<lparr>jfresh := Suc (jfresh s), jobs := (jobs s)(jfresh s \<mapsto>
       \<lparr>op = opc, flags = flgs, jfilename = cstr nm, client_queue = Some l, jerr = INITED,
        status_request = INITED, client_fd = fd\<rparr>)\<rparr>))"
  using small_okD [OF assms, of sizeof_Job] by (simp add: jobInit_def sq_def bnd_run)

lemma push_job_run:
  assumes q: "queues (qs s) F" and l: "F wl = Some W" "length W < list_cap"
  shows "\<exists>q'. queues q' (F(wl \<mapsto> W @ [j])) \<and>
    bnd (create_work (Some j)) (\<lambda>work. bnd (in_qs (push_node_to_list (Some wl) work)) f) s = f 0 (s\<lparr>qs := q'\<rparr>) \<and>
    (workList s = Some wl \<longrightarrow> bnd (create_work (Some j)) (\<lambda>work. bnd (gets workList) (\<lambda>l.
      bnd (in_qs (push_node_to_list l work)) f)) s = f 0 (s\<lparr>qs := q'\<rparr>))"
proof -
  from mb.put [OF q l, of j] obtain q' where
    q': "send_obj wl j (qs s) = (Inr 0, q')" "queues q' (F(wl \<mapsto> W @ [j]))" by blast
  have "malloc_ok (qlibc (qs s)) sizeof_Node" using queues_small [OF q] by (rule small_okD) simp
  with q' show ?thesis
    by (intro exI [of _ q']) (simp add: create_work_def bnd_run zoom_run send_obj_def create_node_run)
qed

lemma client_request_effect:
  assumes r: "client_request fd (Some l) s = (Inr pushed, t)" and q: "queues (qs s) F"
    and wl: "workList s = Some wl" "F wl = Some W" "length W < list_cap"
  shows "(\<not> pushed \<and> same_lists s t) \<or>
    (pushed \<and> (\<exists>w. jobs t = (jobs s)(jfresh s \<mapsto> w) \<and> client_queue w = Some l \<and> client_fd w = fd) \<and>
      jfresh t = Suc (jfresh s) \<and> queues (qs t) (F(wl \<mapsto> W @ [jfresh s])) \<and>
      workList t = workList s \<and> conf t = conf s \<and> serverMode t = serverMode s \<and> args_slot t = args_slot s)"
proof -
  from r obtain opc s1 msg s2 flgs s3 where
    s1: "on_sock fd recv_number s = (Inr opc, s1)" and s2: "on_sock fd recv_message s1 = (Inr msg, s2)"
    and s3: "on_sock fd recv_number s2 = (Inr flgs, s3)"
    and rest: "(if msg = None then ret False
       else
         bnd (jobInit (narrow opc) (narrow flgs) msg (Some l) fd) (\<lambda>job.
         bnd (create_work job) (\<lambda>work.
         bnd (gets workList) (\<lambda>wl.
         bnd (in_qs (push_node_to_list wl work)) (\<lambda>err.
           if sint err < 0 then stop Exit_failure else ret True))))) s3 = (Inr pushed, t)"
    unfolding client_request_def by (elim bnd_InrE)
  have f: "same_lists s s3"
    using framesD [OF frames_sock s1] framesD [OF frames_sock s2] framesD [OF frames_sock s3]
    by (blast intro: same_lists_trans)
  show ?thesis
  proof (cases msg)
    case None
    with rest f show ?thesis by simp
  next
    case (Some nm)
    have q3: "queues (qs s3) F" and wl3: "workList s3 = Some wl" using f q wl by (simp_all add: same_lists_def)
    note ji = jobInit_run [OF queues_small [OF q3], of "narrow opc" "narrow flgs" nm l fd]
    show ?thesis
    proof (cases "MAXNAME \<le> length (cstr nm)")
      case True
      with ji rest Some show ?thesis
        by (simp add: bnd_run create_work_def zoom_run push_null)
    next
      case False
      let ?w = "\<lparr>op = narrow opc, flags = narrow flgs, jfilename = cstr nm, client_queue = Some l, jerr = INITED,
        status_request = INITED, client_fd = fd\<rparr>"
      let ?s4 = "s3\<lparr>jfresh := Suc (jfresh s3), jobs := (jobs s3)(jfresh s3 \<mapsto> ?w)\<rparr>"
      from push_job_run [of ?s4 F wl W "jfresh s3" "\<lambda>err. if sint err < 0 then stop Exit_failure else ret True"]
        q3 wl(2,3) obtain q' where
        q': "queues q' (F(wl \<mapsto> W @ [jfresh s3]))"
          "bnd (create_work (Some (jfresh s3))) (\<lambda>work. bnd (gets workList) (\<lambda>l. bnd (in_qs (push_node_to_list l work))
             (\<lambda>err. if sint err < 0 then stop Exit_failure else ret True))) ?s4 = (Inr True, ?s4\<lparr>qs := q'\<rparr>)"
        using wl3 by auto
      have "pushed \<and> t = ?s4\<lparr>qs := q'\<rparr>"
        using rest Some ji False q'(2) by (simp add: bnd_run [where s = s3])
      moreover have "\<exists>w. jobs ?s4 = (jobs s)(jfresh s \<mapsto> w) \<and> client_queue w = Some l \<and> client_fd w = fd"
        using f by (intro exI [of _ ?w]) (simp add: same_lists_def)
      ultimately show ?thesis using f q'(1) by (simp add: same_lists_def)
    qed
  qed
qed

section \<open>A response\<close>

definition undefined_behaviour :: "fault set" where
  "undefined_behaviour = {Null_deref, Use_after_free, Out_of_bounds, Int_overflow}"

lemma slog_faults: "slog f as s = (Inl e, t) \<Longrightarrow> e \<notin> undefined_behaviour"
  by (auto simp: undefined_behaviour_def log_msg_def safe_pthread_mutex_lock_def safe_pthread_mutex_unlock_def
      zoom_run bnd_run sq_def split: prod.splits sum.splits if_splits)

lemma send_response_effect:
  assumes "jobs s j = Some w"
  shows "\<exists>r t. send_response (Some j) s = (Inr r, t) \<and> same_lists s t \<and> (\<forall>d. d \<noteq> client_fd w \<longrightarrow> socks t d = socks s d)"
proof -
  have one: "\<exists>r t. s_send_number fd n u = (Inr r, t) \<and> same_lists u t \<and> (\<forall>d. d \<noteq> fd \<longrightarrow> socks t d = socks u d)" for fd n u
    by (auto simp: s_send_number_def sq_def bnd_run zoom_run on_sock_def send_number_def sys_write_def same_lists_def
        split: option.splits prod.splits list.splits)
  obtain r1 t1 where 1: "s_send_number (client_fd w) (widen (status_request w)) s = (Inr r1, t1)"
    "same_lists s t1" "\<forall>d. d \<noteq> client_fd w \<longrightarrow> socks t1 d = socks s d" using one by blast
  obtain r2 t2 where 2: "s_send_number (client_fd w) (widen (jerr w)) t1 = (Inr r2, t2)"
    "same_lists t1 t2" "\<forall>d. d \<noteq> client_fd w \<longrightarrow> socks t2 d = socks t1 d" using one by blast
  have 3: "same_lists s t2" by (rule same_lists_trans [OF 1(2) 2(2)])
  show ?thesis
    using assms 1 2 3 by (auto simp: send_response_def jderef_def bnd_run)
qed

lemma client_response_effect:
  assumes q: "queues (qs s) F" and l: "F l = Some (j # xs)" and w: "jobs s j = Some w"
    and r: "client_response (Some l) s = (r, t)"
  shows "(\<exists>e. r = Inl e \<and> e \<notin> undefined_behaviour) \<or>
    (r = Inr (op w \<noteq> CLOSE_CONNECTION) \<and> jobs t = (jobs s)(j := None) \<and> jfresh t = jfresh s \<and>
      queues (qs t) (F(l := (if op w = CLOSE_CONNECTION then None else Some xs))) \<and>
      workList t = workList s \<and> conf t = conf s \<and> serverMode t = serverMode s \<and> args_slot t = args_slot s \<and>
      (\<forall>d. d \<noteq> client_fd w \<longrightarrow> socks t d = socks s d))"
proof -
  from mb.get [OF q l] obtain q' where
    q': "take_obj l (qs s) = (Inr j, q')" "queues q' (F(l \<mapsto> xs))" by blast
  from take_obj_parts [OF q'(1)] obtain a n q1 where
    p: "pop_element_from_tail (Some l) (qs s) = (Inr (Some a), q1)" "nodes q1 a = Some n"
      "free_node (Some a) q1 = (Inr (), q')" "obj n = Some j" by blast
  let ?s1 = "s\<lparr>qs := q1\<rparr>"
  from send_response_effect [of ?s1 j w] w obtain er s2 where
    s2: "send_response (Some j) ?s1 = (Inr er, s2)" "same_lists ?s1 s2" "\<forall>d. d \<noteq> client_fd w \<longrightarrow> socks s2 d = socks s d"
    by auto
  let ?log = "if sint er < 0
         then slog (line ''Error sending response to client %d, OP : %d failed'')
                [LN (of_nat (client_fd w)), LN (widen (op w))]
         else ret ()"
  obtain r3 s3 where s3: "?log s2 = (r3, s3)" by fastforce
  have f3: "same_lists s2 s3" by (rule framesD [of ?log s2 r3 s3, OF _ s3]) (intro frame_intros)
  have k3: "\<forall>d. socks s3 d = socks s2 d" using s3 by (auto simp: zoom_run split: prod.splits if_splits)
  have qs3: "qs s3 = q1" "jobs s3 = jobs s" using s2(2) f3 by (simp_all add: same_lists_def)
  have q1n: "q' = q1\<lparr>nodes := (nodes q1)(a := None)\<rparr>" using p(3) by (auto simp: free_node_def)
  show ?thesis
  proof (cases r3)
    case (Inl e)
    then have "e \<notin> undefined_behaviour" using s3 slog_faults by (auto split: if_splits)
    moreover have "r = Inl e"
      using r p w s2(1) s3 Inl
      by (simp add: client_response_def bnd_run [where s = s] bnd_run [where s = ?s1] bnd_run [where s = s2] sq_def zoom_run jderef_def)
    ultimately show ?thesis by blast
  next
    case (Inr u)
    define f where "f = sq (in_qs (free_node (Some a))) (sq (free_job (Some j))
      (if op w = CLOSE_CONNECTION then sq (in_qs (free_list (Some l))) (ret False) else ret True))"
    have "client_response (Some l) s = f s3"
      using p w s2(1) s3 Inr
      by (simp add: client_response_def f_def bnd_run [where s = s] bnd_run [where s = ?s1] bnd_run [where s = s2] sq_def zoom_run jderef_def)
    moreover have "f s3 = (Inr (op w \<noteq> CLOSE_CONNECTION), s3\<lparr>qs := (if op w = CLOSE_CONNECTION
        then q'\<lparr>lists := (lists q')(l := None)\<rparr> else q'), jobs := (jobs s)(j := None)\<rparr>)"
      by (simp add: f_def sq_def bnd_run zoom_run free_node_def free_job_def free_list_def qs3 q1n)
    ultimately show ?thesis
      using r q'(2) queues_free_list [OF q'(2), of l] s2(2,3) f3 k3 by (auto simp: same_lists_def)
  qed
qed

section \<open>The end of the work\<close>

definition end_job :: "addr \<Rightarrow> Job" where
  "end_job wl = \<lparr>op = END_WORKER, flags = 0, jfilename = ''Nop'', client_queue = Some wl, jerr = INITED,
     status_request = INITED, client_fd = 123\<rparr>"

definition flooded_jobs :: "srv \<Rightarrow> addr \<Rightarrow> nat \<Rightarrow> addr \<rightharpoonup> Job" where
  "flooded_jobs s wl n = (\<lambda>j. if jfresh s \<le> j \<and> j < jfresh s + n then Some (end_job wl) else jobs s j)"

lemma flood_list_run:
  assumes "queues (qs s) F" and "F wl = Some W" and "length W + n \<le> list_cap"
  shows "\<exists>q. flood_list (Some wl) n s = (Inr (), s\<lparr>qs := q, jobs := flooded_jobs s wl n, jfresh := jfresh s + n\<rparr>) \<and>
    queues q (F(wl \<mapsto> W @ [jfresh s..<jfresh s + n]))"
  using assms
proof (induction n arbitrary: s F W)
  case 0
  have "flooded_jobs s wl 0 = jobs s" by (rule ext) (auto simp: flooded_jobs_def)
  with 0 show ?case by (intro exI [of _ "qs s"]) (simp add: fun_upd_idem)
next
  case (Suc n)
  let ?j = "jfresh s"
  let ?s1 = "s\<lparr>jfresh := Suc ?j, jobs := (jobs s)(?j \<mapsto> end_job wl)\<rparr>"
  have n: "cstr ''Nop'' = ''Nop''" by code_simp
  have ji: "jobInit END_WORKER 0 (Some ''Nop'') (Some wl) 123 s = (Inr (Some ?j), ?s1)"
    using jobInit_run [OF queues_small [OF Suc.prems(1)], of END_WORKER 0 "''Nop''" wl 123] by (simp add: n end_job_def)
  from push_job_run [of ?s1 F wl W ?j "\<lambda>_. flood_list (Some wl) n"] Suc.prems obtain q1 where
    q1: "queues q1 (F(wl \<mapsto> W @ [?j]))"
      "bnd (create_work (Some ?j)) (\<lambda>work. bnd (in_qs (push_node_to_list (Some wl) work)) (\<lambda>_. flood_list (Some wl) n)) ?s1 =
         flood_list (Some wl) n (?s1\<lparr>qs := q1\<rparr>)" by auto
  let ?s2 = "?s1\<lparr>qs := q1\<rparr>"
  have "queues (qs ?s2) (F(wl \<mapsto> W @ [?j]))" "length (W @ [?j]) + n \<le> list_cap" using q1(1) Suc.prems(3) by simp_all
  from Suc.IH [OF this(1) fun_upd_same this(2)] obtain q2 where
    q2: "flood_list (Some wl) n ?s2 = (Inr (), ?s2\<lparr>qs := q2, jobs := flooded_jobs ?s2 wl n, jfresh := jfresh ?s2 + n\<rparr>)"
      "queues q2 (F(wl \<mapsto> (W @ [?j]) @ [Suc ?j..<Suc ?j + n]))"
    unfolding fun_upd_upd by (auto simp del: upt_Suc fun_upd_apply)
  have "flooded_jobs ?s2 wl n = flooded_jobs s wl (Suc n)" by (auto simp: flooded_jobs_def)
  moreover have "[?j..<?j + Suc n] = ?j # [Suc ?j..<Suc ?j + n]" by (simp add: upt_conv_Cons del: upt_Suc)
  ultimately show ?case using ji q1(2) q2 by (intro exI [of _ q2]) (simp add: bnd_run [where s = s] del: upt_Suc fun_upd_apply)
qed

section \<open>A client connects\<close>

lemma main_accept_run:
  assumes "srv_ok s fs F"
  shows "\<exists>t l. main_accept (Some fd) s = (Inr (), t) \<and> srv_ok t fs (F(l \<mapsto> [])) \<and> l \<notin> dom F \<and> args_slot t = (fd, Some l) \<and>
    threads t = threads s @ [Client_thread] \<and> keeps (mem s) (mem t) \<and> socks t = socks s \<and> conf t = conf s \<and>
    workList t = workList s \<and> serverMode t = serverMode s"
proof -
  have st: "stores (mem s) fs" and q: "queues (qs s) F" using assms by (simp_all add: srv_ok_def)
  from initList_run [OF q] obtain q1 where
    q1: "initList (qs s) = (Inr (Some (lfresh (qs s))), q1)" "queues q1 (F(lfresh (qs s) \<mapsto> []))" "lfresh (qs s) \<notin> dom F" by blast
  have th: "thread_ok (qlibc q1)" using queues_libc [OF q1(2)] by simp
  let ?t = "s\<lparr>mem := logged ''Client connected!'' [] (mem s), qs := q1, args_slot := (fd, Some (lfresh (qs s))),
    threads := threads s @ [Client_thread]\<rparr>"
  have "main_accept (Some fd) s = (Inr (), ?t)"
    using log_msg_run [OF unlockedD(4) [OF stores_unlocked [OF st]]] q1(1) th
    by (simp add: main_accept_def case_simps zoom_run safe_pthread_create_def logged_def)
  moreover have "srv_ok ?t fs (F(lfresh (qs s) \<mapsto> []))" using assms q1(2) by (simp add: srv_ok_def)
  ultimately show ?thesis using q1(3) by (intro exI [of _ ?t] exI [of _ "lfresh (qs s)"]) simp
qed

section \<open>Empty lists\<close>

lemma worker_take_blocked:
  assumes "queues (qs s) F" and "workList s = Some wl" and "F wl = Some []" and "serverMode s \<noteq> OFF"
  shows "worker_take s = (Inl Blocked, s)"
proof -
  obtain N where b: "boxes (qs s) F N" using assms(1) by (auto simp: queues_def)
  then have "queue_wf (qs s) wl []" using boxesD(1,3) [OF b assms(3)] by simp
  from pop_blocks [OF this] show ?thesis using assms(2,4) by (simp add: worker_take_def bnd_run zoom_run)
qed

lemma client_response_blocked:
  assumes "queues (qs s) F" and "F l = Some []"
  shows "client_response (Some l) s = (Inl Blocked, s)"
proof -
  obtain N where b: "boxes (qs s) F N" using assms(1) by (auto simp: queues_def)
  then have "queue_wf (qs s) l []" using boxesD(1,3) [OF b assms(2)] by simp
  from pop_blocks [OF this] show ?thesis by (simp add: client_response_def bnd_run zoom_run)
qed

end
