(* ===== verification/Threads.thy ===== *)
theory Threads
  imports Thread_Steps
begin

text \<open>
  The server as a whole: \<open>main\<close>, the workers and one thread per client, interleaved in any
  order, with anything arriving on the sockets. The steps are the points where threads meet
  on the jobs and the lists; the invariant is that no interleaving loses, doubles or
  misdelivers a job.
\<close>

section \<open>The steps\<close>

text \<open>
  \<open>clients\<close>: for each client whose thread runs its list and whether the thread has pushed a
  job and waits for the answer. \<open>hands\<close>: the jobs the workers have taken and not answered.
  \<open>starting\<close>: a client was accepted whose thread has not read its argument. \<open>flooded\<close>:
  \<open>main\<close> has pushed the jobs that end the workers.
\<close>

record net =
  nsrv :: srv
  clients :: "nat \<rightharpoonup> addr \<times> bool"
  hands :: "addr list"
  starting :: bool
  flooded :: bool

text \<open>
  \<open>accept\<close>: the next client is accepted when the thread of the one before has read its
  argument (the code does not wait for that, which is a race of its own). A descriptor is an
  \<open>int\<close> no open connection has. \<open>start\<close>: the thread of the accepted client begins.

  \<open>ask\<close>: bytes of a request have arrived and the client's thread turns them into a job. They
  are arbitrary but for the operation code, which has to be one the switch answers once.

  \<open>take\<close>: a worker pops the oldest job. Until it answers, its case of the switch works on the
  cache, the sockets and the log only; all of that, in pieces and interleaved with every other
  thread, is \<open>elsewhere\<close>, which puts any cache, any sockets and any worker count in place.
  \<open>answer\<close>: the one call of the case to \<open>set_response_for_client_and_push\<close>, with any error and
  any status. A worker that waits for ever in its case, or whose case fails, never comes to
  it. The lemma \<open>serve_is_steps\<close> below shows the whole switch to be such a sequence.

  \<open>finish\<close>: the job that ends a worker. \<open>leave\<close>: the worker takes nothing. \<open>respond\<close>: the
  client's thread pops the answer and sends it.
\<close>

inductive tstep :: "net \<Rightarrow> net \<Rightarrow> bool" where
  accept: "\<not> starting n \<Longrightarrow> clients n fd = None \<Longrightarrow> fd < 2 ^ 31 \<Longrightarrow> main_accept (Some fd) (nsrv n) = (Inr (), t) \<Longrightarrow>
    tstep n (n\<lparr>nsrv := t, starting := True\<rparr>)"
| start: "starting n \<Longrightarrow> client_start (nsrv n) = (Inr (fd, Some l), t) \<Longrightarrow>
    tstep n (n\<lparr>nsrv := t, clients := (clients n)(fd \<mapsto> (l, False)), starting := False\<rparr>)"
| ask: "clients n fd = Some (l, False) \<Longrightarrow> serverMode (nsrv n) \<noteq> OFF \<Longrightarrow>
    client_request fd (Some l) (nsrv n) = (Inr True, t) \<Longrightarrow> answering (op (the (jobs t (jfresh (nsrv n))))) \<Longrightarrow>
    tstep n (n\<lparr>nsrv := t, clients := (clients n)(fd \<mapsto> (l, True))\<rparr>)"
| no_message: "clients n fd = Some (l, False) \<Longrightarrow> client_request fd (Some l) (nsrv n) = (Inr False, t) \<Longrightarrow>
    tstep n (n\<lparr>nsrv := t\<rparr>)"
| take: "worker_take (nsrv n) = (Inr (Some j), t) \<Longrightarrow> tstep n (n\<lparr>nsrv := t, hands := hands n @ [j]\<rparr>)"
| leave: "worker_take (nsrv n) = (Inr None, t) \<Longrightarrow> tstep n (n\<lparr>nsrv := t\<rparr>)"
| elsewhere: "tstep n (n\<lparr>nsrv := (nsrv n)\<lparr>mem := m, socks := k, wk := v\<rparr>\<rparr>)"
| answer: "hands n = us @ j # vs \<Longrightarrow> jobs (nsrv n) j = Some w \<Longrightarrow> answering (op w) \<Longrightarrow>
    set_response_for_client_and_push (Some j) e st (nsrv n) = (Inr (), t) \<Longrightarrow>
    tstep n (n\<lparr>nsrv := t, hands := us @ vs\<rparr>)"
| finish: "hands n = us @ j # vs \<Longrightarrow> jobs (nsrv n) j = Some w \<Longrightarrow> op w = END_WORKER \<Longrightarrow>
    serve (Some j) (nsrv n) = (Inr c, t) \<Longrightarrow> tstep n (n\<lparr>nsrv := t, hands := us @ vs\<rparr>)"
| respond: "clients n fd = Some (l, True) \<Longrightarrow> client_response (Some l) (nsrv n) = (Inr go, t) \<Longrightarrow>
    tstep n (n\<lparr>nsrv := t, clients := (clients n)(fd := (if go then Some (l, False) else None))\<rparr>)"
| signal: "signal_handler g (nsrv n) = (Inr (), t) \<Longrightarrow> tstep n (n\<lparr>nsrv := t\<rparr>)"
| flood: "serverMode (nsrv n) = GRACEFUL \<Longrightarrow> \<not> flooded n \<Longrightarrow> main_flood (nsrv n) = (Inr (), t) \<Longrightarrow>
    tstep n (n\<lparr>nsrv := t, flooded := True\<rparr>)"

inductive_cases tstepE: "tstep n n'"

abbreviation reachable :: "net \<Rightarrow> net \<Rightarrow> bool" where
  "reachable \<equiv> tstep\<^sup>*\<^sup>*"

text \<open>The server when \<open>main\<close> enters its loop: an empty work list and no client.\<close>

definition started :: "net \<Rightarrow> addr \<Rightarrow> bool" where
  "started n wl \<longleftrightarrow>
     queues (qs (nsrv n)) [wl \<mapsto> []] \<and> workList (nsrv n) = Some wl \<and> jobs (nsrv n) = Map.empty \<and>
     clients n = Map.empty \<and> hands n = [] \<and> \<not> starting n \<and> \<not> flooded n \<and> unat (Nslaves (conf (nsrv n))) < 2 ^ 31 - 1"

text \<open>The whole case of the switch, whatever the job, is a sequence of these steps.\<close>

lemma serve_is_steps:
  assumes "hands n = us @ j # vs" and "jobs (nsrv n) j = Some w" and "answering (op w)"
    and "serve (Some j) (nsrv n) = (Inr c, t)"
  shows "reachable n (n\<lparr>nsrv := t, hands := us @ vs\<rparr>)"
proof -
  from serve_once [OF assms(2-4)] obtain s1 s2 e st where
    s1: "same_lists (nsrv n) s1" and s2: "set_response_for_client_and_push (Some j) e st s1 = (Inr (), s2)"
    and t: "same_lists s2 t" by blast
  let ?n1 = "n\<lparr>nsrv := s1\<rparr>" and ?n2 = "n\<lparr>nsrv := s2, hands := us @ vs\<rparr>"
  have "tstep n ?n1"
    using tstep.elsewhere [where n = n and m = "mem s1" and k = "socks s1" and v = "wk s1"] same_lists_elsewhere [OF s1] by simp
  moreover have "jobs s1 j = Some w" using s1 assms(2) by (simp add: same_lists_def)
  then have "tstep ?n1 ?n2" using tstep.answer [of ?n1 us j vs w e st s2] assms(1,3) s2 by simp
  moreover have "tstep ?n2 (n\<lparr>nsrv := t, hands := us @ vs\<rparr>)"
    using tstep.elsewhere [where n = ?n2 and m = "mem t" and k = "socks t" and v = "wk t"] same_lists_elsewhere [OF t] by (cases n) simp
  ultimately show ?thesis by (meson rtranclp.rtrancl_into_rtrancl rtranclp.rtrancl_refl)
qed

section \<open>The invariant\<close>

definition of_client :: "srv \<Rightarrow> nat \<Rightarrow> addr \<Rightarrow> bool" where
  "of_client s fd j \<longleftrightarrow> (\<exists>w. jobs s j = Some w \<and> answering (op w) \<and> client_fd w = fd)"

definition ends :: "srv \<Rightarrow> addr \<Rightarrow> bool" where
  "ends s j \<longleftrightarrow> (\<exists>w. jobs s j = Some w \<and> op w = END_WORKER)"

text \<open>
  A job that is not answered ends a worker or belongs to a waiting client, on whose list its
  answer will go.
\<close>

definition accounted :: "srv \<Rightarrow> (nat \<rightharpoonup> addr \<times> bool) \<Rightarrow> addr \<Rightarrow> bool" where
  "accounted s C j \<longleftrightarrow> (\<exists>w. jobs s j = Some w \<and>
     (op w = END_WORKER \<or> answering (op w) \<and> (\<exists>l. C (client_fd w) = Some (l, True) \<and> client_queue w = Some l)))"

text \<open>
  A waiting client has one job, among the jobs \<open>U\<close> not answered or on its own list; others have none.
\<close>

definition in_flight :: "srv \<Rightarrow> (addr \<rightharpoonup> addr list) \<Rightarrow> addr list \<Rightarrow> nat \<Rightarrow> addr \<Rightarrow> bool \<Rightarrow> bool" where
  "in_flight s F U fd l b \<longleftrightarrow> (\<exists>A. F l = Some A \<and> (\<forall>j \<in> set A. of_client s fd j) \<and>
     length (filter (of_client s fd) U) + length A = (if b then 1 else 0))"

definition end_bound :: "bool \<Rightarrow> config_t \<Rightarrow> nat" where
  "end_bound fl c = (if fl then unat (Nslaves c) else 0)"

text \<open>
  \<open>W\<close> is the work list, \<open>U\<close> the jobs that are in it or in a worker's hands.
\<close>

definition net_inv :: "srv \<Rightarrow> (nat \<rightharpoonup> addr \<times> bool) \<Rightarrow> addr list \<Rightarrow> bool \<Rightarrow> addr \<Rightarrow> (addr \<rightharpoonup> addr list) \<Rightarrow> addr list \<Rightarrow> bool" where
  "net_inv s C U fl wl F W \<longleftrightarrow>
     queues (qs s) F \<and> (\<forall>j \<ge> jfresh s. jobs s j = None) \<and> workList s = Some wl \<and> F wl = Some W \<and> distinct U \<and>
     unat (Nslaves (conf s)) < 2 ^ 31 - 1 \<and>
     length (filter (ends s) U) \<le> end_bound fl (conf s) \<and>
     (\<forall>j \<in> set U. accounted s C j) \<and>
     (\<forall>fd l b. C fd = Some (l, b) \<longrightarrow> fd < 2 ^ 31 \<and> l \<noteq> wl \<and> in_flight s F U fd l b) \<and>
     (\<forall>fd fd' l b b'. C fd = Some (l, b) \<longrightarrow> C fd' = Some (l, b') \<longrightarrow> fd = fd')"

lemma net_invD:
  assumes "net_inv s C U fl wl F W"
  shows "queues (qs s) F" and "\<And>j. jfresh s \<le> j \<Longrightarrow> jobs s j = None" and "workList s = Some wl" and "F wl = Some W"
    and "distinct U" and "\<And>j. j \<in> set U \<Longrightarrow> accounted s C j"
    and "\<And>fd l b. C fd = Some (l, b) \<Longrightarrow> fd < 2 ^ 31 \<and> l \<noteq> wl \<and> in_flight s F U fd l b"
    and "\<And>fd fd' l b b'. C fd = Some (l, b) \<Longrightarrow> C fd' = Some (l, b') \<Longrightarrow> fd = fd'"
    and "length (filter (ends s) U) \<le> end_bound fl (conf s)"
    and "unat (Nslaves (conf s)) < 2 ^ 31 - 1"
  using assms unfolding net_inv_def by blast+

lemma net_invI:
  assumes "queues (qs s) F" and "\<And>j. jfresh s \<le> j \<Longrightarrow> jobs s j = None" and "workList s = Some wl" and "F wl = Some W"
    and "distinct U" and "\<And>j. j \<in> set U \<Longrightarrow> accounted s C j"
    and "\<And>fd l b. C fd = Some (l, b) \<Longrightarrow> fd < 2 ^ 31 \<and> l \<noteq> wl \<and> in_flight s F U fd l b"
    and "\<And>fd fd' l b b'. C fd = Some (l, b) \<Longrightarrow> C fd' = Some (l, b') \<Longrightarrow> fd = fd'"
    and "length (filter (ends s) U) \<le> end_bound fl (conf s)"
    and "unat (Nslaves (conf s)) < 2 ^ 31 - 1"
  shows "net_inv s C U fl wl F W"
  using assms unfolding net_inv_def by blast

lemma answering_not_end [simp]: "answering opc \<Longrightarrow> opc \<noteq> END_WORKER"
  by (auto simp: answering_def)

lemma not_answering_end [simp]: "\<not> answering END_WORKER"
  by (simp add: answering_def)

lemma ends_or_client:
  "accounted s C j \<Longrightarrow> ends s j \<or> (\<exists>fd l. C fd = Some (l, True) \<and> of_client s fd j)"
  by (auto simp: accounted_def ends_def of_client_def)

lemma of_client_accounted: "of_client s fd j \<Longrightarrow> accounted s C j \<Longrightarrow>
    \<exists>w l. jobs s j = Some w \<and> answering (op w) \<and> client_fd w = fd \<and> C fd = Some (l, True) \<and> client_queue w = Some l"
  by (auto simp: accounted_def of_client_def)

lemma accounted_mono:
  assumes "accounted s C j" and "jobs t j = jobs s j"
    and "\<And>d l. of_client s d j \<Longrightarrow> C d = Some (l, True) \<Longrightarrow> D d = Some (l, True)"
  shows "accounted t D j"
proof -
  obtain w where w: "jobs s j = Some w"
      "op w = END_WORKER \<or> answering (op w) \<and> (\<exists>l. C (client_fd w) = Some (l, True) \<and> client_queue w = Some l)"
    using assms(1) by (auto simp: accounted_def)
  then have "op w = END_WORKER \<or> answering (op w) \<and> (\<exists>l. D (client_fd w) = Some (l, True) \<and> client_queue w = Some l)"
    using assms(3) by (auto simp: of_client_def)
  with w(1) assms(2) show ?thesis by (auto simp: accounted_def)
qed

text \<open>The work list never fills its 32-bit count: one job per client and those that end workers.\<close>

lemma work_list_bound:
  assumes i: "net_inv s C U fl wl F W"
  shows "length U + (if fl then 0 else unat (Nslaves (conf s))) < list_cap"
proof -
  define P where "P = filter (\<lambda>j. \<not> ends s j) U"
  have cl: "\<exists>fd l. C fd = Some (l, True) \<and> of_client s fd j" if "j \<in> set P" for j
    using that ends_or_client [OF net_invD(6) [OF i, of j]] by (auto simp: P_def)
  define own where "own j = client_fd (the (jobs s j))" for j
  have own: "of_client s fd j \<Longrightarrow> own j = fd" for fd j by (auto simp: of_client_def own_def)
  have "inj_on own (set P)"
  proof (rule inj_onI)
    fix j k assume j: "j \<in> set P" and k: "k \<in> set P" and e: "own j = own k"
    obtain fd l where fd: "C fd = Some (l, True)" "of_client s fd j" using cl [OF j] by blast
    obtain fd' where "of_client s fd' k" using cl [OF k] by blast
    with own e fd(2) have "of_client s fd k" by metis
    then have "{j, k} \<subseteq> set (filter (of_client s fd) U)" using fd(2) j k by (auto simp: P_def)
    moreover have "length (filter (of_client s fd) U) \<le> 1" using net_invD(7) [OF i fd(1)] by (auto simp: in_flight_def)
    ultimately show "j = k" by (cases "filter (of_client s fd) U") auto
  qed
  moreover have "own ` set P \<subseteq> {..<2 ^ 31}" using cl own net_invD(7) [OF i] by fastforce
  ultimately have "card (set P) \<le> card {..<2 ^ 31 :: nat}" by (intro card_inj_on_le) auto
  moreover have "card (set P) = length P" using net_invD(5) [OF i] by (metis P_def distinct_card distinct_filter)
  ultimately have "length P \<le> 2 ^ 31" by simp
  moreover have "length U = length (filter (ends s) U) + length P" by (simp add: P_def sum_length_filter_compl)
  ultimately show ?thesis using net_invD(9,10) [OF i] by (auto simp: end_bound_def split: if_splits)
qed

section \<open>The steps keep the invariant\<close>

lemma inv_frame:
  assumes "net_inv s C U fl wl F W" and "qs t = qs s" and "jobs t = jobs s" and "jfresh t = jfresh s"
    and "workList t = workList s" and "conf t = conf s"
  shows "net_inv t C U fl wl F W"
proof -
  have e: "of_client t = of_client s" "ends t = ends s" "accounted t = accounted s"
    by (auto simp: fun_eq_iff of_client_def ends_def accounted_def assms(3))
  show ?thesis using assms(1) unfolding net_inv_def in_flight_def e assms(2-6) by simp
qed

lemma inv_same_lists: "net_inv s C U fl wl F W \<Longrightarrow> same_lists s t \<Longrightarrow> net_inv t C U fl wl F W"
  by (rule inv_frame) (auto simp: same_lists_def)

text \<open>A new list, which is nobody's yet; and a new client, whose list is empty.\<close>

lemma inv_list:
  assumes i: "net_inv s C U fl wl F W" and q: "queues q (F(l \<mapsto> []))" and l: "l \<notin> dom F"
  shows "net_inv (s\<lparr>qs := q\<rparr>) C U fl wl (F(l \<mapsto> [])) W" and "l \<noteq> wl" and "\<And>d b. C d \<noteq> Some (l, b)"
proof -
  let ?s = "s\<lparr>qs := q\<rparr>"
  have e: "of_client ?s = of_client s" "ends ?s = ends s" "accounted ?s = accounted s"
    by (auto simp: fun_eq_iff of_client_def ends_def accounted_def)
  show new: "C d \<noteq> Some (l, b)" for d b using net_invD(7) [OF i, of d l b] l by (auto simp: in_flight_def)
  show "l \<noteq> wl" using l net_invD(4) [OF i] by auto
  show "net_inv ?s C U fl wl (F(l \<mapsto> [])) W"
  proof (rule net_invI)
    show "queues (qs ?s) (F(l \<mapsto> []))" using q by simp
    show "(F(l \<mapsto> [])) wl = Some W" using l net_invD(4) [OF i] by auto
    show "d < 2 ^ 31 \<and> m \<noteq> wl \<and> in_flight ?s (F(l \<mapsto> [])) U d m b" if d: "C d = Some (m, b)" for d m b
      using net_invD(7) [OF i d] new [of d b] d by (auto simp: in_flight_def e)
    show "accounted ?s C j" if "j \<in> set U" for j using net_invD(6) [OF i that] by (simp add: e)
    show "d = d'" if "C d = Some (m, b)" "C d' = Some (m, b')" for d d' m b b' by (rule net_invD(8) [OF i that])
  qed (use net_invD(2,3,5,9,10) [OF i] e in simp_all)
qed

lemma inv_client:
  assumes i: "net_inv s C U fl wl F W" and l: "F l = Some []" "l \<noteq> wl" "\<And>d b. C d \<noteq> Some (l, b)"
    and fd: "C fd = None" "fd < 2 ^ 31"
  shows "net_inv s (C(fd \<mapsto> (l, False))) U fl wl F W"
proof (rule net_invI)
  have none: "filter (of_client s fd) U = []"
    using of_client_accounted net_invD(6) [OF i] fd(1) by (fastforce simp: filter_empty_conv)
  show "accounted s (C(fd \<mapsto> (l, False))) j" if "j \<in> set U" for j
    by (rule accounted_mono [OF net_invD(6) [OF i that]]) (use fd(1) in auto)
  show "d < 2 ^ 31 \<and> m \<noteq> wl \<and> in_flight s F U d m b" if d: "(C(fd \<mapsto> (l, False))) d = Some (m, b)" for d m b
  proof (cases "d = fd")
    case True
    with d none fd(2) l(1,2) show ?thesis by (auto simp: in_flight_def)
  next
    case False
    with d have "C d = Some (m, b)" by simp
    then show ?thesis by (rule net_invD(7) [OF i])
  qed
  show "d = d'" if "(C(fd \<mapsto> (l, False))) d = Some (m, b)" "(C(fd \<mapsto> (l, False))) d' = Some (m, b')" for d d' m b b'
    using that l(3) net_invD(8) [OF i, of d m b d' b'] by (auto split: if_splits)
qed (use net_invD(1-5,9,10) [OF i] in simp_all)

lemma inv_ask:
  assumes i: "net_inv s C U fl wl F W" and c: "C fd = Some (l, False)"
    and w: "client_queue w = Some l" "client_fd w = fd" "answering (op w)"
    and t: "jobs t = (jobs s)(jfresh s \<mapsto> w)" "jfresh t = Suc (jfresh s)" "queues (qs t) (F(wl \<mapsto> W @ [jfresh s]))"
      "workList t = workList s" "conf t = conf s"
  shows "net_inv t (C(fd \<mapsto> (l, True))) (U @ [jfresh s]) fl wl (F(wl \<mapsto> W @ [jfresh s])) (W @ [jfresh s])"
proof -
  let ?j = "jfresh s" and ?C = "C(fd \<mapsto> (l, True))"
  have old: "jobs t j = jobs s j" if "jobs s j \<noteq> None" for j using that net_invD(2) [OF i] t(1) by auto
  have live: "jobs s j \<noteq> None" if "j \<in> set U" for j using net_invD(6) [OF i that] by (auto simp: accounted_def)
  have jU: "?j \<notin> set U" using live net_invD(2) [OF i, of ?j] by blast
  have oc: "of_client t d j = of_client s d j" "ends t j = ends s j" if "jobs s j \<noteq> None" for d j
    using old [OF that] by (simp_all add: of_client_def ends_def)
  have fU: "filter (of_client t d) U = filter (of_client s d) U" "filter (ends t) U = filter (ends s) U" for d
    using oc live by (auto intro!: filter_cong)
  show ?thesis
  proof (rule net_invI)
    show "accounted t ?C j" if "j \<in> set (U @ [?j])" for j
    proof (cases "j = ?j")
      case True
      then show ?thesis using t(1) w by (auto simp: accounted_def)
    next
      case False
      then have j: "j \<in> set U" using that by simp
      show ?thesis by (rule accounted_mono [OF net_invD(6) [OF i j] old [OF live [OF j]]]) (use c in auto)
    qed
    show "d < 2 ^ 31 \<and> m \<noteq> wl \<and> in_flight t (F(wl \<mapsto> W @ [?j])) (U @ [?j]) d m b" if d: "?C d = Some (m, b)" for d m b
    proof -
      obtain b' where b': "C d = Some (m, b')" "d = fd \<Longrightarrow> \<not> b' \<and> b" "d \<noteq> fd \<Longrightarrow> b' = b"
        using d c by (cases "d = fd") auto
      from net_invD(7) [OF i b'(1)] obtain A where A: "d < 2 ^ 31" "m \<noteq> wl" "F m = Some A" "\<forall>j \<in> set A. of_client s d j"
        "length (filter (of_client s d) U) + length A = (if b' then 1 else 0)" by (auto simp: in_flight_def)
      have "\<forall>j \<in> set A. of_client t d j" using A(4) oc(1) by (auto simp: of_client_def)
      moreover have "of_client t d ?j \<longleftrightarrow> d = fd" using t(1) w by (auto simp: of_client_def)
      ultimately show ?thesis using A b'(2,3) by (cases "d = fd") (auto simp: in_flight_def fU)
    qed
    show "d = d'" if "?C d = Some (m, b)" "?C d' = Some (m, b')" for d d' m b b'
    proof -
      have "\<exists>x. C d = Some (m, x)" "\<exists>x. C d' = Some (m, x)" using that c by (auto split: if_splits)
      then show ?thesis using net_invD(8) [OF i] by blast
    qed
    show "jobs t j = None" if "jfresh t \<le> j" for j using that net_invD(2) [OF i] t(1,2) by simp
    have "\<not> ends t ?j" using t(1) w(3) by (auto simp: ends_def)
    then show "length (filter (ends t) (U @ [?j])) \<le> end_bound fl (conf t)"
      using net_invD(9) [OF i] t(5) by (simp add: fU)
  qed (use net_invD(3,5,10) [OF i] t(3-5) jU in simp_all)
qed

text \<open>A worker takes a job: it leaves the work list, but is not answered.\<close>

lemma inv_take:
  assumes i: "net_inv s C U fl wl F W" and q: "queues q (F(wl \<mapsto> V))"
  shows "net_inv (s\<lparr>qs := q\<rparr>) C U fl wl (F(wl \<mapsto> V)) V"
proof -
  let ?s = "s\<lparr>qs := q\<rparr>"
  have e: "of_client ?s = of_client s" "ends ?s = ends s" "accounted ?s = accounted s"
    by (auto simp: fun_eq_iff of_client_def ends_def accounted_def)
  show ?thesis
  proof (rule net_invI)
    show "d < 2 ^ 31 \<and> m \<noteq> wl \<and> in_flight ?s (F(wl \<mapsto> V)) U d m b" if "C d = Some (m, b)" for d m b
      using net_invD(7) [OF i that] by (auto simp: in_flight_def e)
    show "d = d'" if "C d = Some (m, b)" "C d' = Some (m, b')" for d d' m b b' by (rule net_invD(8) [OF i that])
  qed (use net_invD(2,3,5,6,9,10) [OF i] q in \<open>simp_all add: e\<close>)
qed

text \<open>A job leaves a worker's hands: answered, onto the list of its client, or for good.\<close>

lemma inv_deliver:
  assumes i: "net_inv s C (us @ j # vs) fl wl F W" and w: "jobs s j = Some w" "answering (op w)"
    and c: "C (client_fd w) = Some (l, True)"
    and t: "jobs t = (jobs s)(j \<mapsto> w\<lparr>jerr := e, status_request := st\<rparr>)" "jfresh t = jfresh s"
      "queues (qs t) (F(l \<mapsto> [j]))" "workList t = workList s" "conf t = conf s"
  shows "net_inv t C (us @ vs) fl wl (F(l \<mapsto> [j])) W"
proof -
  have eq: "of_client t = of_client s" "ends t = ends s" "accounted t = accounted s"
    using w by (auto simp: fun_eq_iff of_client_def ends_def accounted_def t(1))
  have oc: "of_client s d j \<longleftrightarrow> d = client_fd w" for d using w by (auto simp: of_client_def)
  have l: "l \<noteq> wl" using net_invD(7) [OF i c] by blast
  show ?thesis
  proof (rule net_invI)
    show "d < 2 ^ 31 \<and> m \<noteq> wl \<and> in_flight t (F(l \<mapsto> [j])) (us @ vs) d m b" if d: "C d = Some (m, b)" for d m b
    proof -
      from net_invD(7) [OF i d] obtain A where A: "d < 2 ^ 31" "m \<noteq> wl" "F m = Some A" "\<forall>j \<in> set A. of_client s d j"
        "length (filter (of_client s d) (us @ j # vs)) + length A = (if b then 1 else 0)" by (auto simp: in_flight_def)
      show ?thesis
      proof (cases "d = client_fd w")
        case True
        with d c A oc show ?thesis by (simp add: in_flight_def eq split: if_splits)
      next
        case False
        then have "m \<noteq> l" using net_invD(8) [OF i c] d by blast
        with False A oc show ?thesis by (simp add: in_flight_def eq)
      qed
    qed
    show "(F(l \<mapsto> [j])) wl = Some W" using l net_invD(4) [OF i] by simp
    show "length (filter (ends t) (us @ vs)) \<le> end_bound fl (conf t)"
      using net_invD(9) [OF i] by (simp add: eq t(5) split: if_splits)
    show "accounted t C k" if "k \<in> set (us @ vs)" for k using net_invD(6) [OF i, of k] that by (auto simp: eq)
    show "jobs t k = None" if "jfresh t \<le> k" for k using net_invD(2) [OF i, of k] w(1) that t(1,2) by auto
    show "d = d'" if "C d = Some (m, b)" "C d' = Some (m, b')" for d d' m b b' by (rule net_invD(8) [OF i that])
  qed (use net_invD(3,5,10) [OF i] t(3-5) in simp_all)
qed

lemma inv_end:
  assumes i: "net_inv s C (us @ j # vs) fl wl F W" and w: "ends s j"
    and t: "jobs t = (jobs s)(j := None)" "jfresh t = jfresh s" "qs t = qs s" "workList t = workList s" "conf t = conf s"
  shows "net_inv t C (us @ vs) fl wl F W"
proof -
  have jU: "j \<notin> set (us @ vs)" using net_invD(5) [OF i] by simp
  have noc: "\<not> of_client s d j" for d using w by (auto simp: of_client_def ends_def)
  have old: "jobs t k = jobs s k" if "k \<noteq> j" for k using t(1) that by simp
  have eq: "of_client t d k = of_client s d k" "k \<noteq> j \<Longrightarrow> ends t k = ends s k" for d k
    using old [of k] noc t(1) by (cases "k = j"; auto simp: of_client_def ends_def)+
  have fl': "filter (ends t) (us @ vs) = filter (ends s) (us @ vs)" by (intro filter_cong refl eq(2); use jU in auto)
  have ocf: "of_client t = of_client s" by (intro ext) (rule eq(1))
  show ?thesis
  proof (rule net_invI)
    show "d < 2 ^ 31 \<and> m \<noteq> wl \<and> in_flight t F (us @ vs) d m b" if d: "C d = Some (m, b)" for d m b
      using net_invD(7) [OF i d] noc by (auto simp: in_flight_def ocf)
    show "length (filter (ends t) (us @ vs)) \<le> end_bound fl (conf t)"
      unfolding fl' using net_invD(9) [OF i] by (simp add: t(5) split: if_splits)
    show "accounted t C k" if "k \<in> set (us @ vs)" for k
      by (rule accounted_mono [OF net_invD(6) [OF i] old]) (use that jU in auto)
    show "jobs t k = None" if "jfresh t \<le> k" for k using net_invD(2) [OF i, of k] that t(1,2) by auto
    show "d = d'" if "C d = Some (m, b)" "C d' = Some (m, b')" for d d' m b b' by (rule net_invD(8) [OF i that])
  qed (use net_invD(1,3,4,5,10) [OF i] t(3-5) in simp_all)
qed

lemma inv_respond:
  assumes i: "net_inv s C U fl wl F W" and c: "C fd = Some (l, True)" and l: "F l = Some (j # A)"
    and t: "jobs t = (jobs s)(j := None)" "jfresh t = jfresh s" "queues (qs t) (F(l := (if go then Some A else None)))"
      "workList t = workList s" "conf t = conf s"
  shows "net_inv t (C(fd := (if go then Some (l, False) else None))) U fl wl (F(l := (if go then Some A else None))) W"
proof -
  let ?C = "C(fd := (if go then Some (l, False) else None))" and ?F = "F(l := (if go then Some A else None))"
  have own: "of_client s fd j" "A = []" "filter (of_client s fd) U = []"
    using net_invD(7) [OF i c] l by (auto simp: in_flight_def)
  have jU: "j \<notin> set U" using own(1,3) by (auto simp: filter_empty_conv)
  have old: "jobs t k = jobs s k" if "k \<noteq> j" for k using t(1) that by simp
  have eq: "of_client t d k = of_client s d k" "ends t k = ends s k" if "k \<noteq> j" for d k
    using old [OF that] by (simp_all add: of_client_def ends_def)
  have fU: "filter (of_client t d) U = filter (of_client s d) U" "filter (ends t) U = filter (ends s) U" for d
    by (intro filter_cong refl eq; use jU in auto)+
  show ?thesis
  proof (rule net_invI)
    show "d < 2 ^ 31 \<and> m \<noteq> wl \<and> in_flight t ?F U d m b" if d: "?C d = Some (m, b)" for d m b
    proof (cases "d = fd")
      case True
      with d net_invD(7) [OF i c] own show ?thesis by (auto simp: in_flight_def fU split: if_splits)
    next
      case False
      then have d': "C d = Some (m, b)" using d by simp
      then have "m \<noteq> l" using net_invD(8) [OF i c] False by blast
      moreover have "\<not> of_client s d j" using own(1) False by (auto simp: of_client_def)
      ultimately show ?thesis using net_invD(7) [OF i d'] eq(1) by (fastforce simp: in_flight_def fU)
    qed
    show "?F wl = Some W" using net_invD(4) [OF i] net_invD(7) [OF i c] by simp
    show "accounted t ?C k" if k: "k \<in> set U" for k
      by (rule accounted_mono [OF net_invD(6) [OF i k] old]) (use k jU own(3) in \<open>auto simp: filter_empty_conv\<close>)
    show "d = d'" if "?C d = Some (m, b)" "?C d' = Some (m, b')" for d d' m b b'
    proof -
      have "\<exists>x. C d = Some (m, x)" "\<exists>x. C d' = Some (m, x)" using that c by (auto split: if_splits)
      then show ?thesis using net_invD(8) [OF i] by blast
    qed
    show "jobs t k = None" if "jfresh t \<le> k" for k using net_invD(2) [OF i, of k] that t(1,2) by auto
  qed (use net_invD(3,5,9,10) [OF i] t(3-5) fU in simp_all)
qed

lemma inv_flood:
  assumes i: "net_inv s C U False wl F W" and n: "n = unat (Nslaves (conf s))"
    and t: "jobs t = flooded_jobs s wl n" "jfresh t = jfresh s + n"
      "queues (qs t) (F(wl \<mapsto> W @ [jfresh s..<jfresh s + n]))" "workList t = workList s" "conf t = conf s"
  shows "net_inv t C (U @ [jfresh s..<jfresh s + n]) True wl (F(wl \<mapsto> W @ [jfresh s..<jfresh s + n])) (W @ [jfresh s..<jfresh s + n])"
proof -
  let ?E = "[jfresh s..<jfresh s + n]"
  have old: "jobs t k = jobs s k" if "jobs s k \<noteq> None" for k
    using that net_invD(2) [OF i, of k] by (auto simp: t(1) flooded_jobs_def)
  have live: "jobs s k \<noteq> None" if "k \<in> set U" for k using net_invD(6) [OF i that] by (auto simp: accounted_def)
  have eq: "of_client t d k = of_client s d k" "ends t k = ends s k" if "jobs s k \<noteq> None" for d k
    using old [OF that] by (simp_all add: of_client_def ends_def)
  have fU: "filter (of_client t d) U = filter (of_client s d) U" "filter (ends t) U = filter (ends s) U" for d
    using eq live by (auto intro!: filter_cong)
  have new: "jobs t k = Some (end_job wl)" if "k \<in> set ?E" for k using that by (simp add: t(1) flooded_jobs_def)
  have E: "filter (of_client t d) ?E = []" "filter (ends t) ?E = ?E" for d
    using new
    by (auto simp: filter_empty_conv filter_id_conv of_client_def ends_def end_job_def)
  have dis: "set U \<inter> set ?E = {}" using live net_invD(2) [OF i] by fastforce
  show ?thesis
  proof (rule net_invI)
    show "accounted t C k" if "k \<in> set (U @ ?E)" for k
    proof (cases "k \<in> set U")
      case True
      show ?thesis by (rule accounted_mono [OF net_invD(6) [OF i True] old [OF live [OF True]]])
    next
      case False
      with that new show ?thesis by (auto simp: accounted_def end_job_def)
    qed
    show "d < 2 ^ 31 \<and> m \<noteq> wl \<and> in_flight t (F(wl \<mapsto> W @ ?E)) (U @ ?E) d m b" if d: "C d = Some (m, b)" for d m b
    proof -
      have "of_client t d k" if "of_client s d k" for k using that eq(1) [of k d] by (auto simp: of_client_def)
      with net_invD(7) [OF i d] show ?thesis by (auto simp: in_flight_def fU E)
    qed
    show "length (filter (ends t) (U @ ?E)) \<le> end_bound True (conf t)"
      using net_invD(9) [OF i] by (simp add: fU E t(5) end_bound_def n [symmetric])
    show "jobs t k = None" if "jfresh t \<le> k" for k
      using net_invD(2) [OF i, of k] that t(2) by (auto simp: t(1) flooded_jobs_def)
    show "distinct (U @ ?E)" using net_invD(5) [OF i] dis by simp
    show "d = d'" if "C d = Some (m, b)" "C d' = Some (m, b')" for d d' m b b' by (rule net_invD(8) [OF i that])
  qed (use net_invD(3,10) [OF i] t(3-5) in simp_all)
qed

section \<open>What a worker takes\<close>

text \<open>The worker that takes something takes the oldest job, and one that takes nothing changes nothing.\<close>

lemma worker_take_effect:
  assumes q: "queues (qs s) F" "workList s = Some wl" "F wl = Some W" and r: "worker_take s = (Inr x, t)"
  shows "(x = None \<and> t = s) \<or> (\<exists>j V p. W = j # V \<and> x = Some j \<and> t = s\<lparr>qs := p\<rparr> \<and> queues p (F(wl \<mapsto> V)))"
proof (cases "serverMode s = OFF")
  case True
  with r show ?thesis by (simp add: worker_take_def bnd_run)
next
  case False
  show ?thesis
  proof (cases W)
    case Nil
    with worker_take_blocked [OF q(1,2) _ False] q(3) r show ?thesis by simp
  next
    case (Cons j V)
    with worker_take_run [OF q(1,2) _ False, of j V] q(3) r show ?thesis by auto
  qed
qed

text \<open>
  The invariant of the whole: besides, the client that is starting has the descriptor and the
  list in \<open>args\<close>, which are nobody else's.
\<close>

definition newcomer :: "srv \<Rightarrow> (nat \<rightharpoonup> addr \<times> bool) \<Rightarrow> addr \<Rightarrow> (addr \<rightharpoonup> addr list) \<Rightarrow> bool" where
  "newcomer s C wl F \<longleftrightarrow> (\<exists>fd l. args_slot s = (fd, Some l) \<and> fd < 2 ^ 31 \<and> C fd = None \<and> l \<noteq> wl \<and> F l = Some [] \<and>
     (\<forall>d b. C d \<noteq> Some (l, b)))"

definition net_ok :: "net \<Rightarrow> addr \<Rightarrow> (addr \<rightharpoonup> addr list) \<Rightarrow> addr list \<Rightarrow> bool" where
  "net_ok n wl F W \<longleftrightarrow> net_inv (nsrv n) (clients n) (hands n @ W) (flooded n) wl F W \<and>
     (starting n \<longrightarrow> newcomer (nsrv n) (clients n) wl F)"

lemma newcomer_keep:
  assumes "newcomer s C wl F" and "args_slot t = args_slot s" and "\<And>d. C d = None \<Longrightarrow> D d = None"
    and "\<And>d l b. D d = Some (l, b) \<Longrightarrow> \<exists>b. C d = Some (l, b)" and "\<And>l. l \<noteq> wl \<Longrightarrow> (\<forall>d b. C d \<noteq> Some (l, b)) \<Longrightarrow> G l = F l"
  shows "newcomer t D wl G"
  using assms unfolding newcomer_def by metis

lemma client_owns:
  assumes i: "net_inv s C U fl wl F W" and w: "jobs s j = Some w" "answering (op w)" and j: "j \<in> set U"
  shows "\<exists>l. C (client_fd w) = Some (l, True) \<and> client_queue w = Some l \<and> F l = Some [] \<and> l \<noteq> wl"
proof -
  have oc: "of_client s (client_fd w) j" using w by (auto simp: of_client_def)
  from of_client_accounted [OF this net_invD(6) [OF i j]] w obtain l where
    l: "C (client_fd w) = Some (l, True)" "client_queue w = Some l" by auto
  have "Suc 0 \<le> length (filter (of_client s (client_fd w)) U)" using j oc by (auto simp: Suc_le_eq filter_empty_conv)
  moreover from net_invD(7) [OF i l(1)] obtain A where "F l = Some A" "l \<noteq> wl"
    "length (filter (of_client s (client_fd w)) U) + length A = 1" by (auto simp: in_flight_def)
  ultimately have "F l = Some []" "l \<noteq> wl" by (cases A; simp)+
  with l show ?thesis by blast
qed

section \<open>Each step\<close>

lemma accept_ok:
  assumes ok: "net_ok n wl F W" and "\<not> starting n" and fd: "clients n fd = None" "fd < 2 ^ 31"
    and r: "main_accept (Some fd) (nsrv n) = (Inr (), t)"
  shows "\<exists>G. net_ok (n\<lparr>nsrv := t, starting := True\<rparr>) wl G W"
proof -
  let ?s = "nsrv n" and ?l = "lfresh (qs (nsrv n))"
  have i: "net_inv ?s (clients n) (hands n @ W) (flooded n) wl F W" using ok by (simp add: net_ok_def)
  from initList_run [OF net_invD(1) [OF i]] obtain q where
    q: "initList (qs ?s) = (Inr (Some ?l), q)" "queues q (F(?l \<mapsto> []))" "?l \<notin> dom F" by blast
  note new = inv_list [OF i q(2,3)]
  have t: "args_slot t = (fd, Some ?l)" "qs t = q" "jobs t = jobs ?s" "jfresh t = jfresh ?s" "workList t = workList ?s" "conf t = conf ?s"
    using r q(1)
    by (auto simp: main_accept_def sq_def bnd_run zoom_run safe_pthread_create_def split: prod.splits sum.splits if_splits)
  have "net_inv t (clients n) (hands n @ W) (flooded n) wl (F(?l \<mapsto> [])) W"
    by (rule inv_frame [OF new(1)]) (use t in simp_all)
  moreover have "newcomer t (clients n) wl (F(?l \<mapsto> []))" using t(1) fd new(2,3) by (simp add: newcomer_def)
  ultimately show ?thesis by (intro exI [of _ "F(?l \<mapsto> [])"]) (simp add: net_ok_def)
qed

lemma start_ok:
  assumes ok: "net_ok n wl F W" and "starting n" and r: "client_start (nsrv n) = (Inr (fd, Some l), t)"
  shows "net_ok (n\<lparr>nsrv := t, clients := (clients n)(fd \<mapsto> (l, False)), starting := False\<rparr>) wl F W"
proof -
  have i: "net_inv (nsrv n) (clients n) (hands n @ W) (flooded n) wl F W" using ok by (simp add: net_ok_def)
  have "t = nsrv n" "args_slot (nsrv n) = (fd, Some l)" using r by (auto simp: client_start_def gets_def)
  then show ?thesis using inv_client [OF i, of l fd] ok assms(2) by (auto simp: net_ok_def newcomer_def)
qed

lemma ask_ok:
  assumes ok: "net_ok n wl F W" and c: "clients n fd = Some (l, False)"
    and r: "client_request fd (Some l) (nsrv n) = (Inr True, t)" and a: "answering (op (the (jobs t (jfresh (nsrv n)))))"
  shows "\<exists>G V. net_ok (n\<lparr>nsrv := t, clients := (clients n)(fd \<mapsto> (l, True))\<rparr>) wl G V"
proof -
  let ?s = "nsrv n" and ?j = "jfresh (nsrv n)"
  have i: "net_inv ?s (clients n) (hands n @ W) (flooded n) wl F W" using ok by (simp add: net_ok_def)
  have "length W < list_cap" using work_list_bound [OF i] by simp
  from client_request_effect [OF r net_invD(1,3,4) [OF i] this] obtain w where
    w: "jobs t = (jobs ?s)(?j \<mapsto> w)" "client_queue w = Some l" "client_fd w = fd"
    "jfresh t = Suc ?j" "queues (qs t) (F(wl \<mapsto> W @ [?j]))" "workList t = workList ?s" "conf t = conf ?s"
    "args_slot t = args_slot ?s" by auto
  have "net_inv t ((clients n)(fd \<mapsto> (l, True))) ((hands n @ W) @ [?j]) (flooded n) wl (F(wl \<mapsto> W @ [?j])) (W @ [?j])"
    by (rule inv_ask [OF i c]) (use w a in simp_all)
  moreover have "newcomer t ((clients n)(fd \<mapsto> (l, True))) wl (F(wl \<mapsto> W @ [?j]))" if "starting n"
    by (rule newcomer_keep [of ?s "clients n" wl F]) (use that ok c w(8) in \<open>auto simp: net_ok_def split: if_splits\<close>)
  ultimately show ?thesis by (intro exI [of _ "F(wl \<mapsto> W @ [?j])"] exI [of _ "W @ [?j]"]) (simp add: net_ok_def)
qed

lemma same_lists_ok:
  assumes "net_ok n wl F W" and "same_lists (nsrv n) t"
  shows "net_ok (n\<lparr>nsrv := t\<rparr>) wl F W"
  using assms inv_same_lists [of "nsrv n" "clients n" "hands n @ W" "flooded n" wl F W t]
  by (auto simp: net_ok_def newcomer_def same_lists_def)

lemma take_ok:
  assumes ok: "net_ok n wl F W" and r: "worker_take (nsrv n) = (Inr (Some j), t)"
  shows "\<exists>G V. net_ok (n\<lparr>nsrv := t, hands := hands n @ [j]\<rparr>) wl G V"
proof -
  have i: "net_inv (nsrv n) (clients n) (hands n @ W) (flooded n) wl F W" using ok by (simp add: net_ok_def)
  from worker_take_effect [OF net_invD(1,3,4) [OF i] r] obtain V p where
    t: "W = j # V" "t = (nsrv n)\<lparr>qs := p\<rparr>" "queues p (F(wl \<mapsto> V))" by auto
  have "newcomer t (clients n) wl (F(wl \<mapsto> V))" if "starting n"
    by (rule newcomer_keep [of "nsrv n" "clients n" wl F]) (use that ok t(2) in \<open>auto simp: net_ok_def\<close>)
  with inv_take [OF i t(3)] t(1,2) show ?thesis
    by (intro exI [of _ "F(wl \<mapsto> V)"] exI [of _ V]) (simp add: net_ok_def)
qed

lemma answer_ok:
  assumes ok: "net_ok n wl F W" and h: "hands n = us @ j # vs" and w: "jobs (nsrv n) j = Some w" "answering (op w)"
    and r: "set_response_for_client_and_push (Some j) e st (nsrv n) = (Inr (), t)"
  shows "\<exists>G. net_ok (n\<lparr>nsrv := t, hands := us @ vs\<rparr>) wl G W"
proof -
  let ?s = "nsrv n"
  have i: "net_inv ?s (clients n) (us @ j # vs @ W) (flooded n) wl F W" using ok h by (simp add: net_ok_def)
  from client_owns [OF i w] obtain l where
    l: "clients n (client_fd w) = Some (l, True)" "client_queue w = Some l" "F l = Some []" "l \<noteq> wl" by auto
  from answer_pushes [OF w(1) net_invD(1) [OF i] l(2,3), of e st] r obtain q where
    t: "t = ?s\<lparr>jobs := (jobs ?s)(j \<mapsto> w\<lparr>jerr := e, status_request := st\<rparr>), qs := q\<rparr>" "queues q (F(l \<mapsto> [j]))" by auto
  have "net_inv t (clients n) (us @ vs @ W) (flooded n) wl (F(l \<mapsto> [j])) W"
    by (rule inv_deliver [OF i w l(1)]) (use t in simp_all)
  moreover have "newcomer t (clients n) wl (F(l \<mapsto> [j]))" if "starting n"
    by (rule newcomer_keep [of ?s "clients n" wl F]) (use that ok t(1) l(1) in \<open>auto simp: net_ok_def\<close>)
  ultimately show ?thesis by (intro exI [of _ "F(l \<mapsto> [j])"]) (simp add: net_ok_def)
qed

lemma finish_ok:
  assumes ok: "net_ok n wl F W" and h: "hands n = us @ j # vs" and w: "jobs (nsrv n) j = Some w" "op w = END_WORKER"
    and r: "serve (Some j) (nsrv n) = (Inr c, t)"
  shows "net_ok (n\<lparr>nsrv := t, hands := us @ vs\<rparr>) wl F W"
proof -
  let ?s = "nsrv n"
  have i: "net_inv ?s (clients n) (us @ j # vs @ W) (flooded n) wl F W" using ok h by (simp add: net_ok_def)
  have "serve (Some j) ?s = case_end_worker (Some j) ?s" by (rule serve_is(9) [OF w(1)]) (use w(2) in simp)
  then have t: "jobs t = (jobs ?s)(j := None)" "jfresh t = jfresh ?s" "qs t = qs ?s" "workList t = workList ?s"
    "conf t = conf ?s" "args_slot t = args_slot ?s"
    using r by (auto simp: case_end_worker_def sq_def bnd_run free_job_def zoom_run split: prod.splits sum.splits)
  have "net_inv t (clients n) (us @ vs @ W) (flooded n) wl F W"
    by (rule inv_end [OF i]) (use t w in \<open>auto simp: ends_def\<close>)
  then show ?thesis using ok t(6) by (simp add: net_ok_def newcomer_def)
qed

lemma respond_ok:
  assumes ok: "net_ok n wl F W" and c: "clients n fd = Some (l, True)"
    and r: "client_response (Some l) (nsrv n) = (Inr go, t)"
  shows "\<exists>G. net_ok (n\<lparr>nsrv := t, clients := (clients n)(fd := (if go then Some (l, False) else None))\<rparr>) wl G W"
proof -
  let ?s = "nsrv n" and ?C = "(clients n)(fd := (if go then Some (l, False) else None))"
  have i: "net_inv ?s (clients n) (hands n @ W) (flooded n) wl F W" using ok by (simp add: net_ok_def)
  from net_invD(7) [OF i c] obtain A where A: "F l = Some A" "\<forall>j \<in> set A. of_client ?s fd j" by (auto simp: in_flight_def)
  show ?thesis
  proof (cases A)
    case Nil
    with client_response_blocked [OF net_invD(1) [OF i]] A(1) r show ?thesis by simp
  next
    case (Cons j B)
    let ?G = "F(l := (if go then Some B else None))"
    from Cons A obtain w where w: "jobs ?s j = Some w" by (auto simp: of_client_def)
    from client_response_effect [OF net_invD(1) [OF i] A(1) [unfolded Cons] w r] have
      t: "jobs t = (jobs ?s)(j := None)" "jfresh t = jfresh ?s" "queues (qs t) ?G" "workList t = workList ?s"
      "conf t = conf ?s" "args_slot t = args_slot ?s" by (auto split: if_splits)
    have "net_inv t ?C (hands n @ W) (flooded n) wl ?G W"
      by (rule inv_respond [OF i c A(1) [unfolded Cons]]) (use t in simp_all)
    moreover have "newcomer t ?C wl ?G" if "starting n"
      by (rule newcomer_keep [of ?s "clients n" wl F]) (use that ok t(6) c in \<open>auto simp: net_ok_def split: if_splits\<close>)
    ultimately show ?thesis by (intro exI [of _ ?G]) (simp add: net_ok_def)
  qed
qed

lemma flood_ok:
  assumes ok: "net_ok n wl F W" and fl: "\<not> flooded n" and r: "main_flood (nsrv n) = (Inr (), t)"
  shows "\<exists>G V. net_ok (n\<lparr>nsrv := t, flooded := True\<rparr>) wl G V"
proof -
  let ?s = "nsrv n" and ?n = "unat (Nslaves (conf (nsrv n)))"
  have i: "net_inv ?s (clients n) (hands n @ W) False wl F W" using ok fl by (simp add: net_ok_def)
  have cap: "length W + ?n \<le> list_cap" using work_list_bound [OF i] by simp
  from r obtain s1 where s1: "slog (line ''Arrived SIGHUP!'') [] ?s = (Inr (), s1)"
    and r1: "sq (flood_list (workList s1) (unat (Nslaves (conf s1)))) (in_qs (wake_up_all_readers (workList s1))) s1 = (Inr (), t)"
    by (auto simp: main_flood_def sq_def bnd_run split: prod.splits sum.splits)
  have f: "same_lists ?s s1" by (rule framesD [of "slog (line ''Arrived SIGHUP!'') []" ?s "Inr ()" s1, OF frames_mem s1])
  have i1: "net_inv s1 (clients n) (hands n @ W) False wl F W" by (rule inv_same_lists [OF i f])
  have c1: "conf s1 = conf ?s" "args_slot s1 = args_slot ?s" using f by (simp_all add: same_lists_def)
  let ?E = "[jfresh s1..<jfresh s1 + ?n]"
  from flood_list_run [OF net_invD(1,4) [OF i1] cap] obtain q where
    q: "flood_list (Some wl) ?n s1 = (Inr (), s1\<lparr>qs := q, jobs := flooded_jobs s1 wl ?n, jfresh := jfresh s1 + ?n\<rparr>)"
      "queues q (F(wl \<mapsto> W @ ?E))" by blast
  from wake_up_run [OF q(2) fun_upd_same] obtain q' where
    q': "wake_up_all_readers (Some wl) q = (Inr (), q')" "queues q' (F(wl \<mapsto> W @ ?E))" by blast
  have t: "t = s1\<lparr>jobs := flooded_jobs s1 wl ?n, jfresh := jfresh s1 + ?n, qs := q'\<rparr>"
    using r1 q(1) q'(1) net_invD(3) [OF i1] c1 by (simp add: sq_def bnd_run zoom_run)
  have "net_inv t (clients n) ((hands n @ W) @ ?E) True wl (F(wl \<mapsto> W @ ?E)) (W @ ?E)"
    by (rule inv_flood [OF i1]) (use q'(2) c1 in \<open>simp_all add: t\<close>)
  moreover have "newcomer t (clients n) wl (F(wl \<mapsto> W @ ?E))" if "starting n"
    by (rule newcomer_keep [of ?s "clients n" wl F]) (use that ok t c1(2) in \<open>auto simp: net_ok_def\<close>)
  ultimately show ?thesis by (intro exI [of _ "F(wl \<mapsto> W @ ?E)"] exI [of _ "W @ ?E"]) (simp add: net_ok_def)
qed

lemma net_step_ok:
  assumes "tstep n n'" and ok: "net_ok n wl F W"
  shows "\<exists>G V. net_ok n' wl G V"
  using assms(1)
proof (cases rule: tstep.cases)
  case (no_message fd l t)
  have i: "net_inv (nsrv n) (clients n) (hands n @ W) (flooded n) wl F W" using ok by (simp add: net_ok_def)
  have "length W < list_cap" using work_list_bound [OF i] by simp
  from client_request_effect [OF no_message(3) net_invD(1,3,4) [OF i] this] have "same_lists (nsrv n) t" by simp
  from same_lists_ok [OF ok this] no_message(1) show ?thesis by blast
next
  case (leave t)
  have i: "net_inv (nsrv n) (clients n) (hands n @ W) (flooded n) wl F W" using ok by (simp add: net_ok_def)
  from worker_take_effect [OF net_invD(1,3,4) [OF i] leave(2)] ok leave(1) show ?thesis by auto
next
  case (elsewhere v k m)
  from same_lists_ok [OF ok, of "(nsrv n)\<lparr>mem := m, socks := k, wk := v\<rparr>"] elsewhere show ?thesis
    by (auto simp: same_lists_def)
next
  case (signal g t)
  have "net_inv t (clients n) (hands n @ W) (flooded n) wl F W" "args_slot t = args_slot (nsrv n)"
    using signal(2) ok
    by (auto simp: net_ok_def signal_handler_def handle_graceful_def handle_shutdown_def intro: inv_frame split: sig.splits)
  with ok signal(1) show ?thesis by (intro exI [of _ F] exI [of _ W]) (simp add: net_ok_def newcomer_def)
next
  case (accept fd t)
  from accept_ok [OF ok accept(2-5)] accept(1) show ?thesis by blast
next
  case (start fd l t)
  from start_ok [OF ok start(2,3)] start(1) show ?thesis by blast
next
  case (ask fd l t)
  from ask_ok [OF ok ask(2,4,5)] ask(1) show ?thesis by blast
next
  case (take j t)
  from take_ok [OF ok take(2)] take(1) show ?thesis by blast
next
  case (answer us j vs w e st t)
  from answer_ok [OF ok answer(2-5)] answer(1) show ?thesis by blast
next
  case (finish us j vs w c t)
  from finish_ok [OF ok finish(2-5)] finish(1) show ?thesis by blast
next
  case (respond fd l go t)
  from respond_ok [OF ok respond(2,3)] respond(1) show ?thesis by blast
next
  case (flood t)
  from flood_ok [OF ok flood(3,4)] flood(1) show ?thesis by blast
qed

section \<open>Every interleaving\<close>

lemma started_ok: "started n wl \<Longrightarrow> net_ok n wl [wl \<mapsto> []] []"
  unfolding net_ok_def by (intro conjI net_invI) (simp_all add: started_def end_bound_def)

lemma reachable_ok:
  assumes "reachable n n'" and "started n wl"
  shows "\<exists>F W. net_ok n' wl F W"
  using assms(1)
proof (induction rule: rtranclp_induct)
  case base
  with started_ok [OF assms(2)] show ?case by blast
next
  case (step n1 n2)
  then show ?case using net_step_ok by blast
qed

lemma reachable_inv:
  assumes "reachable n n'" and "started n wl"
  shows "\<exists>F W. net_inv (nsrv n') (clients n') (hands n' @ W) (flooded n') wl F W"
  using reachable_ok [OF assms] by (auto simp: net_ok_def)

end
