(* ===== verification/Thread_Props.thy ===== *)
theory Thread_Props
  imports Threads Examples
begin

text \<open>
  Properties of the interleaved server: what no schedule of the threads can break, whatever
  the cache holds and whatever arrives on the sockets, as long as the clients send operations
  that are answered once and a client is accepted when the thread of the one before has
  started.
\<close>










end
