(* ===== verification/Config_Props.thy ===== *)
theory Config_Props
  imports Client_Utils Examples
begin

text \<open>
  The configuration file: the server reads back what a file in the documented format says,
  with the newline kept at the end of the two paths.
\<close>

section \<open>Decimal numbers\<close>

lemma isdigit_char: "(d::nat) < 10 \<Longrightarrow> isdigit (char_of (48 + d))"
  by (simp add: isdigit_def)

lemma digits_val_snoc: "digits_val (ds @ [c]) = 10 * digits_val ds + (of_char c - 48)"
  by (simp add: digits_val_def)

lemma dec_digits: "digits_val (dec n) = n \<and> (\<forall>c \<in> set (dec n). isdigit c) \<and> dec n \<noteq> []"
proof (induction n rule: dec.induct)
  case (1 n)
  have v: "(of_char (char_of (48 + n mod 10)) :: nat) - 48 = n mod 10" by simp
  show ?case
  proof (cases "n < 10")
    case True
    then show ?thesis using v isdigit_char [of n] by (simp add: dec.simps [of n] digits_val_def)
  next
    case False
    with 1 have "digits_val (dec (n div 10)) = n div 10" "\<forall>c \<in> set (dec (n div 10)). isdigit c" by simp_all
    with False v isdigit_char [of "n mod 10"] show ?thesis by (simp add: dec.simps [of n] digits_val_snoc)
  qed
qed

lemma not_digit: "\<not> isdigit newline" "isdigit c \<Longrightarrow> \<not> isspace c" "isdigit c \<Longrightarrow> c \<noteq> CHR 0x2B \<and> c \<noteq> CHR 0x2D"
  by (auto simp: isdigit_def isspace_def)

lemma fscanf_dec:
  assumes "n < 2 ^ 64" and "r = [] \<or> \<not> isspace (hd r)"
  shows "fscanf_lu (dec n @ newline # r) = Scan_value (of_nat n) r"
proof -
  obtain c cs where c: "dec n = c # cs" using dec_digits [of n] by (cases "dec n") auto
  have d: "isdigit c" "\<forall>c \<in> set (dec n). isdigit c" using dec_digits [of n] c by auto
  have sk: "skip_space (dec n @ newline # r) = dec n @ newline # r"
    using c not_digit(2) [OF d(1)] by (simp add: skip_space_def)
  have tw: "takeWhile isdigit (dec n @ newline # r) = dec n" "dropWhile isdigit (dec n @ newline # r) = newline # r"
    using d(2) not_digit(1) by simp_all
  have "skip_space (newline # r) = r" using assms(2) by (cases r) (auto simp: skip_space_def isspace_def)
  then show ?thesis
    using sk tw c not_digit(3) [OF d(1)] dec_digits [of n] assms(1)
    by (simp add: fscanf_lu_def Let_def strtoul_val_def)
qed

section \<open>The lines of the file\<close>

lemma fgets_line:
  assumes "newline \<notin> set p" and "length p < n"
  shows "fgets_chars n (p @ newline # r) = (p @ [newline], r)"
  using assms
proof (induction p arbitrary: n)
  case Nil
  then show ?case by (cases n) simp_all
next
  case (Cons c p)
  then obtain m where "n = Suc m" by (cases n) simp_all
  with Cons show ?case by auto
qed

definition path_ok :: "string \<Rightarrow> bool" where
  "path_ok p \<longleftrightarrow> nul_free p \<and> newline \<notin> set p \<and> length p < MAXPATH - 1"

lemma fgets_path:
  assumes "path_ok p"
  shows "fgets MAXPATH (p @ newline # r) = Some (p @ [newline], r)" and "cstr (p @ [newline]) = p @ [newline]"
proof -
  show "fgets MAXPATH (p @ newline # r) = Some (p @ [newline], r)"
    using fgets_line [of p 23 r] assms by (simp add: fgets_def path_ok_def)
  have "nul_free (p @ [newline])" using assms by (simp add: path_ok_def nul_free_def)
  then show "cstr (p @ [newline]) = p @ [newline]" by (rule cstr_nul_free)
qed

text \<open>A file in the format of \<^verbatim>\<open>config.txt\<close>, one setting per line.\<close>

definition config_text :: "string \<Rightarrow> string \<Rightarrow> u32 \<Rightarrow> u32 \<Rightarrow> nat \<Rightarrow> cache_policy_t \<Rightarrow> string" where
  "config_text lp sp nw mf mb pol =
     ''[LPT]'' @ lp @ newline # ''[SPT]'' @ sp @ newline # ''[NWK]'' @ dec (unat nw) @ newline #
     ''[MFL]'' @ dec (unat mf) @ newline # ''[MMB]'' @ dec mb @ newline #
     ''[PCY]'' @ (case pol of FIFO \<Rightarrow> ''FIFO'' | LRU \<Rightarrow> ''LRU'') @ [newline]"

lemma same_flag: "nul_free a \<Longrightarrow> length a = 5 \<Longrightarrow> length b = 5 \<Longrightarrow> strncmp a b 5 = 0 \<longleftrightarrow> a = b"
  using strncmp_length [of a b] by auto

lemma loop_LPT: "path_ok p \<Longrightarrow> get_config_loop e (Suc k) c (''[LPT]'' @ p @ newline # r) =
    get_config_loop e k (c\<lparr>log_path := p @ [newline]\<rparr>) r"
  using fgets_path(1) [of p r] fgets_path(2) [of p] by (simp add: fscanf_5c_def same_flag)

lemma loop_SPT: "path_ok p \<Longrightarrow> get_config_loop e (Suc k) c (''[SPT]'' @ p @ newline # r) =
    get_config_loop e k (c\<lparr>socket_path := p @ [newline]\<rparr>) r"
  using fgets_path(1) [of p r] fgets_path(2) [of p] by (simp add: fscanf_5c_def same_flag)

lemma loop_numbers:
  assumes "n < 2 ^ 64" and "r = [] \<or> \<not> isspace (hd r)"
  shows "get_config_loop e (Suc k) c (''[NWK]'' @ dec n @ newline # r) = get_config_loop e k (c\<lparr>Nslaves := of_nat n\<rparr>) r"
    and "get_config_loop e (Suc k) c (''[MFL]'' @ dec n @ newline # r) = get_config_loop e k (c\<lparr>max_files := of_nat n\<rparr>) r"
    and "get_config_loop e (Suc k) c (''[MMB]'' @ dec n @ newline # r) =
      get_config_loop e k (c\<lparr>max_memory := of_nat n * 1000000\<rparr>) r"
  using fscanf_dec [OF assms] by (simp_all add: fscanf_5c_def same_flag)

lemma loop_PCY: "get_config_loop False (Suc (Suc k)) c (''[PCY]'' @ (case pol of FIFO \<Rightarrow> ''FIFO'' | LRU \<Rightarrow> ''LRU'') @ [newline]) =
    (0, c\<lparr>policy := pol\<rparr>)"
proof -
  have "strncmp ''LRU\<newline>'' ''FIFO'' 4 \<noteq> 0" "strncmp ''FIFO\<newline>'' ''FIFO'' 4 = 0" by code_simp+
  moreover have "fgets_chars 23 ''FIFO\<newline>'' = (''FIFO\<newline>'', [])" "fgets_chars 23 ''LRU\<newline>'' = (''LRU\<newline>'', [])"
    by code_simp+
  ultimately show ?thesis by (cases pol) (simp_all add: fscanf_5c_def fgets_def scan_end_def same_flag)
qed

lemma config_file_read:
  assumes "path_ok lp" and "path_ok sp" and "mb < 2 ^ 64" and "fopen_r path = Some (config_text lp sp nw mf mb pol, False)"
  shows "get_config fopen_r path cfg = (0, \<lparr>Nslaves = nw, max_memory = of_nat mb * 1000000, max_files = mf,
    socket_path = sp @ [newline], log_path = lp @ [newline], policy = pol\<rparr>)"
proof -
  have u: "unat nw < 2 ^ 64" "unat mf < 2 ^ 64"
    using unsigned_less [of nw, where ?'a = nat] unsigned_less [of mf, where ?'a = nat] by simp_all
  have s: "\<not> isspace CHR ''[''" by (simp add: isspace_def)
  have "get_config fopen_r path cfg = get_config_loop False (Suc (Suc (Suc (Suc (Suc (Suc (Suc 0))))))) cfg (config_text lp sp nw mf mb pol)"
    using assms(4) by (simp add: get_config_def eval_nat_numeral del: get_config_loop.simps)
  also have "\<dots> = (0, cfg\<lparr>log_path := lp @ [newline], socket_path := sp @ [newline], Nslaves := nw, max_files := mf,
      max_memory := of_nat mb * 1000000, policy := pol\<rparr>)"
    unfolding config_text_def loop_LPT [OF assms(1)] loop_SPT [OF assms(2)]
    by (subst loop_numbers(1) [OF u(1)], simp add: s, subst loop_numbers(2) [OF u(2)], simp add: s,
        subst loop_numbers(3) [OF assms(3)], simp add: s, subst loop_PCY, simp del: get_config_loop.simps)
  finally show ?thesis by simp
qed

text \<open>
  C26. Reading a configuration file in the documented format gives back the number of
  workers, the limit of files and the policy, the memory limit in millions of bytes (as long
  as it fits 64 bits), and the two paths each with the newline of its line at the end.
\<close>

theorem config_roundtrip:
  assumes "path_ok lp" and "path_ok sp" and "mb * 1000000 < 2 ^ 64"
    and "fopen_r path = Some (config_text lp sp nw mf mb pol, False)"
  shows "\<exists>c. get_config fopen_r path cfg = (0, c) \<and> Nslaves c = nw \<and> max_files c = mf \<and> policy c = pol \<and>
    unat (max_memory c) = mb * 1000000 \<and> log_path c = lp @ [newline] \<and> socket_path c = sp @ [newline]"
proof -
  have "unat (of_nat mb * 1000000 :: u64) = mb * 1000000"
    using assms(3) unat_of_nat_small [of "mb * 1000000"] by simp
  then show ?thesis using config_file_read [where fopen_r = fopen_r and path = path and cfg = cfg, OF assms(1,2) _ assms(4)] assms(3) by simp
qed

theorem config_roundtrip_witness:
  "\<exists>c. get_config (\<lambda>_. Some (config_text ''log'' ''/tmp/sok'' 1 10000 128 LRU, False)) ''config.txt'' configFile_init = (0, c) \<and>
    Nslaves c = 1 \<and> unat (max_memory c) = 128000000 \<and> max_files c = 10000 \<and> policy c = LRU"
  using config_roundtrip [of "''log''" "''/tmp/sok''" 128 "\<lambda>_. Some (config_text ''log'' ''/tmp/sok'' 1 10000 128 LRU, False)"
      "''config.txt''" 1 10000 LRU configFile_init]
  by (simp add: path_ok_def) blast

end
