(* ===== verification/Lifecycle.thy ===== *)
theory Lifecycle
  imports Config_Props Thread_Steps
begin

text \<open>
  The server's life around its loop: \<open>main\<close> from the command line to the idle server, the
  graceful shutdown in which the workers leave one by one, and the cleaning up.
\<close>

section \<open>Starting\<close>

text \<open>
  A process at the start of \<open>main\<close>: nothing allocated, no lock held, no call that fails, the
  mode and the worker count at their initial values.
\<close>

definition fresh_process :: "srv \<Rightarrow> bool" where
  "fresh_process s \<longleftrightarrow>
     queues (qs s) Map.empty \<and> workers_wf (wk s) \<and> libc_ok (mlibc (mem s)) \<and> small_ok (mlibc (mem s)) \<and>
     log_wf (logst (mem s)) \<and> heap (mem s) = Map.empty \<and> jobs s = Map.empty \<and> serverMode s = ON \<and>
     workerCounter (wk s) = 0"

lemma initMemory_run:
  assumes "libc_ok (mlibc m)" and "log_wf (logst m)" and "heap m = Map.empty"
  shows "\<exists>m'. initMemory c m = (Inr (), m') \<and> stores m' [] \<and> MaxFiles m' = max_files c \<and> MaxMemory m' = max_memory c \<and>
    mlibc m' = mlibc m"
proof -
  let ?m = "m\<lparr>MaxFiles := max_files c, MaxMemory := max_memory c, alg_trigger := 0, nCurrentFile := 0, nCurrentMemoryUsed := 0,
    MaxRecvFile := 0, MaxUsedMemory := 0, memoryLock := False, metadataLock := False, memory := None\<rparr>"
  have "mutex_ok (mlibc m)" by (rule libc_okD [OF assms(1)])
  then have "initMemory c m = (Inr (), ?m)"
    unfolding initMemory_def sq_def bnd_def gets_def modify_def by simp
  moreover have "mem_wf ?m []" using assms(1-3) by (simp add: mem_wf_def unlocked_def names_def bytes_used_def)
  then have "stores ?m []" using storesI [of ?m "[]"] by (simp add: view_def)
  ultimately show ?thesis by simp
qed

text \<open>The configuration, the log, the cache and the work list, on a file in the documented format.\<close>

lemma main_config_run:
  assumes "fresh_process s" and "argv = [prog] \<and> path = ''config.txt'' \<or> argv = [prog, path]"
    and "path_ok lp" and "path_ok sp" and "mb < 2 ^ 64"
    and "fopen_r path = Some (config_text lp sp nw mf mb pol, False)" and "fopen_w (lp @ [newline])"
  shows "\<exists>t wl. main_config fopen_r fopen_w argv s = (Inr (), t) \<and> srv_ok t [] [wl \<mapsto> []] \<and> workList t = Some wl \<and>
    MaxFiles (mem t) = mf \<and> MaxMemory (mem t) = of_nat mb * 1000000 \<and> policy (conf t) = pol \<and> Nslaves (conf t) = nw \<and>
    socks t = socks s \<and> serverMode t = serverMode s \<and> wk t = wk s \<and> threads t = threads s \<and> masks t = masks s"
proof -
  define c where "c = \<lparr>Nslaves = nw, max_memory = of_nat mb * 1000000, max_files = mf,
    socket_path = sp @ [newline], log_path = lp @ [newline], policy = pol\<rparr>"
  have get: "get_config fopen_r path (conf s) = (0, c)"
    unfolding c_def by (rule config_file_read [where fopen_r = fopen_r and path = path]) (use assms(3-6) in simp_all)
  have arg: "\<not> 2 < length argv" "(if length argv = 1 then ''config.txt'' else argv ! 1) = path" using assms(2) by auto
  define L where "L = (logst (mem s))\<lparr>logFile := True, entries := []\<rparr>"
  define m1 where "m1 = (mem s)\<lparr>logst := L\<lparr>entries := [(line ''Logging started successfully'', []),
    (if pol = LRU then line ''LRU Policy has been chosen'' else line ''FIFO Policy has been chosen'', [])]\<rparr>\<rparr>"
  have lw: "log_wf L" using assms(1) by (simp add: L_def fresh_process_def log_wf_def)
  have "log_wf (logst m1)" "libc_ok (mlibc m1)" "heap m1 = Map.empty"
    using assms(1) lw by (simp_all add: m1_def fresh_process_def)
  from initMemory_run [OF this(2,1,3), of c] obtain m2 where
    m2: "initMemory c m1 = (Inr (), m2)" "stores m2 []" "MaxFiles m2 = mf" "MaxMemory m2 = of_nat mb * 1000000" "mlibc m2 = mlibc m1"
    by (auto simp: c_def)
  have "queues (qs s) Map.empty" using assms(1) by (simp add: fresh_process_def)
  from initList_run [OF this] obtain q where
    q: "initList (qs s) = (Inr (Some (lfresh (qs s))), q)" "queues q [lfresh (qs s) \<mapsto> []]" by blast
  let ?t = "s\<lparr>conf := c, mem := m2, qs := q, workList := Some (lfresh (qs s))\<rparr>"
  have p: "policy c = pol" "log_path c = lp @ [newline]" "Nslaves c = nw" by (simp_all add: c_def)
  have "main_config fopen_r fopen_w argv s = (Inr (), ?t)"
  proof -
    have init: "initLogfile fopen_w (Some (log_path c)) (logst (mem s)) = (Inr 0, L)"
      using assms(7) by (simp add: initLogfile_def p sq_def bnd_run L_def)
    have l1: "log_msg (line ''Logging started successfully'') [] L =
        (Inr (), L\<lparr>entries := [(line ''Logging started successfully'', [])]\<rparr>)"
      using log_msg_run [OF lw] by (simp add: L_def)
    have l2: "log_msg x [] (L\<lparr>entries := es\<rparr>) = (Inr (), L\<lparr>entries := es @ [(x, [])]\<rparr>)" for x es
      using log_msg_run [of "L\<lparr>entries := es\<rparr>"] lw by simp
    show ?thesis
      using arg get init l1 l2 m2(1) q(1)
      by (simp add: main_config_def bnd_run sq_def zoom_run p m1_def)
  qed
  moreover have "srv_ok ?t [] [lfresh (qs s) \<mapsto> []]"
    using assms(1) m2(2,5) q(2) by (simp add: srv_ok_def fresh_process_def m1_def)
  ultimately show ?thesis using m2(3,4) p by (intro exI [of _ ?t] exI [of _ "lfresh (qs s)"]) simp
qed

text \<open>The socket, the signal masks and the workers.\<close>

lemma create_workers_run:
  "thread_ok (qlibc (qs s)) \<Longrightarrow> create_workers n s = (Inr (), s\<lparr>threads := threads s @ replicate n Worker_thread\<rparr>)"
proof (induction n arbitrary: s)
  case (Suc n)
  let ?u = "s\<lparr>threads := threads s @ [Worker_thread]\<rparr>"
  have c: "safe_pthread_create (\<lambda>s. qlibc (qs s)) (threads_update (\<lambda>ts. ts @ [Worker_thread])) True s = (Inr (), ?u)"
    using Suc.prems pthread_create_run [of "\<lambda>s. qlibc (qs s)" s "threads_update (\<lambda>ts. ts @ [Worker_thread])" True] by simp
  have "create_workers n ?u = (Inr (), s\<lparr>threads := threads s @ replicate (Suc n) Worker_thread\<rparr>)"
    using Suc.IH [of ?u] Suc.prems by simp
  with c show ?case by (simp add: sq_def bnd_run)
qed simp

definition printed :: "mem_state \<Rightarrow> (string \<times> log_arg list) list \<Rightarrow> mem_state" where
  "printed s out = s\<lparr>stdout := stdout s @ out\<rparr>"

lemma printed_simps [simp]:
  "unlocked (printed s out) = unlocked s" "mem_wf (printed s out) as = mem_wf s as" "heap (printed s out) = heap s"
  "memory (printed s out) = memory s" "nCurrentFile (printed s out) = nCurrentFile s" "logst (printed s out) = logst s"
  "printed (printed s out) out' = printed s (out @ out')" "printed s [] = s" "stores (printed s out) fs = stores s fs"
  "MaxFiles (printed s out) = MaxFiles s" "MaxMemory (printed s out) = MaxMemory s" "mlibc (printed s out) = mlibc s"
  by (simp_all add: printed_def unlocked_def mem_wf_def names_def bytes_used_def stores_def view_def)

lemma printf_run [simp]: "printf f as s = (Inr (), printed s [(f, as)])"
  by (simp add: printf_def printed_def)

lemma logged_limits [simp]: "MaxFiles (logged f as m) = MaxFiles m" "MaxMemory (logged f as m) = MaxMemory m"
  by (simp_all add: logged_def)

lemma main_socket_run:
  assumes "srv_ok s fs F"
  shows "\<exists>t. main_socket pid True True True s = (Inr None, t) \<and> srv_ok t fs F \<and>
    threads t = threads s @ replicate (unat (Nslaves (conf s))) Worker_thread \<and>
    masks t = (fst (masks s) \<union> {SIGHUP, SIGINT, SIGQUIT, SIGPIPE}, {}) \<and>
    MaxFiles (mem t) = MaxFiles (mem s) \<and> MaxMemory (mem t) = MaxMemory (mem s) \<and> conf t = conf s \<and> workList t = workList s \<and>
    socks t = socks s \<and> serverMode t = serverMode s \<and> wk t = wk s"
proof -
  have st: "stores (mem s) fs" and q: "queues (qs s) F" using assms by (simp_all add: srv_ok_def)
  let ?m1 = "logged (line ''Setting up socket...'') [] (mem s)"
  let ?m2 = "logged (line ''Binded socket!'') [] ?m1"
  let ?k = "(fst (masks s) \<union> {SIGHUP, SIGINT, SIGQUIT, SIGPIPE}, {})"
  let ?ts = "threads s @ replicate (unat (Nslaves (conf s))) Worker_thread"
  let ?t = "s\<lparr>mem := printed ?m2 [(line ''%d'', [LN (widen pid)])], masks := ?k, threads := ?ts\<rparr>"
  have th: "thread_ok (qlibc (qs s))" using queues_libc [OF q] by simp
  have "main_socket pid True True True s = (Inr None, ?t)"
  proof -
    have l: "slog f as u = (Inr (), u\<lparr>mem := logged f as (mem u)\<rparr>)" if "stores (mem u) fs" for f as u
      by (rule in_mem_run) (use that in simp)
    have p: "in_mem (printf f as) u = (Inr (), u\<lparr>mem := printed (mem u) [(f, as)]\<rparr>)" for f as u
      by (rule in_mem_run) simp
    have k: "masks_update (\<lambda>m. snd (main_masks (fst m))) u = u\<lparr>masks := (fst (masks u) \<union> {SIGHUP, SIGINT, SIGQUIT, SIGPIPE}, {})\<rparr>"
      for u :: srv by (cases u) (simp add: main_masks_run)
    show ?thesis using st th by (cases s) (simp add: main_socket_def sq_def bnd_run l p k create_workers_run)
  qed
  moreover have "srv_ok ?t fs F" using assms by (simp add: srv_ok_def)
  ultimately show ?thesis by (intro exI [of _ ?t]) simp
qed

text \<open>The worker threads begin, one after the other, and each waits on the empty work list.\<close>

fun begin_workers :: "nat \<Rightarrow> srv \<Rightarrow> srv" where
  "begin_workers 0 s = s"
| "begin_workers (Suc n) s = begin_workers n (snd (worker_thread 1 s))"

lemma worker_thread_waits:
  assumes "queues (qs s) F" and "workList s = Some wl" and "F wl = Some []" and "serverMode s \<noteq> OFF" and "workers_wf (wk s)"
  shows "worker_thread k s = (Inl (if k = 0 then Diverges else Blocked), s\<lparr>wk := (wk s)\<lparr>workerCounter := workerCounter (wk s) + 1\<rparr>\<rparr>)"
proof -
  let ?t = "s\<lparr>wk := (wk s)\<lparr>workerCounter := workerCounter (wk s) + 1\<rparr>\<rparr>"
  have "worker_take ?t = (Inl Blocked, ?t)" by (rule worker_take_blocked [where F = F and wl = wl]) (use assms in simp_all)
  then show ?thesis using worker_add_run [OF assms(5)] assms(2)
    by (cases k) (simp_all add: worker_thread_def worker_round_def sq_def bnd_run zoom_run)
qed

lemma begin_workers_run:
  assumes "queues (qs s) F" and "workList s = Some wl" and "F wl = Some []" and "serverMode s \<noteq> OFF" and "workers_wf (wk s)"
  shows "begin_workers n s = s\<lparr>wk := (wk s)\<lparr>workerCounter := workerCounter (wk s) + of_nat n\<rparr>\<rparr>"
  using assms
proof (induction n arbitrary: s)
  case (Suc n)
  note w = worker_thread_waits [OF Suc.prems, of "Suc 0"]
  have "begin_workers n (s\<lparr>wk := (wk s)\<lparr>workerCounter := workerCounter (wk s) + 1\<rparr>\<rparr>) =
      s\<lparr>wk := (wk s)\<lparr>workerCounter := workerCounter (wk s) + of_nat (Suc n)\<rparr>\<rparr>"
    by (subst Suc.IH) (use Suc.prems in \<open>simp_all add: algebra_simps\<close>)
  then show ?case by (simp add: w)
qed simp

lemma begin_workers_wait:
  assumes "queues (qs s) F" and "workList s = Some wl" and "F wl = Some []" and "serverMode s \<noteq> OFF" and "workers_wf (wk s)"
  shows "map (\<lambda>k. fst (worker_thread 1 (begin_workers k s))) [0..<n] = replicate n (Inl Blocked)"
proof -
  have "fst (worker_thread (Suc 0) (begin_workers k s)) = Inl Blocked" for k
    using worker_thread_waits [of "begin_workers k s" F wl "Suc 0"] assms by (simp add: begin_workers_run [OF assms])
  then show ?thesis by (simp add: map_replicate_const)
qed

text \<open>From the command line to the loop.\<close>

lemma startup_run:
  assumes "fresh_process s" and "argv = [prog] \<and> path = ''config.txt'' \<or> argv = [prog, path]"
    and "path_ok lp" and "path_ok sp" and "mb * 1000000 < 2 ^ 64"
    and "fopen_r path = Some (config_text lp sp nw mf mb pol, False)" and "fopen_w (lp @ [newline])"
  shows "\<exists>t u v wl. main_config fopen_r fopen_w argv s = (Inr (), t) \<and> main_socket pid True True True t = (Inr None, u) \<and>
    map (\<lambda>k. fst (worker_thread 1 (begin_workers k u))) [0..<unat nw] = replicate (unat nw) (Inl Blocked) \<and>
    v = begin_workers (unat nw) u \<and> srv_ok v [] [wl \<mapsto> []] \<and> workList v = Some wl \<and>
    MaxFiles (mem v) = mf \<and> unat (MaxMemory (mem v)) = mb * 1000000 \<and> policy (conf v) = pol \<and> Nslaves (conf v) = nw \<and>
    threads v = threads s @ replicate (unat nw) Worker_thread \<and> workerCounter (wk v) = nw \<and>
    masks v = (fst (masks s) \<union> {SIGHUP, SIGINT, SIGQUIT, SIGPIPE}, {}) \<and> socks v = socks s \<and> serverMode v = ON"
proof -
  have mb: "mb < 2 ^ 64" using assms(5) by simp
  from main_config_run [where fopen_r = fopen_r and fopen_w = fopen_w and nw = nw and mf = mf and pol = pol, OF assms(1-4) mb assms(6,7)]
  obtain t wl where t: "main_config fopen_r fopen_w argv s = (Inr (), t)" "srv_ok t [] [wl \<mapsto> []]" "workList t = Some wl"
    "MaxFiles (mem t) = mf" "MaxMemory (mem t) = of_nat mb * 1000000" "policy (conf t) = pol" "Nslaves (conf t) = nw"
    "socks t = socks s" "serverMode t = serverMode s" "wk t = wk s" "threads t = threads s" "masks t = masks s" by blast
  from main_socket_run [OF t(2), of pid] obtain u where u: "main_socket pid True True True t = (Inr None, u)"
    "srv_ok u [] [wl \<mapsto> []]" "threads u = threads t @ replicate (unat (Nslaves (conf t))) Worker_thread"
    "masks u = (fst (masks t) \<union> {SIGHUP, SIGINT, SIGQUIT, SIGPIPE}, {})" "MaxFiles (mem u) = MaxFiles (mem t)"
    "MaxMemory (mem u) = MaxMemory (mem t)" "conf u = conf t" "workList u = workList t" "socks u = socks t"
    "serverMode u = serverMode t" "wk u = wk t" by blast
  have f: "serverMode s = ON" "workerCounter (wk s) = 0" "workers_wf (wk s)" using assms(1) by (simp_all add: fresh_process_def)
  have q: "queues (qs u) [wl \<mapsto> []]" using u(2) by (simp add: srv_ok_def)
  have b: "begin_workers (unat nw) u = u\<lparr>wk := (wk u)\<lparr>workerCounter := nw\<rparr>\<rparr>"
    using begin_workers_run [OF q, of wl "unat nw"] u t f by simp
  have bl: "map (\<lambda>k. fst (worker_thread 1 (begin_workers k u))) [0..<unat nw] = replicate (unat nw) (Inl Blocked)"
    by (rule begin_workers_wait [OF q, of wl]) (use u t f in simp_all)
  have mem: "unat (of_nat mb * 1000000 :: u64) = mb * 1000000"
    using assms(5) unat_of_nat_small [of "mb * 1000000"] by simp
  have "srv_ok (u\<lparr>wk := (wk u)\<lparr>workerCounter := nw\<rparr>\<rparr>) [] [wl \<mapsto> []]" using u(2) by (simp add: srv_ok_def)
  then show ?thesis using t u b bl mem f
    by (intro exI [of _ t] exI [of _ u] exI [of _ "u\<lparr>wk := (wk u)\<lparr>workerCounter := nw\<rparr>\<rparr>"] exI [of _ wl]) simp
qed

section \<open>The workers leave\<close>

text \<open>\<open>n\<close> rounds of workers, one after the other.\<close>

fun rounds :: "nat \<Rightarrow> wctl list scmd" where
  "rounds 0 = ret []"
| "rounds (Suc n) = bnd worker_round (\<lambda>c. bnd (rounds n) (\<lambda>cs. ret (c # cs)))"

lemma end_round:
  assumes q: "queues (qs s) F" "workList s = Some wl" "F wl = Some (j # W)" and m: "serverMode s \<noteq> OFF"
    and j: "jobs s j = Some (end_job wl)" and w: "workers_wf (wk s)" "workerCounter (wk s) \<noteq> 0"
  shows "\<exists>t. worker_round s = (Inr Exit_thread, t) \<and> queues (qs t) (F(wl \<mapsto> W)) \<and> workList t = Some wl \<and>
    serverMode t = serverMode s \<and> jobs t = (jobs s)(j := None) \<and> workers_wf (wk t) \<and>
    workerCounter (wk t) = workerCounter (wk s) - 1 \<and> mem t = mem s"
proof -
  from worker_round_run [OF q m] obtain q' where
    q': "worker_round s = serve (Some j) (s\<lparr>qs := q'\<rparr>)" "queues q' (F(wl \<mapsto> W))" by blast
  have "serve (Some j) (s\<lparr>qs := q'\<rparr>) = case_end_worker (Some j) (s\<lparr>qs := q'\<rparr>)"
    by (rule serve_is(9) [of _ j "end_job wl"]) (use j in \<open>simp_all add: end_job_def\<close>)
  with q' worker_sub_run [OF w] m q(2) w(1) show ?thesis
    by (auto simp: case_end_worker_def sq_def bnd_run zoom_run free_job_def)
qed

lemma end_rounds:
  assumes "queues (qs s) F" and "workList s = Some wl" and "F wl = Some W" and "serverMode s \<noteq> OFF"
    and "\<forall>j \<in> set W. jobs s j = Some (end_job wl)" and "distinct W"
    and "workers_wf (wk s)" and "workerCounter (wk s) = of_nat (length W)" and "length W < 2 ^ 32"
  shows "\<exists>t. rounds (length W) s = (Inr (replicate (length W) Exit_thread), t) \<and> queues (qs t) (F(wl \<mapsto> [])) \<and>
    workers_wf (wk t) \<and> workerCounter (wk t) = 0 \<and> mem t = mem s \<and> (\<forall>j. jobs t j = (if j \<in> set W then None else jobs s j))"
  using assms
proof (induction W arbitrary: s F)
  case Nil
  then show ?case by (auto simp: fun_upd_idem)
next
  case (Cons j W)
  have nz: "workerCounter (wk s) \<noteq> 0"
  proof
    assume "workerCounter (wk s) = 0"
    then have "unat (of_nat (length (j # W)) :: u32) = 0" using Cons.prems(8) by simp
    then show False using unat32_of_nat_small [OF Cons.prems(9)] by simp
  qed
  from end_round [OF Cons.prems(1-4) _ Cons.prems(7) nz] Cons.prems(5) obtain t where
    t: "worker_round s = (Inr Exit_thread, t)" "queues (qs t) (F(wl \<mapsto> W))" "workList t = Some wl"
      "serverMode t = serverMode s" "jobs t = (jobs s)(j := None)" "workers_wf (wk t)"
      "workerCounter (wk t) = workerCounter (wk s) - 1" "mem t = mem s" by auto
  have "\<forall>k \<in> set W. jobs t k = Some (end_job wl)" using Cons.prems(5,6) t(5) by auto
  moreover have "serverMode t \<noteq> OFF" "distinct W" "length W < 2 ^ 32" using Cons.prems(4,6,9) t(4) by simp_all
  moreover have "workerCounter (wk t) = of_nat (length W)" using t(7) Cons.prems(8) by simp
  ultimately obtain u where
    u: "rounds (length W) t = (Inr (replicate (length W) Exit_thread), u)" "queues (qs u) (F(wl \<mapsto> W, wl \<mapsto> []))"
      "workers_wf (wk u)" "workerCounter (wk u) = 0" "mem u = mem t" "\<forall>k. jobs u k = (if k \<in> set W then None else jobs t k)"
    using Cons.IH [OF t(2,3) fun_upd_same] t(6) by blast
  then show ?case using t(1,5,8) by (simp add: bnd_run del: fun_upd_apply) (simp add: fun_upd_def)
qed

section \<open>Cleaning up\<close>

definition name_line :: "mem_state \<Rightarrow> addr \<Rightarrow> string \<times> log_arg list" where
  "name_line s a = (line ''%s'', [LS (filename (file_of s a))])"

lemma printFiles_loop_run:
  assumes "chain fnext (heap s) p as" and "unlocked s"
  shows "printFiles_loop (length as) p s = (Inr (), printed s (map (name_line s) as))"
  using assms
proof (induction as arbitrary: s p)
  case Nil
  then show ?case by (simp add: bnd_run get_actual_files_run)
next
  case (Cons a as)
  then obtain f where f: "p = Some a" "heap s a = Some f" "chain fnext (heap s) (fnext f) as" by auto
  let ?s = "printed s [name_line s a]"
  have nl: "name_line ?s = name_line s" by (simp add: name_line_def fun_eq_iff)
  have "chain fnext (heap ?s) (fnext f) as" "unlocked ?s" using f(3) Cons.prems(2) by simp_all
  from Cons.IH [OF this] have "printFiles_loop (length as) (fnext f) ?s = (Inr (), printed s (map (name_line s) (a # as)))"
    by (simp add: nl)
  moreover have "printFiles_loop (length (a # as)) p s = printFiles_loop (length as) (fnext f) ?s"
    using f Cons.prems(2)
    by (simp add: bnd_run sq_def get_actual_files_run deref_def puts_def next_file_def name_line_def)
  ultimately show ?case by simp
qed

lemma printFiles_run:
  assumes "mem_wf s as"
  shows "printFiles s = (Inr (), printed s ([(line ''%s'', [LS ''===========FILE_PRINT============''])] @
    map (name_line s) as @ [(line ''%s'', [LS ''==============================='' ])]))"
proof -
  let ?s = "printed s [(line ''%s'', [LS ''===========FILE_PRINT============''])]"
  have n: "unat (nCurrentFile s) = length as" using mem_wfD(5,6) [OF assms] unat32_of_nat_small [of "length as"] by simp
  have nl: "name_line ?s = name_line s" by (simp add: name_line_def fun_eq_iff)
  have "printFiles_loop (length as) (memory s) ?s = (Inr (), printed ?s (map (name_line s) as))"
    using printFiles_loop_run [of ?s "memory s" as] mem_wfD(1) [OF assms] mem_wf_unlocked [OF assms] nl by simp
  then show ?thesis using mem_wf_unlocked [OF assms] n by (simp add: printFiles_def sq_def bnd_run puts_def get_head_run)
qed

text \<open>Every file of the list is freed, nothing else is, and the counters come down to 0.\<close>

lemma clean_cache_loop_run:
  assumes "mem_wf s as"
  shows "\<exists>t. clean_cache_loop (Suc (length as)) s = (Inr (), t) \<and> mem_wf t [] \<and> logst t = logst s \<and>
    (\<forall>a. heap t a = None \<longleftrightarrow> heap s a = None \<or> a \<in> set as)"
  using assms
proof (induction as arbitrary: s)
  case Nil
  then show ?case using get_actual_files_run [OF mem_wf_unlocked [OF Nil]] mem_wfD(6) [OF Nil] by (simp add: bnd_run)
next
  case (Cons a as)
  from pop_head_free [OF Cons.prems] obtain h p where
    pop: "bnd pop_from_head free_file s = (Inr (), freed s a h p)" "same_data (heap s) h" "mem_wf (freed s a h p) as" by blast
  from Cons.IH [OF pop(3)] obtain t where
    t: "clean_cache_loop (Suc (length as)) (freed s a h p) = (Inr (), t)" "mem_wf t []" "logst t = logst (freed s a h p)"
      "\<forall>b. heap t b = None \<longleftrightarrow> heap (freed s a h p) b = None \<or> b \<in> set as" by blast
  have "unat (nCurrentFile s) = Suc (length as)"
    using mem_wfD(5,6) [OF Cons.prems] unat32_of_nat_small [of "Suc (length as)"] by simp
  then have "nCurrentFile s \<noteq> 0" by auto
  moreover obtain x s1 where "pop_from_head s = (Inr x, s1)" "free_file x s1 = (Inr (), freed s a h p)"
    using pop(1) by (rule bnd_InrE)
  ultimately have "clean_cache_loop (Suc (length (a # as))) s = (Inr (), t)"
    using get_actual_files_run [OF mem_wf_unlocked [OF Cons.prems]] t(1) by (simp add: bnd_run sq_def)
  moreover have "heap t b = None \<longleftrightarrow> heap s b = None \<or> b \<in> set (a # as)" for b
    using t(4) same_data_None [OF pop(2), of b] by (auto simp: freed_def)
  ultimately show ?case using t(2,3) by (auto simp: freed_def)
qed

lemma clean_cache_run:
  assumes "mem_wf s as"
  shows "\<exists>t. clean_cache s = (Inr (), t) \<and> mem_wf t [] \<and> logst t = logst s \<and>
    (\<forall>a. heap t a = None \<longleftrightarrow> heap s a = None \<or> a \<in> set as)"
proof -
  have "unat (nCurrentFile s) = length as" using mem_wfD(5,6) [OF assms] unat32_of_nat_small [of "length as"] by simp
  with clean_cache_loop_run [OF assms] show ?thesis by (simp add: clean_cache_def bnd_run del: clean_cache_loop.simps)
qed

end
