(* ===== verification/Lifecycle_Props.thy ===== *)
theory Lifecycle_Props
  imports Lifecycle
begin

text \<open>
  Properties of the server's life: it starts idle with the limits of its configuration, a
  graceful shutdown ends every worker, and cleaning up frees every file.
\<close>

text \<open>
  C24. Startup: given a configuration file in the documented format (found under the default
  name or the one on the command line, with a memory limit that fits the 64-bit field) and
  calls of the system that succeed, \<open>main\<close> gets through its configuration, its socket, its
  signal masks and the creation of its workers, and the workers that then begin all wait for
  work: the server that enters the loop has an empty cache with exactly the configured limits
  and policy, an empty work list, the configured number of running workers, and the four
  signals masked. Other configuration files and failing calls are not in its scope.
\<close>

theorem startup_ready:
  assumes "fresh_process s" and "argv = [prog] \<and> path = ''config.txt'' \<or> argv = [prog, path]"
    and "path_ok lp" and "path_ok sp" and "mb * 1000000 < 2 ^ 64"
    and "fopen_r path = Some (config_text lp sp nw mf mb pol, False)" and "fopen_w (lp @ [newline])"
  shows "\<exists>t u v wl. main_config fopen_r fopen_w argv s = (Inr (), t) \<and> main_socket pid True True True t = (Inr None, u) \<and>
    map (\<lambda>k. fst (worker_thread 1 (begin_workers k u))) [0..<unat nw] = replicate (unat nw) (Inl Blocked) \<and>
    v = begin_workers (unat nw) u \<and> srv_ok v [] [wl \<mapsto> []] \<and> workList v = Some wl \<and>
    MaxFiles (mem v) = mf \<and> unat (MaxMemory (mem v)) = mb * 1000000 \<and> policy (conf v) = pol \<and> Nslaves (conf v) = nw \<and>
    threads v = threads s @ replicate (unat nw) Worker_thread \<and> workerCounter (wk v) = nw \<and>
    masks v = (fst (masks s) \<union> {SIGHUP, SIGINT, SIGQUIT, SIGPIPE}, {}) \<and> socks v = socks s \<and> serverMode v = ON"
  using assms by (rule startup_run)

definition ex_start :: srv where
  "ex_start = (ex_quiet FIFO [])\<lparr>mem := ex_mem\<lparr>heap := Map.empty, memory := None\<rparr>,
     qs := ex_qs\<lparr>lists := Map.empty, lfresh := 0\<rparr>, jobs := Map.empty,
     wk := \<lparr>workerCounter = 0, workerCounterLock = False, waitOnworkers = 0, wlibc = ex_libc\<rparr>, threads := []\<rparr>"

lemma ex_fresh: "fresh_process ex_start"
proof -
  have "queues (ex_qs\<lparr>lists := Map.empty, lfresh := 0\<rparr>) Map.empty" by (simp add: queues_def boxes_def ex_qs_def)
  moreover have "workers_wf (wk ex_start)" by (simp add: ex_start_def workers_wf_def)
  moreover have "mlibc (mem ex_start) = ex_libc" "logst (mem ex_start) = ex_log" by (simp_all add: ex_start_def ex_mem_def)
  moreover have "serverMode ex_start = ON" by (simp add: ex_start_def ex_srv_def)
  ultimately show ?thesis by (simp add: fresh_process_def ex_start_def)
qed

theorem startup_ready_witness:
  "\<exists>t u v wl. main_config (\<lambda>_. Some (config_text ''log'' ''/tmp/sok'' 4 10000 128 LRU, False)) (\<lambda>_. True) [''server'', ''cfg''] ex_start = (Inr (), t) \<and>
    main_socket 77 True True True t = (Inr None, u) \<and> v = begin_workers 4 u \<and> srv_ok v [] [wl \<mapsto> []] \<and>
    MaxFiles (mem v) = 10000 \<and> unat (MaxMemory (mem v)) = 128000000 \<and> policy (conf v) = LRU \<and> workerCounter (wk v) = 4"
  using startup_ready [OF ex_fresh disjI2 [OF refl], where lp = "''log''" and sp = "''/tmp/sok''" and mb = 128 and mf = 10000 and nw = 4
      and pol = LRU and fopen_r = "\<lambda>_. Some (config_text ''log'' ''/tmp/sok'' 4 10000 128 LRU, False)" and fopen_w = "\<lambda>_. True"
      and prog = "''server''" and path = "''cfg''" and pid = 77]
  by (simp add: path_ok_def) blast

text \<open>
  C16. A graceful shutdown of an idle server comes to its end. When the work list is empty and
  all the configured workers have started and none has ended, the flood puts one job per worker
  on the list; their next rounds, run one after the other, take one each and end each worker,
  and after the last of them \<open>main\<close> no longer waits; no such job is left allocated. Requests
  still pending or in service, and workers that ended before, are not in its scope.
\<close>

theorem graceful_shutdown_ends:
  assumes "srv_ok s fs F" and "workList s = Some wl" and "F wl = Some []" and "serverMode s = GRACEFUL"
    and "workerCounter (wk s) = Nslaves (conf s)"
  shows "\<exists>t u. main_flood s = (Inr (), t) \<and>
    rounds (unat (Nslaves (conf s))) t = (Inr (replicate (unat (Nslaves (conf s))) Exit_thread), u) \<and>
    workerCounter (wk u) = 0 \<and> wait_on_worker_number (wk u) = (Inr (), wk u) \<and> stores (mem u) fs \<and> jobs u = jobs s"
proof -
  let ?n = "unat (Nslaves (conf s))"
  have st: "stores (mem s) fs" and q: "queues (qs s) F" and w: "workers_wf (wk s)" and jf: "\<forall>j \<ge> jfresh s. jobs s j = None"
    using assms(1) by (simp_all add: srv_ok_def)
  have n: "?n < 2 ^ 32" using unsigned_less [of "Nslaves (conf s)", where ?'a = nat] by simp
  have cap: "length ([] :: addr list) + ?n \<le> list_cap" using n by simp
  obtain s1 where s1: "slog (line ''Arrived SIGHUP!'') [] s = (Inr (), s1)" "same_lists s s1" "wk s1 = wk s" "stores (mem s1) fs"
    using slog_run [OF st] st by (simp add: same_lists_def)
  have e1: "qs s1 = qs s" "jobs s1 = jobs s" "jfresh s1 = jfresh s" "workList s1 = Some wl" "conf s1 = conf s" "serverMode s1 = GRACEFUL"
    using s1(2) assms(2,4) by (simp_all add: same_lists_def)
  have qs1: "queues (qs s1) F" using q e1 by simp
  from flood_list_run [OF qs1 assms(3) cap] e1 obtain q1 where
    f: "flood_list (Some wl) ?n s1 = (Inr (), s1\<lparr>qs := q1, jobs := flooded_jobs s1 wl ?n, jfresh := jfresh s1 + ?n\<rparr>)"
      "queues q1 (F(wl \<mapsto> [jfresh s..<jfresh s + ?n]))" by auto
  from wake_up_run [OF f(2) fun_upd_same] obtain q2 where
    k: "wake_up_all_readers (Some wl) q1 = (Inr (), q2)" "queues q2 (F(wl \<mapsto> [jfresh s..<jfresh s + ?n]))" by blast
  let ?t = "s1\<lparr>jobs := flooded_jobs s1 wl ?n, jfresh := jfresh s1 + ?n, qs := q2\<rparr>"
  have "main_flood s = (Inr (), ?t)"
    using s1(1) f(1) k(1) e1 by (simp add: main_flood_def sq_def bnd_run zoom_run)
  moreover have "\<forall>j \<in> set [jfresh s..<jfresh s + ?n]. jobs ?t j = Some (end_job wl)" using e1 by (simp add: flooded_jobs_def)
  then have "\<exists>u. rounds (length [jfresh s..<jfresh s + ?n]) ?t = (Inr (replicate (length [jfresh s..<jfresh s + ?n]) Exit_thread), u) \<and>
      queues (qs u) (F(wl \<mapsto> [jfresh s..<jfresh s + ?n], wl \<mapsto> [])) \<and> workers_wf (wk u) \<and> workerCounter (wk u) = 0 \<and> mem u = mem ?t \<and>
      (\<forall>j. jobs u j = (if j \<in> set [jfresh s..<jfresh s + ?n] then None else jobs ?t j))"
    by (intro end_rounds [where wl = wl]) (use k(2) e1 w s1(3) n assms(5) in simp_all)
  then obtain u where
    u: "rounds ?n ?t = (Inr (replicate ?n Exit_thread), u)" "workers_wf (wk u)" "workerCounter (wk u) = 0" "mem u = mem s1"
      "\<forall>j. jobs u j = (if j \<in> set [jfresh s..<jfresh s + ?n] then None else flooded_jobs s1 wl ?n j)"
    by auto
  moreover have "jobs u = jobs s" using u(5) jf e1 by (auto simp: fun_eq_iff flooded_jobs_def)
  moreover have "wait_on_worker_number (wk u) = (Inr (), wk u)" using wait_returns [OF u(2)] u(3) by simp
  ultimately show ?thesis using s1(4) by auto
qed

theorem graceful_shutdown_ends_witness:
  "\<exists>t u. main_flood ((ex_quiet LRU [])\<lparr>serverMode := GRACEFUL\<rparr>) = (Inr (), t) \<and>
    rounds 2 t = (Inr [Exit_thread, Exit_thread], u) \<and> wait_on_worker_number (wk u) = (Inr (), wk u)"
proof -
  let ?s = "(ex_quiet LRU [])\<lparr>serverMode := GRACEFUL\<rparr>"
  have ok: "srv_ok ?s ex_files ex_F"
    using ex_srv_ok [of LRU "ex_job 0 0 []" "[]"] by (simp add: srv_ok_def)
  have n: "Nslaves (conf ?s) = 2" "workerCounter (wk ?s) = 2" by (simp_all add: ex_srv_def ex_conf_def)
  have r: "unat (Nslaves (conf ?s)) = 2" unfolding n by simp
  have two: "replicate 2 Exit_thread = [Exit_thread, Exit_thread]" by (simp add: numeral_2_eq_2)
  have "workerCounter (wk ?s) = Nslaves (conf ?s)" by (simp only: n)
  with graceful_shutdown_ends [OF ok, of 0, unfolded r two] show ?thesis by auto
qed

text \<open>
  C25. When \<open>main\<close> has left its loop it prints the names of the cached files in list order
  and frees all of them, the log and the work list: of the files allocated before, exactly
  those of the cache are gone, and the counters are 0.
\<close>

theorem cleanup_frees_files:
  assumes "mem_wf (mem s) as" and "workList s = Some wl"
  shows "\<exists>t. main_finish pid s = (Inr (), t) \<and> mem_wf (mem t) [] \<and> nCurrentFile (mem t) = 0 \<and> nCurrentMemoryUsed (mem t) = 0 \<and>
    (\<forall>a. heap (mem t) a = None \<longleftrightarrow> heap (mem s) a = None \<or> a \<in> set as) \<and> \<not> logFile (logst (mem t)) \<and>
    lists (qs t) wl = None \<and> workList t = None"
proof -
  let ?m1 = "printed (mem s) ([(line ''%s'', [LS ''===========FILE_PRINT============''])] @
    map (name_line (mem s)) as @ [(line ''%s'', [LS ''==============================='' ])])"
  obtain out where m2: "print_server_general pid ?m1 = (Inr (), printed ?m1 out)"
    by (simp add: print_server_general_def bnd_run)
  have "mem_wf (printed ?m1 out) as" using assms(1) by simp
  from clean_cache_run [OF this] obtain m3 where
    m3: "clean_cache (printed ?m1 out) = (Inr (), m3)" "mem_wf m3 []" "logst m3 = logst (mem s)"
      "\<forall>a. heap m3 a = None \<longleftrightarrow> heap (mem s) a = None \<or> a \<in> set as" by auto
  have "fclose_ok (llibc (logst m3))" using mem_wf_unlocked [OF m3(2)] by (simp add: unlocked_def log_wf_def)
  then have cl: "closeLog (logst m3) = (Inr 0, (logst m3)\<lparr>logFile := False\<rparr>)" by (simp add: closeLog_def bnd_run sq_def)
  let ?t = "s\<lparr>mem := m3\<lparr>logst := (logst m3)\<lparr>logFile := False\<rparr>\<rparr>, qs := (qs s)\<lparr>lists := (lists (qs s))(wl := None)\<rparr>, workList := None\<rparr>"
  have "main_finish pid s = (Inr (), ?t)"
    using printFiles_run [OF assms(1)] m2 m3(1) cl assms(2)
    by (simp add: main_finish_def sq_def bnd_run zoom_run free_list_def)
  moreover have "mem_wf (mem ?t) []" using m3(2) by (simp add: mem_wf_def unlocked_def names_def bytes_used_def log_wf_def)
  ultimately show ?thesis using m3(2,4) mem_wfD(6,7) [OF m3(2)] by (intro exI [of _ ?t]) (simp add: bytes_used_def)
qed

theorem cleanup_frees_files_witness:
  "\<exists>t. main_finish 7 (ex_quiet LRU []) = (Inr (), t) \<and> nCurrentMemoryUsed (mem t) = 0 \<and> heap (mem t) 0 = None \<and> heap (mem t) 1 = None"
proof -
  have "mem_wf (mem (ex_quiet LRU [])) [1, 0]" unfolding ex_srv_sel by (rule ex_mem_wf)
  from cleanup_frees_files [OF this, of 0 7] show ?thesis by auto
qed

section \<open>The whole server\<close>





end
