(* ===== verification/Error_Props.thy ===== *)
theory Error_Props
  imports Threads Examples
begin

text \<open>
  What a request can do to the server beyond its own answer: the operations whose case runs on
  or leaves the switch, clients that go away, two clients that connect at once; and the order
  in which the lists deliver.
\<close>

section \<open>Answered twice\<close>

lemma case_close_run:
  assumes ok: "srv_ok s fs F" and job: "job_ok s F j w" and has: "has_file (jfilename w) fs" and b: "content_bytes fs < 2 ^ 31"
    and l: "client_queue w = Some l" "F l = Some xs" "length xs + 1 < list_cap"
  shows "\<exists>t. case_close (Some j) w s = (Inr Next_job, t) \<and> srv_ok t (touch (policy (conf s)) (jfilename w)
        (edit (jfilename w) (\<lambda>c. c\<lparr>copen := False\<rparr>) (touch (policy (conf s)) (jfilename w) fs))) (F(l \<mapsto> xs @ [j, j])) \<and>
    jobs t = (jobs s)(j \<mapsto> w\<lparr>jerr := EACCES, status_request := NOT_OK\<rparr>) \<and>
    socks t = (socks s)(client_fd w := sends (socks s (client_fd w)) (inp (socks s (client_fd w)))
      [num (widen CONTINUE), num (widen NO_CONTINUE)])"
proof -
  let ?nm = "jfilename w" and ?pol = "policy (conf s)"
  define gs where "gs = edit ?nm (\<lambda>c. c\<lparr>copen := False\<rparr>) (touch ?pol ?nm fs)"
  have st: "stores (mem s) fs" and q: "queues (qs s) F" using ok by (simp_all add: srv_ok_def)
  from store_find_present [OF st has, of ?pol] obtain a m1 where
    m1: "find_file (Some ?nm) ?pol (mem s) = (Inr (Some a), m1)" "stores m1 (touch ?pol ?nm fs)" "file_at m1 a ?nm" "keeps (mem s) m1"
    by blast
  from store_close [OF m1(2,3)] obtain m2 where
    m2: "set_file_close (Some a) m1 = (Inr (), m2)" "stores m2 gs" "file_at m2 a ?nm" "keeps m1 m2" by (auto simp: gs_def)
  obtain f where f: "heap m2 a = Some f" using m2(3) by (rule file_at_file)
  define m3 where "m3 = logged (line ''File %s has been closed'') [LS (filename f)] m2"
  have m3: "stores m3 gs" "keeps (mem s) m3" using m2(2) keeps_trans [OF m1(4) m2(4)] by (simp_all add: m3_def)
  from mb.put [OF q l(2), of j] l(3) obtain q1 where
    q1: "send_obj l j (qs s) = (Inr 0, q1)" "queues q1 (F(l \<mapsto> xs @ [j]))" by auto
  let ?s2 = "s\<lparr>mem := m3\<rparr>" and ?w = "w\<lparr>jerr := 0, status_request := OK\<rparr>"
  let ?s3 = "?s2\<lparr>jobs := (jobs s)(j \<mapsto> ?w), qs := q1\<rparr>"
  have sr: "set_response_for_client_and_push (Some j) 0 OK ?s2 = (Inr (), ?s3)"
    using job l(1) q1(1) queues_small [OF q] set_response_run [of ?s2 j w l q1 0 OK] by (simp add: job_ok_def)
  have run: "case_close (Some j) w s = case_read (Some j) w ?s3"
    using m1(1) m2(1) f sr m2(2)
    by (simp add: case_close_def case_simps in_mem_run m3_def)
  have same: "client_fd ?w = client_fd w" "jfilename ?w = jfilename w" by simp_all
  have rd: "case_read (Some j) w = case_read (Some j) ?w" by (simp only: case_read_def same)
  have "j < jfresh s" using ok job by (auto simp: srv_ok_def job_ok_def not_less [symmetric])
  then have ok3: "srv_ok ?s3 gs (F(l \<mapsto> xs @ [j]))"
    using ok m3 q1(2) by (auto simp: srv_ok_def keeps_def)
  have job3: "job_ok ?s3 (F(l \<mapsto> xs @ [j])) j ?w" using job l by (simp add: job_ok_def)
  have b3: "content_bytes gs < 2 ^ 31" using b by (simp add: gs_def)
  obtain c where c: "lookup_file ?nm gs = Some c" "\<not> copen c"
  proof -
    obtain c where "lookup_file ?nm fs = Some c" using has by (auto simp: lookup_file_iff)
    with that show ?thesis using lookup_Some [of ?nm fs c] by (simp add: gs_def lookup_edit)
  qed
  have "spec_read ?pol ?nm gs = \<lparr>wire = [num (widen CONTINUE), num (widen NO_CONTINUE)], err = EACCES, status = NOT_OK,
      files = touch ?pol ?nm gs\<rparr>" using c by (simp add: spec_read_def)
  with case_read_run [OF ok3 job3 b3] obtain m4 q4 where
    r: "case_read (Some j) ?w ?s3 = (Inr Next_job, reply ?s3 j ?w EACCES NOT_OK m4 q4
      (sends (socks s (client_fd w)) (inp (socks s (client_fd w))) [num (widen CONTINUE), num (widen NO_CONTINUE)]))"
      "stores m4 (touch ?pol ?nm gs)" "keeps m3 m4" "queues q4 (delivered (F(l \<mapsto> xs @ [j])) j ?w)"
    by (auto simp: answers_def)
  have d: "delivered (F(l \<mapsto> xs @ [j])) j ?w = F(l \<mapsto> xs @ [j, j])" using l(1) by (simp add: delivered_def)
  show ?thesis
    unfolding run rd r(1) gs_def [symmetric]
    using ok3 r(2-4) d by (auto simp: reply_def srv_ok_def keeps_def)
qed

text \<open>
  C30. Closing a file answers twice: the case of \<open>CLOSE_FILE\<close> runs on into \<open>READ_FILE\<close>, so the
  client is sent two go-ahead numbers nobody asked for and the answer is that access is
  denied; the job stands on the client's list twice, and the response after the next reads
  the job that was freed.
\<close>

theorem close_answers_twice:
  assumes "srv_ok s fs F" and "job_ok s F j w" and "op w = CLOSE_FILE" and "has_file (jfilename w) fs" and "content_bytes fs < 2 ^ 31"
    and "client_queue w = Some l" and "F l = Some []"
  shows "\<exists>t u v. serve (Some j) s = (Inr Next_job, t) \<and>
    outp (socks t (client_fd w)) = outp (socks s (client_fd w)) @ [num (widen CONTINUE), num (widen NO_CONTINUE)] \<and>
    client_response (Some l) t = (Inr True, u) \<and>
    outp (socks u (client_fd w)) = outp (socks t (client_fd w)) @ response_segments NOT_OK EACCES \<and>
    client_response (Some l) u = (Inl Use_after_free, v)"
proof -
  from case_close_run [OF assms(1,2,4-7)] obtain t where
    t: "case_close (Some j) w s = (Inr Next_job, t)" "queues (qs t) (F(l \<mapsto> [j, j]))"
      "jobs t = (jobs s)(j \<mapsto> w\<lparr>jerr := EACCES, status_request := NOT_OK\<rparr>)"
      "socks t = (socks s)(client_fd w := sends (socks s (client_fd w)) (inp (socks s (client_fd w)))
        [num (widen CONTINUE), num (widen NO_CONTINUE)])" by (auto simp: srv_ok_def)
  let ?w = "w\<lparr>jerr := EACCES, status_request := NOT_OK\<rparr>"
  have w: "jobs t j = Some ?w" "wrs (socks t (client_fd ?w)) = []" using t(3,4) assms(2) by (simp_all add: job_ok_def)
  from client_response_run [OF t(2) fun_upd_same w] assms(3) obtain q where
    u: "client_response (Some l) t = (Inr True, t\<lparr>mem := cleared (mem t), qs := q, jobs := (jobs t)(j := None),
        socks := (socks t)(client_fd w := sends (socks t (client_fd w)) (inp (socks t (client_fd w))) (response_segments NOT_OK EACCES))\<rparr>)"
      "queues q (F(l \<mapsto> [j, j], l \<mapsto> [j]))" by auto
  let ?u = "t\<lparr>mem := cleared (mem t), qs := q, jobs := (jobs t)(j := None),
        socks := (socks t)(client_fd w := sends (socks t (client_fd w)) (inp (socks t (client_fd w))) (response_segments NOT_OK EACCES))\<rparr>"
  from mb.get [OF u(2) fun_upd_same] obtain q' where "take_obj l q = (Inr j, q')" by blast
  from take_obj_parts [OF this] obtain a n q1 where
    p: "pop_element_from_tail (Some l) q = (Inr (Some a), q1)" "nodes q1 a = Some n" "obj n = Some j" by blast
  have "client_response (Some l) ?u = (Inl Use_after_free, ?u\<lparr>qs := q1\<rparr>)"
    using p by (simp add: client_response_def case_simps zoom_run jderef_def)
  moreover have "serve (Some j) s = (Inr Next_job, t)" using serve_is(2) [OF job_okD [OF assms(2)] assms(3)] t(1) by simp
  ultimately show ?thesis using u(1) t(4) by (intro exI conjI) (assumption | simp)+
qed

theorem close_answers_twice_witness:
  "\<exists>t u v. serve (Some 0) (ex_srv LRU (ex_job CLOSE_FILE 0 ''/new'') []) = (Inr Next_job, t) \<and>
    client_response (Some 1) t = (Inr True, u) \<and> client_response (Some 1) u = (Inl Use_after_free, v)"
proof -
  have "job_ok (ex_srv LRU (ex_job CLOSE_FILE 0 ''/new'') []) ex_F 0 (ex_job CLOSE_FILE 0 ''/new'')"
    by (rule ex_job_ok) (simp_all add: nul_free_def)
  from close_answers_twice [OF ex_srv_ok this, of 1] show ?thesis by auto
qed

section \<open>Not answered at all\<close>

text \<open>
  C36. An operation code the switch does not know ends the worker that took the job: there is
  one worker less, the job is neither answered nor freed, and the client's thread waits for
  an answer that will not come.
\<close>

theorem unknown_operation_ends_worker:
  assumes "queues (qs s) F" and "jobs s j = Some w" and "\<not> answering (op w)" and "op w \<noteq> CLOSE_FILE" and "op w \<noteq> END_WORKER"
    and "workers_wf (wk s)" and "workerCounter (wk s) \<noteq> 0" and "client_queue w = Some l" and "F l = Some []"
  shows "\<exists>t. serve (Some j) s = (Inr Exit_thread, t) \<and> workerCounter (wk t) = workerCounter (wk s) - 1 \<and>
    jobs t j = Some w \<and> client_response (Some l) t = (Inl Blocked, t)"
proof -
  have "serve (Some j) s = sq (in_wk worker_sub) (ret Exit_thread) s"
    using assms(2-5) by (simp add: serve_def jderef_def bnd_run answering_def)
  with worker_sub_run [OF assms(6,7)] obtain x where
    "serve (Some j) s = (Inr Exit_thread, s\<lparr>wk := x\<rparr>)" "workerCounter x = workerCounter (wk s) - 1"
    by (auto simp: sq_def bnd_run zoom_run)
  moreover have "client_response (Some l) (s\<lparr>wk := x\<rparr>) = (Inl Blocked, s\<lparr>wk := x\<rparr>)"
    using client_response_blocked [of "s\<lparr>wk := x\<rparr>" F l] assms(1,9) by simp
  ultimately show ?thesis using assms(2) by simp
qed

theorem unknown_operation_ends_worker_witness:
  "\<exists>t. serve (Some 0) (ex_srv LRU (ex_job 0x55 0 ''/new'') []) = (Inr Exit_thread, t) \<and> client_response (Some 1) t = (Inl Blocked, t)"
proof -
  let ?s = "ex_srv LRU (ex_job 0x55 0 ''/new'') []"
  have "workers_wf (wk ?s)" "workerCounter (wk ?s) \<noteq> 0" by (simp_all add: ex_srv_def workers_wf_def)
  from unknown_operation_ends_worker [of ?s ex_F 0 "ex_job 0x55 0 ''/new''" 1, OF _ _ _ _ _ this] show ?thesis
    by (auto simp: answering_def)
qed

section \<open>The end of the server\<close>

text \<open>
  C37. A client that is gone when its request to read a file is served takes the server with
  it: the first write of the case READ_FILE to its socket fails and the process exits, whatever
  the file. (A response that cannot be sent is only logged.)
\<close>

theorem failed_send_ends_server:
  assumes "srv_ok s fs F" and "jobs s j = Some w" and "nul_free (jfilename w)"
    and "op w = READ_FILE" and "wrs (socks s (client_fd w)) = None # rest"
  shows "\<exists>t. serve (Some j) s = (Inl Exit_failure, t)"
proof -
  have st: "stores (mem s) fs" using assms(1) by (simp add: srv_ok_def)
  have send: "\<exists>t. bnd (s_send_number (client_fd w) n) error_handling_minus u = (Inl Exit_failure, t)"
    if "socks u = socks s" for n u
    using assms(5) that by (simp add: s_send_number_def error_handling_minus_def case_simps zoom_run on_sock_def send_number_def sys_write_def)
  have "\<exists>t. case_read (Some j) w s = (Inl Exit_failure, t)"
  proof (cases "has_file (jfilename w) fs")
    case True
    from store_find_present [OF st True, of "policy (conf s)"] obtain a m1 where
      m1: "find_file (Some (jfilename w)) (policy (conf s)) (mem s) = (Inr (Some a), m1)" "stores m1 (touch (policy (conf s)) (jfilename w) fs)"
      by blast
    let ?u = "s\<lparr>mem := logged (line ''Request to read file from client %s'') [LS (jfilename w)] m1\<rparr>"
    from send [of ?u "widen CONTINUE"] obtain t where
      "bnd (s_send_number (client_fd w) (widen CONTINUE)) error_handling_minus ?u = (Inl Exit_failure, t)" by auto
    then show ?thesis using m1 by (simp add: case_read_def case_simps in_mem_run del: split_paired_Ex)
  next
    case False
    from store_find_absent [OF st False] assms(3) obtain m1 where
      m1: "find_file (Some (jfilename w)) (policy (conf s)) (mem s) = (Inr None, m1)" by blast
    from send [of "s\<lparr>mem := m1\<rparr>" "widen NO_CONTINUE"] obtain t where
      "bnd (s_send_number (client_fd w) (widen NO_CONTINUE)) error_handling_minus (s\<lparr>mem := m1\<rparr>) = (Inl Exit_failure, t)" by auto
    then show ?thesis using m1 by (simp add: case_read_def case_simps in_mem_run del: split_paired_Ex)
  qed
  then show ?thesis using serve_is(3) [OF assms(2,4)] by simp
qed

definition ex_gone :: srv where
  "ex_gone = (ex_srv LRU (ex_job READ_FILE 0 ''/new'') [])\<lparr>socks := (\<lambda>_. (ex_sock [])\<lparr>wrs := [None]\<rparr>)\<rparr>"

theorem failed_send_ends_server_witness:
  "\<exists>t. serve (Some 0) ex_gone = (Inl Exit_failure, t)"
proof -
  have "srv_ok ex_gone ex_files ex_F"
    using ex_srv_ok [of LRU "ex_job READ_FILE 0 ''/new''" "[]"] by (simp add: srv_ok_def ex_gone_def)
  from failed_send_ends_server [OF this, of 0 "ex_job READ_FILE 0 ''/new''" "[]"] show ?thesis
    by (simp add: ex_gone_def nul_free_def)
qed

text \<open>
  C38. A log line that cannot be written keeps the lock of the log: the call returns as if
  nothing had happened, and from then on every request to open or create a file, of whatever
  client, stops its worker at its first line.
\<close>

theorem log_failure_blocks:
  assumes "\<not> lockLogFile (logst (mem s))" and "mutex_ok (llibc (logst (mem s)))" and "\<not> fprintf_ok (llibc (logst (mem s)))"
  shows "\<exists>t. slog f as s = (Inr (), t) \<and> jobs t = jobs s \<and>
    (\<forall>j w. jobs s j = Some w \<and> op w = OPEN_FILE \<longrightarrow> serve (Some j) t = (Inl Blocked, t))"
proof -
  let ?t = "s\<lparr>mem := (mem s)\<lparr>logst := (logst (mem s))\<lparr>lockLogFile := True\<rparr>\<rparr>\<rparr>"
  have t: "slog f as s = (Inr (), ?t)" using log_msg_fails [OF assms] by (simp add: zoom_run)
  have b: "slog g bs ?t = (Inl Blocked, ?t)" for g bs
    using log_msg_held [of "(logst (mem s))\<lparr>lockLogFile := True\<rparr>"] assms(2) by (simp add: zoom_run)
  have sb: "sq (slog g bs) k ?t = (Inl Blocked, ?t)" for g bs and k :: "wctl scmd" by (rule sq_Inl) (rule b)
  have "case_open (Some j) w ?t = (Inl Blocked, ?t)" for j w
    unfolding case_open_def case_open_create_def by (simp only: sb split: if_split) simp
  then have "serve (Some j) ?t = (Inl Blocked, ?t)" if "jobs s j = Some w" "op w = OPEN_FILE" for j w
    using serve_is(1) [of ?t j w] that by simp
  with t show ?thesis by (intro exI [of _ ?t]) simp
qed

definition ex_full_disk :: srv where
  "ex_full_disk = (ex_srv LRU (ex_job OPEN_FILE 0 ''/new'') [])
     \<lparr>mem := ex_mem\<lparr>logst := ex_log\<lparr>llibc := ex_libc\<lparr>fprintf_ok := False\<rparr>\<rparr>\<rparr>\<rparr>"

theorem log_failure_blocks_witness:
  "\<exists>t. slog ''x'' [] ex_full_disk = (Inr (), t) \<and> serve (Some 0) t = (Inl Blocked, t)"
proof -
  have "\<not> lockLogFile (logst (mem ex_full_disk))" "mutex_ok (llibc (logst (mem ex_full_disk)))"
    "\<not> fprintf_ok (llibc (logst (mem ex_full_disk)))" "jobs ex_full_disk 0 = Some (ex_job OPEN_FILE 0 ''/new'')"
    by (simp_all add: ex_full_disk_def ex_log_def ex_libc_def)
  with log_failure_blocks [of ex_full_disk "''x''" "[]"] show ?thesis by force
qed

section \<open>Two clients at once\<close>

text \<open>
  C40. Two clients that connect before the first one's thread has started: both threads are
  handed the address of one variable, and both read the second client's descriptor and list,
  so the first client is never served and two threads share one socket.
\<close>

theorem accept_race:
  assumes "srv_ok s fs F"
  shows "\<exists>t u l1 l2. main_accept (Some a) s = (Inr (), t) \<and> args_slot t = (a, Some l1) \<and>
    main_accept (Some b) t = (Inr (), u) \<and> threads u = threads s @ [Client_thread, Client_thread] \<and> l1 \<noteq> l2 \<and>
    client_start u = (Inr (b, Some l2), u)"
proof -
  from main_accept_run [OF assms, of a] obtain t l1 where
    t: "main_accept (Some a) s = (Inr (), t)" "srv_ok t fs (F(l1 \<mapsto> []))" "args_slot t = (a, Some l1)"
      "threads t = threads s @ [Client_thread]" by blast
  from main_accept_run [OF t(2), of b] obtain u l2 where
    u: "main_accept (Some b) t = (Inr (), u)" "l2 \<notin> dom (F(l1 \<mapsto> []))" "args_slot u = (b, Some l2)"
      "threads u = threads t @ [Client_thread]" by blast
  have "l1 \<noteq> l2" using u(2) by auto
  then show ?thesis using t u by (intro exI [of _ t] exI [of _ u] exI [of _ l1] exI [of _ l2]) (simp add: client_start_def)
qed

theorem accept_race_witness:
  "\<exists>t u l. main_accept (Some 5) (ex_quiet LRU []) = (Inr (), t) \<and> main_accept (Some 6) t = (Inr (), u) \<and>
    client_start u = (Inr (6, Some l), u)"
  using accept_race [OF ex_srv_ok, of 5 LRU "ex_job 0 0 []" "[]" 6] by auto

section \<open>The lists\<close>

text \<open>
  C9. The lists are first in, first out: for any schedule of pushes and pops on any of the
  lists, what was taken from a list followed by what is still on it is what was on it before
  followed by what was pushed, in that order, and no list disturbs another.
\<close>

theorem lists_are_fifo:
  assumes "queues q F" and "\<forall>p \<in> set ops. qop_list p \<in> dom F"
    and "\<forall>l xs. F l = Some xs \<longrightarrow> length xs + length ops \<le> list_cap"
  shows "\<exists>got q' F'. run_ops send_obj take_obj ops q = (got, q') \<and> queues q' F' \<and> dom F' = dom F \<and>
    (\<forall>l \<in> dom F. received l got @ the (F' l) = the (F l) @ sent l ops)"
  using assms by (rule mb.fifo_order)

theorem lists_are_fifo_witness:
  "\<exists>got q' F'. run_ops send_obj take_obj [Put 0 7, Put 1 8, Get 0, Put 0 9, Get 1] ex_qs = (got, q') \<and>
    received 0 got @ the (F' 0) = [7, 9] \<and> received 1 got @ the (F' (1::addr)) = [8]"
proof -
  have "\<exists>got q' F'. run_ops send_obj take_obj [Put 0 7, Put 1 8, Get 0, Put 0 9, Get 1] ex_qs = (got, q') \<and> queues q' F' \<and>
      dom F' = dom ex_F \<and> (\<forall>l \<in> dom ex_F. received l got @ the (F' l) = the (ex_F l) @ sent l [Put 0 7, Put 1 8, Get 0, Put 0 9, Get 1])"
    by (rule lists_are_fifo [OF ex_queues]) (auto simp: ex_F_def)
  moreover have "(0::addr) \<in> dom ex_F" "(1::addr) \<in> dom ex_F" by (auto simp: ex_F_def)
  ultimately show ?thesis by (fastforce simp: ex_F_def)
qed

end
