(* ===== verification/Client_Props.thy ===== *)
theory Client_Props
  imports Client Config_Props
begin

text \<open>
  Properties of the client's command line, of its waiting for the server and of the time it
  waits between two requests.
\<close>

section \<open>Names separated by commas\<close>

fun join_names :: "string list \<Rightarrow> string" where
  "join_names [] = []"
| "join_names [n] = n"
| "join_names (n # m # ns) = n @ comma # join_names (m # ns)"

definition arg_name :: "string \<Rightarrow> bool" where
  "arg_name n \<longleftrightarrow> n \<noteq> [] \<and> comma \<notin> set n"

lemma strtok_name:
  assumes "arg_name n"
  shows "strtok (n @ comma # r) = Some (n, r)" and "strtok n = Some (n, [])"
proof -
  have ne: "n \<noteq> []" and all: "\<forall>c \<in> set n. c \<noteq> comma" using assms by (auto simp: arg_name_def)
  then have d: "dropWhile (\<lambda>c. c = comma) (n @ r') = n @ r'" for r' by (cases n) simp_all
  have t: "takeWhile (\<lambda>c. c \<noteq> comma) (n @ comma # r) = n" "dropWhile (\<lambda>c. c \<noteq> comma) (n @ comma # r) = comma # r"
    "takeWhile (\<lambda>c. c \<noteq> comma) n = n" "dropWhile (\<lambda>c. c \<noteq> comma) n = []"
    using all by simp_all
  show "strtok (n @ comma # r) = Some (n, r)" by (simp add: strtok_def Let_def d t)
  show "strtok n = Some (n, [])" using ne d [of "[]"] by (simp add: strtok_def Let_def t)
qed

lemma strtok_all_join: "\<forall>n \<in> set ns. arg_name n \<Longrightarrow> strtok_all (join_names ns) = ns"
proof (induction ns rule: join_names.induct)
  case 1
  then show ?case by (simp add: strtok_all.simps [of "[]"] strtok_def)
next
  case (2 n)
  then show ?case using strtok_name(2) [of n]
    by (simp add: strtok_all.simps [of n] strtok_all.simps [of "[]"]) (simp add: strtok_def)
next
  case (3 n m ns)
  then have "strtok (join_names (n # m # ns)) = Some (n, join_names (m # ns))" using strtok_name(1) by simp
  with 3 show ?case by (simp add: strtok_all.simps [of "join_names (n # m # ns)"] del: join_names.simps)
qed

section \<open>Options\<close>

text \<open>The options of the command line: what \<open>getopt\<close> returns for each, and the action it stands for.\<close>

datatype option_spec = Names char "string list" | Single char string | Number char nat | Print | Help

fun option_ok :: "option_spec \<Rightarrow> bool" where
  "option_ok (Names c ns) \<longleftrightarrow> c \<in> {CHR ''W'', CHR ''r'', CHR ''c''} \<and> ns \<noteq> [] \<and> length ns < MAXREADABLEFILE - 1 \<and>
     (\<forall>n \<in> set ns. arg_name n)"
| "option_ok (Single c p) \<longleftrightarrow> c \<in> {CHR ''f'', CHR ''d''}"
| "option_ok (Number c n) \<longleftrightarrow> c \<in> {CHR ''R'', CHR ''t''} \<and> n < 2 ^ 31"
| "option_ok _ \<longleftrightarrow> True"

fun option_arg :: "option_spec \<Rightarrow> char \<times> string option" where
  "option_arg (Names c ns) = (c, Some (join_names ns))"
| "option_arg (Single c p) = (c, Some p)"
| "option_arg (Number c n) = (c, Some (dec n))"
| "option_arg Print = (CHR ''p'', None)"
| "option_arg Help = (CHR ''h'', None)"

text \<open>
  The names go on with what the memory of their copies held; \<open>-h\<close> is no action, it prints.
\<close>

fun option_action :: "(string \<Rightarrow> string) \<Rightarrow> option_spec \<Rightarrow> action list" where
  "option_action after (Names c ns) = [\<lparr>aop = c, singleArg = None, aargs = Some (map (\<lambda>n. n @ cstr (after n)) ns), an = 0\<rparr>]"
| "option_action after (Single c p) = [\<lparr>aop = c, singleArg = Some p, aargs = None, an = 0\<rparr>]"
| "option_action after (Number c n) = [\<lparr>aop = c, singleArg = None, aargs = None, an = of_nat n\<rparr>]"
| "option_action after Print = [\<lparr>aop = CHR ''p'', singleArg = None, aargs = None, an = 0\<rparr>]"
| "option_action after Help = []"

definition option_prints :: "option_spec \<Rightarrow> printed" where
  "option_prints p = (case p of Help \<Rightarrow> help_text | _ \<Rightarrow> [])"

lemma add_to_tail_append [simp]: "add_to_tail as a = as @ [a]"
  by (induction as) simp_all

lemma atoi_dec:
  assumes "n < 2 ^ 31"
  shows "atoi (dec n) = Inr (of_nat n)"
proof -
  obtain c cs where c: "dec n = c # cs" using dec_digits [of n] by (cases "dec n") auto
  have d: "\<forall>c \<in> set (dec n). isdigit c" using dec_digits by simp
  then have "isdigit c" using c by simp
  then have sk: "skip_space (dec n) = dec n" and sg: "c \<noteq> CHR 0x2B" "c \<noteq> CHR 0x2D"
    using c not_digit(2,3) by (simp_all add: skip_space_def)
  have tw: "takeWhile isdigit (dec n) = dec n" using d by simp
  have sgn: "hd (dec n) \<noteq> CHR 0x2D" "hd (dec n) \<noteq> CHR 0x2B" using c sg by simp_all
  have "digits_val (dec n) = n" using dec_digits by simp
  with assms show ?thesis by (simp add: atoi_def Let_def sk sgn tw)
qed

lemma parse_names:
  assumes "option_ok (Names c ns)"
  shows "add_names after head c (join_names ns) = Inr (head @ option_action after (Names c ns))"
proof -
  have "strtok_all (join_names ns) = ns" using assms by (intro strtok_all_join) simp
  then have "name_list after (join_names ns) = Inr (map (copied after) ns)"
    using assms by (cases ns) (simp_all add: name_list_def)
  then show ?thesis using assms by (simp add: add_names_def add_action_def initAction_def copied_def)
qed

lemma parse_one:
  assumes "option_ok p"
  shows "parse_option after head buf (fst (option_arg p)) (snd (option_arg p)) =
    Inr (head @ option_action after p, buf, option_prints p)"
proof (cases p)
  case (Names c ns)
  have "c = CHR ''W'' \<or> c = CHR ''r'' \<or> c = CHR ''c''" using assms Names by simp
  then show ?thesis using parse_names [of c ns after head] assms Names
    by (elim disjE) (simp_all add: parse_option_def option_prints_def Let_def)
next
  case (Single c str)
  then have "c = CHR ''f'' \<or> c = CHR ''d''" using assms by simp
  then show ?thesis using Single
    by (elim disjE) (simp_all add: parse_option_def option_prints_def Let_def add_action_def initAction_def)
next
  case (Number c n)
  then have "c = CHR ''R'' \<or> c = CHR ''t''" "n < 2 ^ 31" using assms by simp_all
  then show ?thesis using Number
    by (elim disjE)
      (simp_all add: parse_option_def option_prints_def Let_def add_number_def add_action_def initAction_def atoi_dec)
qed (simp_all add: parse_option_def option_prints_def Let_def add_action_def initAction_def)

text \<open>
  C27. The command line is read as it is written: for any list of options other than \<open>-w\<close>, with
  numbers that fit an \<open>int\<close>, \<open>parseArgs\<close> builds one action per option in the order of the
  options, with the argument or the number that was given or the names between the commas,
  and prints the help text for each \<open>-h\<close>, which is no action. Each name goes on with the
  bytes that the memory of its copy held, up to the first NUL: it is the name that was given
  only when the first of these is NUL, which the code does not see to.
\<close>

theorem parseArgs_in_order:
  assumes "\<forall>p \<in> set ps. option_ok p"
  shows "parseArgs after buf (map option_arg ps) = Inr (concat (map (option_action after) ps), concat (map option_prints ps))"
proof -
  have "parse_loop after (map option_arg ps) head buf out =
      Inr (head @ concat (map (option_action after) ps), out @ concat (map option_prints ps))" for head out
    using assms
  proof (induction ps arbitrary: head out)
    case (Cons p ps)
    obtain c a where p: "option_arg p = (c, a)" by fastforce
    have "parse_option after head buf c a = Inr (head @ option_action after p, buf, option_prints p)"
      using parse_one [of p after head buf] Cons.prems p by simp
    then show ?case using Cons p by simp
  qed simp
  then show ?thesis by (simp add: parseArgs_def)
qed

theorem parseArgs_in_order_witness:
  "parseArgs (\<lambda>n. if n = ''two'' then ''s'' @ [NUL] else [NUL]) []
     [(CHR ''f'', Some ''/tmp/sok''), (CHR ''W'', Some ''one,two''), (CHR ''R'', Some ''12''), (CHR ''p'', None)] =
    Inr ([\<lparr>aop = CHR ''f'', singleArg = Some ''/tmp/sok'', aargs = None, an = 0\<rparr>,
      \<lparr>aop = CHR ''W'', singleArg = None, aargs = Some [''one'', ''twos''], an = 0\<rparr>,
      \<lparr>aop = CHR ''R'', singleArg = None, aargs = None, an = 12\<rparr>,
      \<lparr>aop = CHR ''p'', singleArg = None, aargs = None, an = 0\<rparr>], [])"
proof -
  let ?after = "\<lambda>n. if n = ''two'' then ''s'' @ [NUL] else [NUL]"
  have "dec 12 = ''12''" "cstr (''s'' @ [NUL]) = ''s''" "cstr [NUL] = []" by code_simp+
  with parseArgs_in_order [of "[Single CHR ''f'' ''/tmp/sok'', Names CHR ''W'' [''one'', ''two''], Number CHR ''R'' 12, Print]" ?after "[]"]
  show ?thesis by (simp add: arg_name_def option_prints_def)
qed

section \<open>Waiting for the server\<close>

lemma connect_loop_result:
  assumes "\<forall>u \<in> set us. u < d" and "d \<le> t"
  shows "(case us @ t # vs of t0 # ts \<Rightarrow> connect_loop connects ts t0 d) =
    Inr (if True \<in> set (take (Suc (length us)) connects) then 0 else -1)"
  using assms
proof (induction us arbitrary: connects)
  case Nil
  then show ?case by (cases connects) auto
next
  case (Cons u us)
  have IH: "(case us @ t # vs of t0 # ts \<Rightarrow> connect_loop (tl connects) ts t0 d) =
      Inr (if True \<in> set (take (Suc (length us)) (tl connects)) then 0 else -1)" using Cons by simp
  show ?case
  proof (cases "connects \<noteq> [] \<and> hd connects")
    case True
    then show ?thesis by (cases connects) simp_all
  next
    case False
    then have step: "connect_loop connects (us @ t # vs) u d = (case us @ t # vs of t0 # ts \<Rightarrow> connect_loop (tl connects) ts t0 d)"
      using Cons.prems False by (subst connect_loop.simps) (auto simp del: connect_loop.simps split: list.split)
    have "True \<in> set (take (Suc (length us)) (tl connects)) \<longleftrightarrow> True \<in> set (take (Suc (length (u # us))) connects)"
      using False by (cases connects) auto
    then show ?thesis using step IH by (simp del: connect_loop.simps take_Suc_Cons)
  qed
qed

text \<open>
  C28. \<open>openConnection\<close> comes back: with a clock that reaches the deadline after some readings
  before it, it tries once per reading, returns 0 if one of these attempts succeeds and -1
  otherwise, and makes at least one attempt even when the deadline has passed.
\<close>

theorem openConnection_returns:
  assumes "length sockname < sun_path_size" and "\<forall>u \<in> set us. u < tv_sec abstime" and "tv_sec abstime \<le> t"
  shows "openConnection True connects (us @ t # vs) sockname abstime =
    Inr (if True \<in> set (take (Suc (length us)) connects) then 0 else -1)"
  using connect_loop_result [OF assms(2,3), where vs = vs and connects = connects] assms(1)
  by (cases "us @ t # vs") (simp_all add: openConnection_def)

theorem openConnection_returns_witness:
  "openConnection True [False, False, True] [100, 101, 105] ''/tmp/sok'' \<lparr>tv_sec = 105, tv_nsec = 0\<rparr> = Inr 0 \<and>
    openConnection True [] [100, 101, 105] ''/tmp/sok'' \<lparr>tv_sec = 105, tv_nsec = 0\<rparr> = Inr (-1)"
  using openConnection_returns [of "''/tmp/sok''" "[100, 101]" "\<lparr>tv_sec = 105, tv_nsec = 0\<rparr>" 105 "[False, False, True]" "[]"]
    openConnection_returns [of "''/tmp/sok''" "[100, 101]" "\<lparr>tv_sec = 105, tv_nsec = 0\<rparr>" 105 "[]" "[]"]
  by simp

section \<open>The time between two requests\<close>

text \<open>
  \<open>setFromMsec\<close> gives a valid time that is never too long, but exact for whole seconds
  only: the milliseconds beyond them are taken for microseconds.
\<close>

theorem setFromMsec_is_short:
  assumes "0 \<le> msec"
  shows "\<exists>ts. setFromMsec msec (Some r) = (0, None, Some ts) \<and> 0 \<le> tv_nsec ts \<and> tv_nsec ts < 1000000000 \<and>
    tv_sec ts * 1000000000 + tv_nsec ts \<le> msec * 1000000 \<and>
    (tv_sec ts * 1000000000 + tv_nsec ts = msec * 1000000 \<longleftrightarrow> msec mod 1000 = 0)"
proof -
  have e: "msec * 1000000 = msec div 1000 * 1000000000 + msec mod 1000 * 1000000"
    using div_mult_mod_eq [of msec 1000] by linarith
  have "0 \<le> msec mod 1000" "msec mod 1000 < 1000" by simp_all
  then show ?thesis using assms e by (simp add: setFromMsec_def)
qed

theorem setFromMsec_is_short_witness:
  "\<exists>ts. setFromMsec 200 (Some \<lparr>tv_sec = 0, tv_nsec = 0\<rparr>) = (0, None, Some ts) \<and>
    tv_sec ts * 1000000000 + tv_nsec ts < 200 * 1000000"
  using setFromMsec_is_short [of 200 "\<lparr>tv_sec = 0, tv_nsec = 0\<rparr>"] by fastforce

end
