(* ===== verification/Spec2Isabelle.thy ===== *)
theory Spec2Isabelle
  imports Schedule_Props Program_Props Server_Props Session_Props Dialogue_Props Cache_Props Wire_Props Thread_Props Lifecycle_Props Error_Props Client_Props
begin

text \<open>
  \<^bold>\<open>A file cache server and its client.\<close>

  The program is a server that keeps files in memory (\<^verbatim>\<open>src/server.c\<close> with \<^verbatim>\<open>memory.c\<close>,
  \<^verbatim>\<open>queue.c\<close>, \<^verbatim>\<open>server_utils.c\<close>, \<^verbatim>\<open>parser.c\<close>, \<^verbatim>\<open>log.c\<close>) and a client that sends and fetches
  files over a UNIX socket (\<^verbatim>\<open>src/client.c\<close>, \<^verbatim>\<open>clientutils.c\<close>); both share the wire protocol
  (\<^verbatim>\<open>prot.c\<close>) and wrappers of system calls (\<^verbatim>\<open>utils.c\<close>). In the server one thread per client
  turns requests into jobs and pushes them on a work list; worker threads take the jobs,
  serve them on the cache, talking to the client where the operation needs it, and push the
  job back on the client's own list; the client's thread sends the answer. \<open>main\<close> accepts
  clients and, on a signal, floods the work list with jobs that end the workers.

  \<^bold>\<open>How the code is modelled.\<close>
  A C function is a command: a function from the state before to an outcome and the state
  after (\<open>Prelude\<close>). The outcome is the returned value or a fault: the process ended by
  \<open>exit\<close>, undefined behaviour (null pointer, freed memory, out of bounds), a call that waits
  for something that does not come (\<open>Blocked\<close>: bytes on a socket, a lock, a signal), or a loop
  that never ends (\<open>Diverges\<close>); \<open>Int_overflow\<close> is the conversion of a decimal beyond \<open>int\<close> by
  \<open>atoi\<close>. Integers keep their width: \<open>int\<close> and \<open>unsigned int\<close> are 32 bit
  words, \<open>size_t\<close> and \<open>unsigned long\<close> 64 bit words, and conversions are written out
  (\<open>widen\<close>, \<open>narrow\<close>). Structures on the heap are records in a map from addresses, so that
  sharing and freed memory are visible. A socket has the events that will be read from it, the
  segments written to it and the outcomes of the next writes; a file on disk is its
  characters; a log line or a printed line is its format and its arguments.

  \<^bold>\<open>The parts.\<close>
  \<^item> \<open>Prelude\<close>: words, commands, C strings, linked lists. \<open>Utils\<close>: \<^verbatim>\<open>utils.c\<close>. \<open>Prot\<close>: \<^verbatim>\<open>prot.c\<close>
    and the codes of \<^verbatim>\<open>prot.h\<close>. \<open>Log\<close>: \<^verbatim>\<open>log.c\<close>. \<open>Parser\<close>: \<^verbatim>\<open>parser.c\<close>. \<open>Workers\<close>: \<^verbatim>\<open>server_utils.c\<close>.
  \<^item> \<open>Memory\<close>: \<^verbatim>\<open>memory.c\<close>, pointer by pointer and lock by lock. \<open>Memory_Inv\<close> has the
    well-formed states (the \<open>next\<close> links run through distinct live files with distinct names,
    the counters agree with them, no lock is held) and \<open>Memory_Ops\<close>, \<open>Memory_Update\<close>, \<open>Memory_Remove\<close>
    the effect of each operation on them; \<open>Cache\<close> and \<open>Cache_Alg\<close> the replacement algorithm
    against the function \<open>room\<close>. \<open>Store\<close>, \<open>Store_Ops\<close>: the cache as a list of named files, the
    contract \<open>file_store\<close> its callers use and its interpretation on the pointer code.
  \<^item> \<open>Queue\<close>: \<^verbatim>\<open>queue.c\<close>. \<open>Mailbox\<close>: the contract \<open>mailboxes\<close> (first in, first out, lists do not
    disturb each other) and its interpretation on the doubly linked lists.
  \<^item> \<open>Server\<close>: \<^verbatim>\<open>server.c\<close>: \<open>Job\<close>, one definition per case of the worker's switch (\<open>case_open\<close>,
    \<open>case_close\<close>, \<open>case_read\<close>, \<open>case_write\<close>, \<open>case_append\<close>, \<open>case_readn\<close>, \<open>case_remove\<close>, ...), \<open>serve\<close>
    for the switch, \<open>worker_take\<close> for the part of a worker's round that takes a job and \<open>worker_round\<close>
    for all of it, \<open>client_request\<close> and \<open>client_response\<close> for the two halves of a round of the
    client's thread, \<open>client_start\<close> for its beginning, the signal handlers, and \<open>main\<close> in pieces
    (\<open>main_config\<close>, \<open>main_socket\<close> with \<open>create_workers\<close>, \<open>main_round\<close>, \<open>main_finish\<close>). \<open>Server_Spec\<close>: what
    each case promises; \<open>Server_Cases\<close>, \<open>Server_Writes\<close>, \<open>Server_Reads\<close>: that it keeps it.
  \<^item> \<open>Session\<close>, \<open>Session_Ops\<close>: one request from its bytes to the bytes of its answer.
    \<open>Requests\<close>: the abstract cache, \<open>spec_of\<close> one request and \<open>spec_run\<close> a sequence; \<open>request_ok\<close>
    are the requests on which the code agrees with it, \<open>request_keeps\<close> those that in addition
    keep the memory limit. \<open>Refinement\<close>: the code simulates it. \<open>Roundtrip\<close>: create, write, read.
  \<^item> \<open>Client_Utils\<close>, \<open>Client_Args\<close>: \<^verbatim>\<open>clientutils.c\<close>, the calls and the command line. \<open>Client\<close>:
    \<^verbatim>\<open>client.c\<close>. \<open>Client_Runs\<close>, \<open>Client_Reads\<close>: each call on the answers of the server. \<open>Dialogue\<close>,
    \<open>Dialogue_Write\<close>: a call and the server talking in rounds. \<open>Client_Session\<close>, \<open>Client_Program\<close>:
    the actions in sequence and \<open>main\<close>.
  \<^item> \<open>Schedules\<close>: several clients and workers with waiting requests, jobs in the workers' hands and
    ready answers as an abstract machine (ask, take, serve, respond), and the code against it
    step by step. \<open>Frame\<close>, \<open>Thread_Steps\<close>, \<open>Threads\<close>: the threads of the server interleaved, as the
    step relation \<open>tstep\<close> on \<open>net\<close>: main accepts, a client's thread starts, asks and responds, a
    worker takes a job, works on it while others go on (\<open>elsewhere\<close>: it changes the cache and
    the sockets but neither lists nor jobs) and answers it, signals and the flood.
    \<open>Lifecycle\<close>: start, shutdown, cleaning up. \<open>Examples\<close>: a small server on which the theorems
    are instantiated.

  \<^bold>\<open>What is shown.\<close>
  \<^item> \<open>Session_Props\<close>: any sequence of requests in scope is answered as the abstract cache
    answers it and the cache stays within its limits; a file that is written is read back.
    \<open>Server_Props\<close>: the same for each case of the switch on its own, on every branch, but for an
    append whose file is evicted: there it is shown what the code does instead.
  \<^item> \<open>Schedule_Props\<close>: for any number of clients and workers and any schedule of whole cases, the
    requests take effect one after the other in the order in which they are served, those of
    each client in its own order.
  \<^item> \<open>Program_Props\<close>: a whole run of the client program, on the command lines in scope, against the
    server. \<open>Dialogue_Props\<close>: single calls, started from silence, come to their end in at most
    three rounds; where client and server disagree on the protocol.
  \<^item> \<open>Thread_Props\<close>: for the interleavings of \<open>tstep\<close> and any bytes on the sockets, each waiting
    client has exactly one job in flight, an answer goes to its own client only and touches no
    freed memory, and the job of a waiting client is not lost.
  \<^item> \<open>Cache_Props\<close>: what the replacement algorithm keeps and evicts, FIFO against LRU, and the limits
    it misses. \<open>Wire_Props\<close>: messages through sockets that cut the stream. \<open>Config_Props\<close>: the
    configuration file. \<open>Lifecycle_Props\<close>: from the command line to the idle server, from the idle
    server to the answers, the shutdown of an idle server, cleaning up. \<open>Client_Props\<close>: command line, connecting, times.
  \<^item> \<open>Error_Props\<close>, and parts of the others: the faults of the code, each as a theorem on the code as
    it is (an append that writes to a freed file, a close that answers twice, requests that
    end a worker or the process, two clients that share a descriptor, and others).

  \<^bold>\<open>Bounds and fuel.\<close>
  A loop that may not end has a number of rounds as an argument and runs into \<open>Diverges\<close>
  beyond it. The functions of the code pass enough: \<open>write_to_file\<close> passes $2^{32}+1$ rounds and its
  only variable has $2^{32}$ values; \<open>evict_memory\<close> and \<open>clean_cache\<close> pass one more than the number
  of cached files, and each round takes one off; \<open>writeFile\<close> passes three more than the file's
  length to \<open>fread_loop\<close>, whose rounds take at least one byte each unless the file is empty, in
  which case no number is enough; \<open>client_main\<close> passes one more than the number of actions to
  \<open>run_actions\<close>. \<open>visitDir\<close> takes the depth of the directory tree. \<open>worker_loop\<close>, \<open>client_loop\<close> and
  \<open>main_loop\<close> run as long as the server does; the theorems are about their rounds. The requests in
  scope of the refinement have contents below $2^{31}$ bytes and not exactly of the limit, no name of 256
  bytes or more, no \<open>CLOSE_FILE\<close>, and no append that evicts its own file: what the code does there is
  shown separately (\<open>Error_Props\<close>, \<open>Server_Props\<close>, \<open>Cache_Props\<close>).

  \<^bold>\<open>What is not modelled.\<close>
  \<open>tstep\<close> leaves out the requests that are not answered exactly once
  (\<open>CLOSE_FILE\<close>, \<open>END_WORKER\<close>, unknown codes) and a client that is accepted before
  the thread of the last one has read its arguments: what the code does with them is shown in
  \<open>Error_Props\<close>. What a worker does to the cache while others run is an arbitrary change there
  that keeps lists and jobs; the theorems about what the cases compute take a case as one step, so races on
  the cache between two operations of overlapping cases are outside the model. \<open>sprintf\<close> of a
  string into itself, which C leaves open, is an argument (\<open>sprintf_self\<close>), and so are the
  bytes \<open>malloc\<close> hands out (\<open>after\<close>). The text \<open>perror\<close> prints,
  \<open>nanosleep\<close>, the removal of the socket file (\<open>u_l\<close>), \<open>printf\<close>'s
  formatting and \<open>getpid\<close> leave no trace in it. \<open>socket\<close>, \<open>bind\<close>,
  \<open>listen\<close>, \<open>accept\<close>, \<open>pselect\<close>, \<open>connect\<close>,
  \<open>getopt\<close>, \<open>realpath\<close>, \<open>readdir\<close>, \<open>fopen\<close> and the clock
  belong to the system: their results are arguments. The header files' prototypes and includes have no
  counterpart.
\<close>

end
